(* ===== verification/VSR_Prelude.thy ===== *)
theory VSR_Prelude
  imports Main "HOL-Library.Monad_Syntax" "HOL-Library.Product_Lexorder"
begin

text \<open>
  What the components share.  A function of the library either returns or panics: an
  assertion fails, an index or a slice is out of range, an unsigned subtraction goes below
  zero.  A fallible function therefore returns an \<open>option\<close>, \<open>None\<close> being the panic, and
  the functions are composed in the \<open>option\<close> monad.  The theory holds the checked
  operations of that monad, ordered maps (the sources' \<open>BTreeMap\<close>; the sources' \<open>HashMap\<close>
  too, since every use of its iteration order sorts what it collects), \<open>max_by_key\<close>, and the
  watermark that a quorum of counters reaches, with the facts about each.
\<close>

named_theorems panic_simps \<open>inversion of the checked operations\<close>

section \<open>Checked operations\<close>

definition ensure :: "bool \<Rightarrow> unit option" where
  "ensure b = (if b then Some () else None)"

definition checked_sub :: "nat \<Rightarrow> nat \<Rightarrow> nat option" where
  "checked_sub a b = (if b \<le> a then Some (a - b) else None)"

definition nth_chk :: "'a list \<Rightarrow> nat \<Rightarrow> 'a option" where
  "nth_chk xs i = (if i < length xs then Some (xs ! i) else None)"

definition set_chk :: "'a list \<Rightarrow> nat \<Rightarrow> 'a \<Rightarrow> 'a list option" where
  "set_chk xs i x = (if i < length xs then Some (xs[i := x]) else None)"

definition drop_chk :: "nat \<Rightarrow> 'a list \<Rightarrow> 'a list option" where
  "drop_chk n xs = (if n \<le> length xs then Some (drop n xs) else None)"

definition clamp_chk :: "nat \<Rightarrow> nat \<Rightarrow> nat \<Rightarrow> nat option" where
  "clamp_chk lo hi x = (if lo \<le> hi then Some (max lo (min hi x)) else None)"

section \<open>Ordered maps\<close>

text \<open>A map in key order, as its list of bindings; a lookup is \<open>map_of\<close>.\<close>

fun bt_insert :: "'k::linorder \<Rightarrow> 'v \<Rightarrow> ('k \<times> 'v) list \<Rightarrow> ('k \<times> 'v) list" where
  "bt_insert k v [] = [(k, v)]"
| "bt_insert k v ((k', v') # m) =
     (if k < k' then (k, v) # (k', v') # m
      else if k = k' then (k, v) # m
      else (k', v') # bt_insert k v m)"

definition bt_remove :: "'k \<Rightarrow> ('k \<times> 'v) list \<Rightarrow> ('k \<times> 'v) list" where
  "bt_remove k m = filter (\<lambda>b. fst b \<noteq> k) m"

definition bt_wf :: "('k::linorder \<times> 'v) list \<Rightarrow> bool" where
  "bt_wf m = sorted_wrt (<) (map fst m)"

section \<open>Selection\<close>

text \<open>\<open>Iterator::max_by_key\<close>: the last of the elements whose key is the greatest.\<close>

fun max_by_key :: "('a \<Rightarrow> 'k::linorder) \<Rightarrow> 'a list \<Rightarrow> 'a option" where
  "max_by_key f [] = None"
| "max_by_key f (x # xs) =
     (case max_by_key f xs of
        None \<Rightarrow> Some x
      | Some y \<Rightarrow> if f x \<le> f y then Some y else Some x)"

text \<open>
  \<open>Iterator::max\<close> with \<open>unwrap_or(0)\<close>, and the highest mark that at least \<open>q\<close> of the
  marks reach.
\<close>

definition max_or_0 :: "nat list \<Rightarrow> nat" where
  "max_or_0 xs = foldr max xs 0"

definition quorum_mark :: "nat \<Rightarrow> nat list \<Rightarrow> nat" where
  "quorum_mark q xs =
     max_or_0 (filter (\<lambda>mark. q \<le> length (filter (\<lambda>other. mark \<le> other) xs)) xs)"

section \<open>Inversion of the checked operations\<close>

lemma ensure_Some [simp, panic_simps]: "ensure b = Some u \<longleftrightarrow> b"
  by (simp add: ensure_def)

lemma ensure_None [simp]: "ensure b = None \<longleftrightarrow> \<not> b"
  by (simp add: ensure_def)

lemma ensure_True [simp]: "ensure True = Some ()"
  by (simp add: ensure_def)

lemma checked_sub_Some [simp, panic_simps]: "checked_sub a b = Some c \<longleftrightarrow> b \<le> a \<and> c = a - b"
  by (auto simp: checked_sub_def)

lemma checked_sub_None [simp]: "checked_sub a b = None \<longleftrightarrow> a < b"
  by (auto simp: checked_sub_def)

lemma nth_chk_Some [simp, panic_simps]: "nth_chk xs i = Some x \<longleftrightarrow> i < length xs \<and> x = xs ! i"
  by (auto simp: nth_chk_def)

lemma nth_chk_None [simp]: "nth_chk xs i = None \<longleftrightarrow> length xs \<le> i"
  by (auto simp: nth_chk_def)

lemma set_chk_Some [simp, panic_simps]:
  "set_chk xs i x = Some ys \<longleftrightarrow> i < length xs \<and> ys = xs[i := x]"
  by (auto simp: set_chk_def)

lemma set_chk_None [simp]: "set_chk xs i x = None \<longleftrightarrow> length xs \<le> i"
  by (auto simp: set_chk_def)

lemma drop_chk_Some [simp, panic_simps]:
  "drop_chk n xs = Some ys \<longleftrightarrow> n \<le> length xs \<and> ys = drop n xs"
  by (auto simp: drop_chk_def)

lemma drop_chk_None [simp]: "drop_chk n xs = None \<longleftrightarrow> length xs < n"
  by (auto simp: drop_chk_def)

lemma clamp_chk_Some [simp, panic_simps]:
  "clamp_chk lo hi x = Some y \<longleftrightarrow> lo \<le> hi \<and> y = max lo (min hi x)"
  by (auto simp: clamp_chk_def)

lemma clamp_chk_None [simp]: "clamp_chk lo hi x = None \<longleftrightarrow> hi < lo"
  by (auto simp: clamp_chk_def)

lemma bind_Some_iff [panic_simps]:
  "Option.bind x f = Some y \<longleftrightarrow> (\<exists>z. x = Some z \<and> f z = Some y)"
  by (cases x) auto

lemma bind_ensure [simp]: "Option.bind (ensure b) f = (if b then f () else None)"
  by (simp add: ensure_def)

lemma bind_checked_sub [simp]:
  "Option.bind (checked_sub a b) f = (if b \<le> a then f (a - b) else None)"
  by (simp add: checked_sub_def)

section \<open>Ordered maps: the interface and its implementation\<close>

text \<open>
  The interface the components use: a lookup after an insertion or a removal, and an
  invariant every operation keeps.
\<close>

locale key_map =
  fixes ins :: "'k \<Rightarrow> 'v \<Rightarrow> 'm \<Rightarrow> 'm"
    and del :: "'k \<Rightarrow> 'm \<Rightarrow> 'm"
    and get :: "'m \<Rightarrow> 'k \<Rightarrow> 'v option"
    and invar :: "'m \<Rightarrow> bool"
  assumes get_ins: "get (ins k v m) = (get m)(k \<mapsto> v)"
    and get_del: "get (del k m) = (get m)(k := None)"
    and invar_ins: "invar m \<Longrightarrow> invar (ins k v m)"
    and invar_del: "invar m \<Longrightarrow> invar (del k m)"
begin

lemma get_ins_same: "get (ins k v m) k = Some v"
  by (simp add: get_ins)

lemma get_ins_other: "k' \<noteq> k \<Longrightarrow> get (ins k v m) k' = get m k'"
  by (simp add: get_ins)

lemma get_del_ins: "get (del k (ins k v m)) = (get m)(k := None)"
  by (simp add: get_ins get_del)

lemma get_fold_ins:
  "get (fold (\<lambda>x. ins (f x) (g x)) xs m) k =
     (case find (\<lambda>x. f x = k) (rev xs) of Some x \<Rightarrow> Some (g x) | None \<Rightarrow> get m k)"
proof (induction xs rule: rev_induct)
  case (snoc x xs)
  then show ?case by (simp add: get_ins)
qed simp

lemma dom_get_fold_ins: "dom (get (fold (\<lambda>x. ins (f x) (g x)) xs m)) = f ` set xs \<union> dom (get m)"
  by (induction xs arbitrary: m) (auto simp: get_ins)

end

lemma map_of_bt_insert [simp]: "map_of (bt_insert k v m) = (map_of m)(k \<mapsto> v)"
  by (induction k v m rule: bt_insert.induct) (auto simp: fun_eq_iff)

lemma map_of_bt_remove [simp]: "map_of (bt_remove k m) = (map_of m)(k := None)"
  by (induction m) (auto simp: bt_remove_def fun_eq_iff)

lemma set_bt_insert: "fst ` set (bt_insert k v m) = insert k (fst ` set m)"
  by (induction k v m rule: bt_insert.induct) auto

lemma bt_wf_Nil [simp]: "bt_wf []"
  by (simp add: bt_wf_def)

lemma bt_wf_insert: "bt_wf m \<Longrightarrow> bt_wf (bt_insert k v m)"
proof (induction k v m rule: bt_insert.induct)
  case (2 k v k' v' m)
  show ?case
  proof (cases "k' < k")
    case True
    with 2 have wf: "bt_wf (bt_insert k v m)" by (simp add: bt_wf_def)
    have "\<forall>x \<in> set (map fst (bt_insert k v m)). k' < x"
      using 2(2) True set_bt_insert [of k v m] by (auto simp: bt_wf_def)
    with wf True show ?thesis by (auto simp: bt_wf_def)
  next
    case False
    with 2(2) show ?thesis by (fastforce simp: bt_wf_def)
  qed
qed (simp add: bt_wf_def)

lemma bt_wf_filter: "bt_wf m \<Longrightarrow> bt_wf (filter P m)"
  by (induction m) (auto simp: bt_wf_def)

lemma bt_wf_remove: "bt_wf m \<Longrightarrow> bt_wf (bt_remove k m)"
  by (simp add: bt_remove_def bt_wf_filter)

lemma bt_wf_distinct: "bt_wf m \<Longrightarrow> distinct (map fst m)"
  unfolding bt_wf_def using strict_sorted_iff by blast

interpretation bt: key_map bt_insert bt_remove map_of bt_wf
  by unfold_locales (simp_all add: bt_wf_insert bt_wf_remove)

lemma length_bt_insert:
  "bt_wf m \<Longrightarrow> length (bt_insert k v m) = (if map_of m k = None then Suc (length m) else length m)"
proof (induction k v m rule: bt_insert.induct)
  case (2 k v k' v' m)
  have "k < k' \<Longrightarrow> map_of m k = None"
    using 2(2) by (force simp: bt_wf_def map_of_eq_None_iff)
  with 2 show ?case by (auto simp: bt_wf_def)
qed simp

section \<open>Selection\<close>

lemma max_by_key_None [simp]: "max_by_key f xs = None \<longleftrightarrow> xs = []"
  by (induction xs) (auto split: option.splits)

lemma max_by_key_Some:
  "max_by_key f xs = Some y \<Longrightarrow> y \<in> set xs \<and> (\<forall>x \<in> set xs. f x \<le> f y)"
proof (induction xs arbitrary: y)
  case (Cons x xs)
  then show ?case
    by (fastforce split: option.splits if_splits)
qed simp

lemma max_or_0_ge: "x \<in> set xs \<Longrightarrow> x \<le> max_or_0 xs"
  by (induction xs) (auto simp: max_or_0_def)

lemma max_or_0_in: "max_or_0 xs = 0 \<or> max_or_0 xs \<in> set xs"
  by (induction xs) (auto simp: max_or_0_def max_def)

lemma max_or_0_le: "(\<And>x. x \<in> set xs \<Longrightarrow> x \<le> b) \<Longrightarrow> max_or_0 xs \<le> b"
  using max_or_0_in [of xs] by auto

lemma quorum_mark_le: "(\<And>x. x \<in> set xs \<Longrightarrow> x \<le> b) \<Longrightarrow> quorum_mark q xs \<le> b"
  unfolding quorum_mark_def by (rule max_or_0_le) auto

lemma length_filter_mono:
  "(\<And>x. x \<in> set xs \<Longrightarrow> P x \<Longrightarrow> Q x) \<Longrightarrow> length (filter P xs) \<le> length (filter Q xs)"
  by (induction xs) (auto simp: le_Suc_eq)

text \<open>A mark the watermark reaches is reached by a quorum of the counters, and only then.\<close>

lemma quorum_mark_reached:
  "0 < m \<Longrightarrow> m \<le> quorum_mark q xs \<Longrightarrow> q \<le> length (filter (\<lambda>x. m \<le> x) xs)"
proof -
  assume m: "0 < m" "m \<le> quorum_mark q xs"
  then have "quorum_mark q xs \<in> set (filter (\<lambda>k. q \<le> length (filter (\<lambda>x. k \<le> x) xs)) xs)"
    using max_or_0_in [of "filter (\<lambda>k. q \<le> length (filter (\<lambda>x. k \<le> x) xs)) xs"]
    by (auto simp: quorum_mark_def)
  then have "q \<le> length (filter (\<lambda>x. quorum_mark q xs \<le> x) xs)" by simp
  also have "\<dots> \<le> length (filter (\<lambda>x. m \<le> x) xs)"
    using m(2) by (intro length_filter_mono) simp
  finally show ?thesis .
qed

lemma filter_above_ex_min:
  fixes m :: nat
  assumes "filter (\<lambda>x. m \<le> x) xs \<noteq> []"
  shows "\<exists>k \<in> set xs. m \<le> k \<and> filter (\<lambda>x. k \<le> x) xs = filter (\<lambda>x. m \<le> x) xs"
proof -
  define k where "k = Min (set (filter (\<lambda>x. m \<le> x) xs))"
  have "k \<in> set (filter (\<lambda>x. m \<le> x) xs)"
    unfolding k_def using assms by (intro Min_in) (simp_all only: set_empty List.finite_set not_False_eq_True)
  moreover have "m \<le> x \<Longrightarrow> x \<in> set xs \<Longrightarrow> k \<le> x" for x
    unfolding k_def by (intro Min_le) auto
  ultimately show ?thesis by (intro bexI [of _ k] conjI filter_cong) auto
qed

lemma quorum_mark_ge:
  assumes "0 < q" and "q \<le> length (filter (\<lambda>x. m \<le> x) xs)"
  shows "m \<le> quorum_mark q xs"
proof -
  from assms have "filter (\<lambda>x. m \<le> x) xs \<noteq> []" by auto
  from filter_above_ex_min [OF this] obtain k
    where k: "k \<in> set xs" "m \<le> k" "filter (\<lambda>x. k \<le> x) xs = filter (\<lambda>x. m \<le> x) xs" by blast
  with assms(2) have "k \<le> quorum_mark q xs"
    unfolding quorum_mark_def by (intro max_or_0_ge) simp
  with k(2) show ?thesis by simp
qed

end
