(* ===== verification/VSR_Config.thy ===== *)
theory VSR_Config
  imports VSR_Prelude
begin

text \<open>
  \<open>Config\<close> of \<open>src/lib.rs\<close>: the replicas, the timeouts and the sizes of the client table,
  with the primary of a view and the size of a quorum.  The interface the protocol relies on
  is that two quorums meet, stated as the locale \<open>quorum_system\<close> and discharged for the
  quorums of a configuration.
\<close>

type_synonym ClientID = nat
type_synonym CommitID = nat
type_synonym OpNumber = nat
type_synonym ReplicaID = nat
type_synonym RequestNumber = nat
type_synonym QueryNumber = nat
type_synonym ViewNumber = nat

record config =
  cfg_replicas :: "ReplicaID list"
  cfg_primary_timeout :: nat
  cfg_clients_max :: nat
  cfg_in_flight_max :: nat

definition config_new :: config where
  "config_new = \<lparr>cfg_replicas = [], cfg_primary_timeout = 3, cfg_clients_max = 4096,
     cfg_in_flight_max = 16\<rparr>"

abbreviation replica_count :: "config \<Rightarrow> nat" where
  "replica_count c \<equiv> length (cfg_replicas c)"

text \<open>
  A \<open>Replica\<close> and a \<open>Client\<close> exist only with at least three replicas, so the divisor is
  never zero where the protocol asks for the primary of a view.
\<close>

definition cfg_primary_id :: "config \<Rightarrow> ViewNumber \<Rightarrow> ReplicaID" where
  "cfg_primary_id c v = v mod replica_count c"

definition add_replica :: "config \<Rightarrow> ReplicaID \<times> config" where
  "add_replica c = (let i = replica_count c in (i, c\<lparr>cfg_replicas := cfg_replicas c @ [i]\<rparr>))"

definition cfg_quorum :: "config \<Rightarrow> nat" where
  "cfg_quorum c = replica_count c div 2 + 1"

definition set_primary_timeout :: "config \<Rightarrow> nat \<Rightarrow> config option" where
  "set_primary_timeout c n = do { ensure (1 \<le> n); Some (c\<lparr>cfg_primary_timeout := n\<rparr>) }"

definition set_clients_max :: "config \<Rightarrow> nat \<Rightarrow> config option" where
  "set_clients_max c n = do { ensure (1 \<le> n); Some (c\<lparr>cfg_clients_max := n\<rparr>) }"

definition set_in_flight_max :: "config \<Rightarrow> nat \<Rightarrow> config option" where
  "set_in_flight_max c n = do { ensure (1 \<le> n); Some (c\<lparr>cfg_in_flight_max := n\<rparr>) }"

text \<open>What the constructor and the setters keep of a configuration.\<close>

definition config_wf :: "config \<Rightarrow> bool" where
  "config_wf c \<longleftrightarrow> cfg_replicas c = [0..<replica_count c] \<and> 1 \<le> cfg_primary_timeout c
     \<and> 1 \<le> cfg_clients_max c \<and> 1 \<le> cfg_in_flight_max c"

fun add_replicas :: "nat \<Rightarrow> config \<Rightarrow> config" where
  "add_replicas 0 c = c"
| "add_replicas (Suc n) c = add_replicas n (snd (add_replica c))"

definition is_replica_quorum :: "config \<Rightarrow> ReplicaID set \<Rightarrow> bool" where
  "is_replica_quorum c Q \<longleftrightarrow> Q \<subseteq> set (cfg_replicas c) \<and> cfg_quorum c \<le> card Q"

section \<open>The configuration's invariant\<close>

lemma config_wf_new [simp]: "config_wf config_new"
  by (simp add: config_wf_def config_new_def)

lemma config_wf_add_replica: "config_wf c \<Longrightarrow> config_wf (snd (add_replica c))"
  by (simp add: config_wf_def add_replica_def Let_def)

lemma config_wf_add_replicas: "config_wf c \<Longrightarrow> config_wf (add_replicas n c)"
  by (induction n arbitrary: c) (auto intro: config_wf_add_replica)

lemma replica_count_add_replicas: "replica_count (add_replicas n c) = replica_count c + n"
  by (induction n arbitrary: c) (auto simp: add_replica_def Let_def)

lemma config_wf_setters:
  "config_wf c \<Longrightarrow> set_primary_timeout c n = Some c' \<Longrightarrow> config_wf c'"
  "config_wf c \<Longrightarrow> set_clients_max c n = Some c' \<Longrightarrow> config_wf c'"
  "config_wf c \<Longrightarrow> set_in_flight_max c n = Some c' \<Longrightarrow> config_wf c'"
  by (auto simp: config_wf_def set_primary_timeout_def set_clients_max_def set_in_flight_max_def
      split: if_splits)

lemma cfg_quorum_bounds:
  "0 < replica_count c \<Longrightarrow> 0 < cfg_quorum c \<and> cfg_quorum c \<le> replica_count c"
  unfolding cfg_quorum_def by linarith

lemma cfg_primary_id_less [simp]: "0 < replica_count c \<Longrightarrow> cfg_primary_id c v < replica_count c"
  by (simp add: cfg_primary_id_def)

section \<open>Quorums meet\<close>

text \<open>
  The contract view changes and recovery rest on: what all of one quorum hold and what all of
  another lack cannot both be.
\<close>

locale quorum_system =
  fixes quorum :: "'a set \<Rightarrow> bool"
  assumes quorums_meet: "quorum A \<Longrightarrow> quorum B \<Longrightarrow> A \<inter> B \<noteq> {}"
begin

lemma quorum_nonempty: "quorum A \<Longrightarrow> A \<noteq> {}"
  using quorums_meet [of A A] by simp

lemma common_member: "quorum A \<Longrightarrow> quorum B \<Longrightarrow> \<exists>x. x \<in> A \<and> x \<in> B"
  using quorums_meet by blast

lemma no_split: "quorum A \<Longrightarrow> quorum B \<Longrightarrow> \<forall>x \<in> A. P x \<Longrightarrow> \<exists>x \<in> B. P x"
  using common_member by blast

end

lemma replica_quorums_meet:
  assumes "is_replica_quorum c A" and "is_replica_quorum c B"
  shows "A \<inter> B \<noteq> {}"
proof
  assume disjoint: "A \<inter> B = {}"
  have sub: "A \<subseteq> set (cfg_replicas c)" "B \<subseteq> set (cfg_replicas c)"
    using assms by (auto simp: is_replica_quorum_def)
  then have "card A + card B = card (A \<union> B)"
    using disjoint by (simp add: card_Un_disjoint finite_subset)
  also have "\<dots> \<le> card (set (cfg_replicas c))"
    using sub by (intro card_mono) auto
  also have "\<dots> \<le> replica_count c"
    by (rule card_length)
  finally show False
    using assms by (auto simp: is_replica_quorum_def cfg_quorum_def)
qed

interpretation rq: quorum_system "is_replica_quorum c" for c
  by unfold_locales (rule replica_quorums_meet)

lemma replica_quorumI:
  assumes "config_wf c" and "\<And>i. i \<in> Q \<Longrightarrow> i < replica_count c" and "cfg_quorum c \<le> card Q"
  shows "is_replica_quorum c Q"
proof -
  from assms(1) have "set (cfg_replicas c) = {0..<replica_count c}"
    by (metis config_wf_def set_upt)
  with assms(2,3) show ?thesis by (auto simp: is_replica_quorum_def)
qed

end
