(* ===== verification/VSR_Types.thy ===== *)
theory VSR_Types
  imports VSR_Config
begin

text \<open>
  The data of \<open>src/lib.rs\<close>: log entries, replies, client records, stretches of log, what a
  replica persists and the writes that bring a persisted copy up to date, the messages of the
  protocol, and the \<open>StateMachine\<close> trait.  The trait is a record of the operations an owner
  provides, the parameter \<open>sm\<close> of every function of a replica; what the library documents of
  them is the locale \<open>client_store\<close>.  Operation numbers, view numbers and the other
  counters are natural numbers: each grows by one per event, so a 64-bit counter does not
  overflow, while every subtraction is checked.
\<close>

section \<open>Log entries, replies, client records\<close>

datatype 'op log_entry =
    ERegister ClientID
  | ERequest ClientID OpNumber RequestNumber RequestNumber 'op
    \<comment> \<open>client, session, request number, answered, op\<close>

fun entry_client_id :: "'op log_entry \<Rightarrow> ClientID" where
  "entry_client_id (ERegister c) = c"
| "entry_client_id (ERequest c s n a op) = c"

datatype 'out reply =
    Registered ViewNumber ClientID OpNumber
  | Executed ViewNumber ClientID OpNumber RequestNumber 'out
  | Evicted ViewNumber ClientID OpNumber
  | Queried ViewNumber ClientID QueryNumber 'out

fun reply_client_id :: "'out reply \<Rightarrow> ClientID" where
  "reply_client_id (Registered v c s) = c"
| "reply_client_id (Executed v c s n out) = c"
| "reply_client_id (Evicted v c s) = c"
| "reply_client_id (Queried v c n out) = c"

fun reply_view_number :: "'out reply \<Rightarrow> ViewNumber" where
  "reply_view_number (Registered v c s) = v"
| "reply_view_number (Executed v c s n out) = v"
| "reply_view_number (Evicted v c s) = v"
| "reply_view_number (Queried v c n out) = v"

record 'out client_record =
  rec_client_id :: ClientID
  rec_session :: OpNumber
  rec_request_number :: RequestNumber
  rec_replies :: "'out list"
  rec_op_number :: OpNumber

section \<open>Stretches of log\<close>

datatype log_base = BaseOp OpNumber | BaseCheckpoint OpNumber

fun base_start :: "log_base \<Rightarrow> OpNumber" where
  "base_start (BaseOp n) = n"
| "base_start (BaseCheckpoint n) = n"

record 'op log_segment =
  seg_base :: log_base
  seg_entries :: "'op log_entry list"

definition seg_start :: "'op log_segment \<Rightarrow> OpNumber" where
  "seg_start s = base_start (seg_base s)"

definition seg_end :: "'op log_segment \<Rightarrow> OpNumber" where
  "seg_end s = seg_start s + length (seg_entries s)"

section \<open>What a replica persists\<close>

record 'op persistent_state =
  ps_view_number :: ViewNumber
  ps_last_normal_view :: ViewNumber
  ps_commit_number :: CommitID
  ps_log_start :: OpNumber
  ps_log :: "'op log_entry list"
  ps_recovering :: bool

definition ps_empty :: "'op persistent_state" where
  "ps_empty = \<lparr>ps_view_number = 0, ps_last_normal_view = 0, ps_commit_number = 0,
     ps_log_start = 0, ps_log = [], ps_recovering = False\<rparr>"

record 'op log_write =
  lw_view_number :: ViewNumber
  lw_last_normal_view :: ViewNumber
  lw_recovering :: bool
  lw_commit_number :: CommitID
  lw_log_start :: OpNumber
  lw_entries_from :: OpNumber
  lw_entries :: "'op log_entry list"
  lw_sync :: bool
  lw_op_number :: OpNumber
  lw_sequence :: nat

text \<open>
  Drops the compacted prefix, then everything from \<open>entries_from\<close> on, appends the write's
  entries and takes its counters.
\<close>

definition ps_apply :: "'op persistent_state \<Rightarrow> 'op log_write \<Rightarrow> 'op persistent_state option" where
  "ps_apply p w = do {
     let p = (if lw_log_start w > ps_log_start p
              then p\<lparr>ps_log := drop (min (lw_log_start w - ps_log_start p) (length (ps_log p))) (ps_log p),
                     ps_log_start := lw_log_start w\<rparr>
              else p);
     let end' = ps_log_start p + length (ps_log p);
     ensure (ps_log_start p + 1 \<le> lw_entries_from w \<and> lw_entries_from w \<le> end' + 1);
     let keep = lw_entries_from w - ps_log_start p - 1;
     Some (p\<lparr>ps_log := take keep (ps_log p) @ lw_entries w,
             ps_view_number := lw_view_number w,
             ps_last_normal_view := lw_last_normal_view w,
             ps_commit_number := lw_commit_number w,
             ps_recovering := lw_recovering w\<rparr>) }"

record outstanding_write =
  os_sequence :: nat
  os_op_number :: OpNumber
  os_last_normal_view :: ViewNumber

record written_state =
  wr_view_number :: ViewNumber
  wr_last_normal_view :: ViewNumber
  wr_recovering :: bool
  wr_log_start :: OpNumber

section \<open>Messages\<close>

record 'op recovery_state =
  rs_segment :: "'op log_segment"
  rs_commit_number :: CommitID

datatype ('op, 'q, 'chunk) message =
    Register ClientID
  | Request ClientID OpNumber RequestNumber RequestNumber 'op
    \<comment> \<open>client, session, request number, answered, op\<close>
  | Query ClientID QueryNumber 'q
  | ConfirmView ViewNumber nat
  | ConfirmViewOk ViewNumber nat ReplicaID
  | Prepare ViewNumber OpNumber "'op log_entry" CommitID
  | PrepareOk ViewNumber OpNumber ReplicaID
  | Commit ViewNumber CommitID
  | GetState ReplicaID ViewNumber OpNumber
  | NewState ReplicaID ViewNumber "'op log_segment" CommitID
  | GetChunk ReplicaID OpNumber nat
  | NewChunk ReplicaID OpNumber nat 'chunk bool
  | StartViewChange ViewNumber ReplicaID
  | DoViewChange ViewNumber ReplicaID ViewNumber "'op log_segment" CommitID
    \<comment> \<open>view, sender, last normal view, log, commit number\<close>
  | StartView ViewNumber "'op log_segment" CommitID
  | Recovery ReplicaID nat ViewNumber
  | RecoveryResponse ViewNumber nat ReplicaID "'op recovery_state option"

section \<open>The state machine an owner provides\<close>

record ('s, 'op, 'q, 'out, 'chunk) state_machine =
  sm_apply :: "'s \<Rightarrow> OpNumber \<Rightarrow> 'op \<Rightarrow> ('s \<times> 'out) option"
  sm_query :: "'s \<Rightarrow> 'q \<Rightarrow> 'out"
  sm_record_client :: "'s \<Rightarrow> OpNumber \<Rightarrow> ClientID \<Rightarrow> 'out client_record option \<Rightarrow> 's"
  sm_client_table :: "'s \<Rightarrow> 'out client_record list"
  sm_checkpoint :: "'s \<Rightarrow> 's \<times> OpNumber"
  sm_checkpoint_chunk :: "'s \<Rightarrow> nat \<Rightarrow> ('chunk \<times> bool) option"
  sm_release_checkpoint :: "'s \<Rightarrow> 's option"
  sm_stage_chunk :: "'s \<Rightarrow> OpNumber \<Rightarrow> nat \<Rightarrow> 'chunk \<Rightarrow> 's option"
  sm_restore :: "'s \<Rightarrow> OpNumber \<Rightarrow> 's option"

text \<open>The client table as a lookup by client.\<close>

definition table_of :: "'out client_record list \<Rightarrow> ClientID \<Rightarrow> 'out client_record option" where
  "table_of recs = map_of (map (\<lambda>rec. (rec_client_id rec, rec)) recs)"

section \<open>Facts\<close>

lemma table_of_Nil [simp]: "table_of [] = Map.empty"
  by (simp add: table_of_def)

lemma table_of_Some_id: "table_of recs c = Some rec \<Longrightarrow> rec_client_id rec = c"
  by (auto simp: table_of_def dest: map_of_SomeD)

lemma base_start_cases: "base_start b = (case b of BaseOp n \<Rightarrow> n | BaseCheckpoint n \<Rightarrow> n)"
  by (cases b) auto

text \<open>A write with the whole retained log of the writer needs nothing of the copy.\<close>

lemma ps_apply_log_start:
  "ps_apply p w = Some p' \<Longrightarrow> ps_log_start p' = max (ps_log_start p) (lw_log_start w)"
  by (auto simp: ps_apply_def Let_def split: if_splits)

end
