(* ===== verification/VSR_Replica.thy ===== *)
theory VSR_Replica
  imports VSR_Types
begin

text \<open>
  \<open>Replica\<close> of \<open>src/lib.rs\<close>: its state, field by field, its constructor, and the functions
  every handler uses: the log and its bookkeeping, the outboxes, the timers.  The handlers
  are in \<open>VSR_Execute\<close>, \<open>VSR_Normal\<close>, \<open>VSR_Transfer\<close> and \<open>VSR_ViewChange\<close>, and
  \<open>VSR_Step\<close> has the entry points an owner calls.
\<close>

section \<open>Data\<close>

datatype status = Normal | StateTransfer | Recovering | ViewChange

definition ROUNDS_OUT :: nat where
  "ROUNDS_OUT = 32"

datatype 'op resume =
    RNewState ViewNumber "'op log_segment" CommitID
  | RRecoveryResponse ViewNumber "'op recovery_state"

fun resume_checkpoint :: "'op resume \<Rightarrow> OpNumber" where
  "resume_checkpoint (RNewState v seg k) = seg_start seg"
| "resume_checkpoint (RRecoveryResponse v st) = seg_start (rs_segment st)"

record 'op fetch_state =
  ft_from :: ReplicaID
  ft_index :: nat
  ft_idle_periods :: nat
  ft_stalled :: bool
  ft_then :: "'op resume"

datatype 'op installed = ILog | INothing | ICheckpoint "'op log_segment"

record 'q waiting_query =
  wq_client_id :: ClientID
  wq_query_number :: QueryNumber
  wq_query :: 'q
  wq_op_number :: OpNumber
  wq_round :: nat

record 'out client_state =
  cs_record :: "'out client_record option"
  cs_pending :: "(OpNumber \<times> RequestNumber) option"

definition client_state_default :: "'out client_state" where
  "client_state_default = \<lparr>cs_record = None, cs_pending = None\<rparr>"

record 'op do_view_change =
  dvc_last_normal_view :: ViewNumber
  dvc_segment :: "'op log_segment"
  dvc_commit_number :: CommitID

record 'op recovery_response =
  rr_view_number :: ViewNumber
  rr_state :: "'op recovery_state option"

type_synonym ('op, 'q, 'chunk) mailbox = "(ReplicaID \<times> ('op, 'q, 'chunk) message) list"

record ('s, 'op, 'q, 'out, 'chunk) replica =
  config :: config
  self_id :: ReplicaID
  state_machine :: 's
  status :: status
  view_number :: ViewNumber
  last_normal_view :: ViewNumber
  commit_number :: CommitID
  applied :: OpNumber
  reply_ranges :: "(OpNumber \<times> OpNumber) list"
  log_start :: OpNumber
  log :: "'op log_entry list"
  log_changed_from :: "OpNumber option"
  written :: "written_state option"
  writes :: nat
  outstanding :: "outstanding_write option"
  durable :: OpNumber
  acked :: "OpNumber list"
  resend_up_to :: OpNumber
  view_start_op :: OpNumber
  queries :: "'q waiting_query list"
  waiting :: "(ClientID \<times> QueryNumber) set"
  round :: nat
  round_confirmed :: nat
  confirmed :: "nat list"
  round_unsent :: bool
  clients :: "(ClientID \<times> 'out client_state) list"
  sessions :: nat
  eviction_candidates :: "(OpNumber \<times> ClientID) list"
  heard_from_primary :: bool
  idle_periods_waiting :: nat
  view_change_attempts :: nat
  idle_periods_stable :: nat
  start_view_change_from :: "ReplicaID set"
  do_view_change_sent :: bool
  do_view_change_from :: "(ReplicaID \<times> 'op do_view_change) list"
  catching_up :: "ReplicaID option"
  serving :: "(OpNumber \<times> nat) option"
  fetch :: "'op fetch_state option"
  recovery_nonce :: nat
  recovery_responses :: "(ReplicaID \<times> 'op recovery_response) list"
  outbox_early :: "('op, 'q, 'chunk) mailbox"
  outbox :: "('op, 'q, 'chunk) mailbox"
  outbox_waiting :: "('op, 'q, 'chunk) mailbox"
  outbox_ready :: "('op, 'q, 'chunk) mailbox"
  replies :: "'out reply list"

definition replica_new ::
  "ReplicaID \<Rightarrow> config \<Rightarrow> 's \<Rightarrow> ('s, 'op, 'q, 'out, 'chunk) replica option" where
  "replica_new i cfg s = do {
     ensure (3 \<le> replica_count cfg);
     Some \<lparr>config = cfg, self_id = i, state_machine = s, status = Normal, view_number = 0,
       last_normal_view = 0, commit_number = 0, applied = 0, reply_ranges = [], log_start = 0,
       log = [], log_changed_from = None, written = None, writes = 0, outstanding = None,
       durable = 0, acked = replicate (replica_count cfg) 0, resend_up_to = 0,
       view_start_op = 0, queries = [], waiting = {}, round = 0, round_confirmed = 0,
       confirmed = replicate (replica_count cfg) 0, round_unsent = False, clients = [],
       sessions = 0, eviction_candidates = [], heard_from_primary = True,
       idle_periods_waiting = 0, view_change_attempts = 0, idle_periods_stable = 0,
       start_view_change_from = {}, do_view_change_sent = False, do_view_change_from = [],
       catching_up = None, serving = None, fetch = None, recovery_nonce = 0,
       recovery_responses = [], outbox_early = [], outbox = [], outbox_waiting = [],
       outbox_ready = [], replies = []\<rparr> }"

section \<open>Queries of the state\<close>

definition primary_id :: "('s, 'op, 'q, 'out, 'chunk) replica \<Rightarrow> ReplicaID" where
  "primary_id r = cfg_primary_id (config r) (view_number r)"

definition is_primary :: "('s, 'op, 'q, 'out, 'chunk) replica \<Rightarrow> bool" where
  "is_primary r \<longleftrightarrow> self_id r = primary_id r"

definition is_recovering :: "('s, 'op, 'q, 'out, 'chunk) replica \<Rightarrow> bool" where
  "is_recovering r \<longleftrightarrow> status r = Recovering"

definition op_number :: "('s, 'op, 'q, 'out, 'chunk) replica \<Rightarrow> OpNumber" where
  "op_number r = log_start r + length (log r)"

text \<open>The entries from \<open>n\<close> on, or from the first one held if \<open>n\<close> has been compacted.\<close>

definition log_from :: "('s, 'op, 'q, 'out, 'chunk) replica \<Rightarrow> OpNumber \<Rightarrow> 'op log_entry list" where
  "log_from r n = drop (min (n - (log_start r + 1)) (length (log r))) (log r)"

definition entry :: "('s, 'op, 'q, 'out, 'chunk) replica \<Rightarrow> OpNumber \<Rightarrow> 'op log_entry option" where
  "entry r n = do { i \<leftarrow> checked_sub n (log_start r + 1); nth_chk (log r) i }"

definition client_table :: "('s, 'op, 'q, 'out, 'chunk) replica \<Rightarrow> 'out client_record list" where
  "client_table r = sort_key rec_client_id (List.map_filter (\<lambda>b. cs_record (snd b)) (clients r))"

definition persistent_state_of :: "('s, 'op, 'q, 'out, 'chunk) replica \<Rightarrow> 'op persistent_state" where
  "persistent_state_of r = \<lparr>ps_view_number = view_number r,
     ps_last_normal_view = last_normal_view r, ps_commit_number = commit_number r,
     ps_log_start = log_start r, ps_log = log r, ps_recovering = is_recovering r\<rparr>"

section \<open>Outboxes\<close>

text \<open>A message that promises nothing about the sender's durable state.\<close>

fun is_early :: "('op, 'q, 'chunk) message \<Rightarrow> bool" where
  "is_early (Prepare v n e k) = True"
| "is_early (Commit v k) = True"
| "is_early (ConfirmView v rd) = True"
| "is_early (ConfirmViewOk v rd i) = True"
| "is_early (GetState i v n) = True"
| "is_early (NewState i v seg k) = True"
| "is_early (GetChunk i n ix) = True"
| "is_early (NewChunk i n ix ch l) = True"
| "is_early _ = False"

definition send ::
  "('s, 'op, 'q, 'out, 'chunk) replica \<Rightarrow> ReplicaID \<Rightarrow> ('op, 'q, 'chunk) message
   \<Rightarrow> ('s, 'op, 'q, 'out, 'chunk) replica" where
  "send r i m =
     (if is_early m then r\<lparr>outbox_early := outbox_early r @ [(i, m)]\<rparr>
      else r\<lparr>outbox := outbox r @ [(i, m)]\<rparr>)"

definition send_to_others ::
  "('s, 'op, 'q, 'out, 'chunk) replica \<Rightarrow> ('op, 'q, 'chunk) message
   \<Rightarrow> ('s, 'op, 'q, 'out, 'chunk) replica" where
  "send_to_others r m =
     fold (\<lambda>i r. if i \<noteq> self_id r then send r i m else r) [0..<replica_count (config r)] r"

definition send_to_primary ::
  "('s, 'op, 'q, 'out, 'chunk) replica \<Rightarrow> ('op, 'q, 'chunk) message
   \<Rightarrow> ('s, 'op, 'q, 'out, 'chunk) replica" where
  "send_to_primary r m = send r (primary_id r) m"

definition send_get_state_to ::
  "('s, 'op, 'q, 'out, 'chunk) replica \<Rightarrow> ReplicaID \<Rightarrow> OpNumber
   \<Rightarrow> ('s, 'op, 'q, 'out, 'chunk) replica" where
  "send_get_state_to r i n = send r i (GetState (self_id r) (view_number r) n)"

definition send_get_state ::
  "('s, 'op, 'q, 'out, 'chunk) replica \<Rightarrow> OpNumber \<Rightarrow> ('s, 'op, 'q, 'out, 'chunk) replica" where
  "send_get_state r n = send_get_state_to r (primary_id r) n"

fun is_prepare_ok_in :: "ViewNumber \<Rightarrow> ('op, 'q, 'chunk) message \<Rightarrow> bool" where
  "is_prepare_ok_in v (PrepareOk v' n i) = (v' = v)"
| "is_prepare_ok_in v _ = False"

definition send_prepare_ok ::
  "('s, 'op, 'q, 'out, 'chunk) replica \<Rightarrow> ('s, 'op, 'q, 'out, 'chunk) replica" where
  "send_prepare_ok r =
     (let r = r\<lparr>outbox := filter (\<lambda>(i, m). \<not> (i = primary_id r \<and> is_prepare_ok_in (view_number r) m))
                             (outbox r)\<rparr>
      in send_to_primary r (PrepareOk (view_number r) (op_number r) (self_id r)))"

section \<open>The log\<close>

definition mark_log_changed ::
  "('s, 'op, 'q, 'out, 'chunk) replica \<Rightarrow> OpNumber \<Rightarrow> ('s, 'op, 'q, 'out, 'chunk) replica" where
  "mark_log_changed r n = r\<lparr>log_changed_from :=
     Some (case log_changed_from r of Some from \<Rightarrow> min from n | None \<Rightarrow> n)\<rparr>"

text \<open>
  The op number up to which the handed-back writes hold the log as memory does.
\<close>

definition durable_op :: "('s, 'op, 'q, 'out, 'chunk) replica \<Rightarrow> OpNumber option" where
  "durable_op r =
     (case log_changed_from r of
        None \<Rightarrow> Some (durable r)
      | Some from \<Rightarrow> do { k \<leftarrow> checked_sub from 1; Some (min (durable r) k) })"

fun pending_key :: "OpNumber \<Rightarrow> 'op log_entry \<Rightarrow> ClientID \<times> (OpNumber \<times> RequestNumber)" where
  "pending_key n (ERegister c) = (c, (n, 0))"
| "pending_key n (ERequest c session q a op) = (c, (session, q))"

text \<open>\<open>entry(client).or_default()\<close>, and the pending entry of a client set.\<close>

definition client_of :: "(ClientID \<times> 'out client_state) list \<Rightarrow> ClientID \<Rightarrow> 'out client_state" where
  "client_of cs c = (case map_of cs c of Some st \<Rightarrow> st | None \<Rightarrow> client_state_default)"

definition set_pending ::
  "(ClientID \<times> 'out client_state) list \<Rightarrow> ClientID \<times> (OpNumber \<times> RequestNumber)
   \<Rightarrow> (ClientID \<times> 'out client_state) list" where
  "set_pending cs ck = bt_insert (fst ck) ((client_of cs (fst ck))\<lparr>cs_pending := Some (snd ck)\<rparr>) cs"

definition append_to_log ::
  "('s, 'op, 'q, 'out, 'chunk) replica \<Rightarrow> 'op log_entry \<Rightarrow> ('s, 'op, 'q, 'out, 'chunk) replica" where
  "append_to_log r e =
     (let n = op_number r + 1;
          r = mark_log_changed r n
      in r\<lparr>clients := set_pending (clients r) (pending_key n e), log := log r @ [e]\<rparr>)"

definition clear_pending :: "'out client_state \<Rightarrow> 'out client_state" where
  "clear_pending st = st\<lparr>cs_pending := None\<rparr>"

fun pend_entries ::
  "OpNumber \<Rightarrow> 'op log_entry list \<Rightarrow> (ClientID \<times> 'out client_state) list
   \<Rightarrow> (ClientID \<times> 'out client_state) list" where
  "pend_entries n [] cs = cs"
| "pend_entries n (e # es) cs = pend_entries (n + 1) es (set_pending cs (pending_key n e))"

definition rebuild_pending ::
  "('s, 'op, 'q, 'out, 'chunk) replica \<Rightarrow> ('s, 'op, 'q, 'out, 'chunk) replica option" where
  "rebuild_pending r = do {
     let kept = filter (\<lambda>b. cs_record (snd b) \<noteq> None)
                  (map (\<lambda>b. (fst b, clear_pending (snd b))) (clients r));
     skip \<leftarrow> checked_sub (applied r) (log_start r);
     es \<leftarrow> drop_chk skip (log r);
     Some (r\<lparr>clients := pend_entries (applied r + 1) es kept\<rparr>) }"

definition load_client_table ::
  "('s, 'op, 'q, 'out, 'chunk) state_machine \<Rightarrow> ('s, 'op, 'q, 'out, 'chunk) replica
   \<Rightarrow> ('s, 'op, 'q, 'out, 'chunk) replica" where
  "load_client_table sm r =
     (let table = sm_client_table sm (state_machine r)
      in r\<lparr>eviction_candidates := [], sessions := length table,
           clients := fold (\<lambda>rec. bt_insert (rec_client_id rec)
                              \<lparr>cs_record = Some rec, cs_pending = None\<rparr>) table []\<rparr>)"

text \<open>Drops the entries up to \<open>n\<close>, but none after what is applied or kept for others.\<close>

definition compact ::
  "('s, 'op, 'q, 'out, 'chunk) replica \<Rightarrow> OpNumber \<Rightarrow> ('s, 'op, 'q, 'out, 'chunk) replica option" where
  "compact r n = do {
     let n = min n (applied r);
     let n = (case serving r of Some (kept, _) \<Rightarrow> min n kept | None \<Rightarrow> n);
     if n \<le> log_start r then Some r
     else do {
       l \<leftarrow> drop_chk (n - log_start r) (log r);
       Some (r\<lparr>log := l, log_start := n\<rparr>) } }"

section \<open>Timers\<close>

definition note_stable ::
  "('s, 'op, 'q, 'out, 'chunk) replica \<Rightarrow> ('s, 'op, 'q, 'out, 'chunk) replica" where
  "note_stable r =
     (let r = r\<lparr>idle_periods_stable := idle_periods_stable r + 1\<rparr>
      in if cfg_primary_timeout (config r) \<le> idle_periods_stable r
         then r\<lparr>view_change_attempts := 0\<rparr> else r)"

text \<open>The timeout doubles with every attempt, ten times at most; the shift keeps 64 bits.\<close>

definition wait_limit :: "('s, 'op, 'q, 'out, 'chunk) replica \<Rightarrow> nat" where
  "wait_limit r =
     (cfg_primary_timeout (config r) * 2 ^ min (view_change_attempts r) 10) mod 2 ^ 64"

definition wait_timed_out ::
  "('s, 'op, 'q, 'out, 'chunk) replica \<Rightarrow> ('s, 'op, 'q, 'out, 'chunk) replica \<times> bool" where
  "wait_timed_out r =
     (let r = r\<lparr>idle_periods_waiting := idle_periods_waiting r + 1\<rparr>
      in (r, wait_limit r \<le> idle_periods_waiting r))"

text \<open>Forgets the view change under way, and the queries waiting on the last view.\<close>

definition clear_view_change_state ::
  "('s, 'op, 'q, 'out, 'chunk) replica \<Rightarrow> ('s, 'op, 'q, 'out, 'chunk) replica" where
  "clear_view_change_state r =
     r\<lparr>start_view_change_from := {}, do_view_change_sent := False, do_view_change_from := [],
       catching_up := None, fetch := None, queries := [], waiting := {}, round := 0,
       round_confirmed := 0, confirmed := replicate (length (confirmed r)) 0,
       round_unsent := False\<rparr>"

definition enter_normal ::
  "('s, 'op, 'q, 'out, 'chunk) replica \<Rightarrow> ('s, 'op, 'q, 'out, 'chunk) replica" where
  "enter_normal r =
     clear_view_change_state (r\<lparr>status := Normal, last_normal_view := view_number r,
       acked := replicate (length (acked r)) 0, resend_up_to := commit_number r,
       view_start_op := op_number r, heard_from_primary := True, idle_periods_waiting := 0,
       idle_periods_stable := 0\<rparr>)"

end
