(* ===== verification/VSR_Execute.thy ===== *)
theory VSR_Execute
  imports VSR_Replica
begin

text \<open>
  Execution of committed entries: the client table with its evictions, the state machine, the
  replies, and the commit number.  \<open>register\<close>, \<open>evict\<close>, \<open>execute\<close>,
  \<open>apply_committed\<close>, \<open>execute_queries\<close> and \<open>commit_up_to\<close> of \<open>src/lib.rs\<close>.
\<close>

section \<open>Evictions\<close>

definition sessions_of :: "(ClientID \<times> 'out client_state) list \<Rightarrow> (OpNumber \<times> ClientID) list" where
  "sessions_of cs =
     map (\<lambda>rec. (rec_op_number rec, rec_client_id rec)) (List.map_filter (\<lambda>b. cs_record (snd b)) cs)"

text \<open>
  The oldest sessions, a sixteenth of them and at least one, oldest first.  The source
  partitions the sessions with \<open>select_nth_unstable\<close> and sorts the part below; that part
  is the \<open>kept\<close> least of them.
\<close>

definition find_eviction_candidates ::
  "(ClientID \<times> 'out client_state) list \<Rightarrow> (OpNumber \<times> ClientID) list option" where
  "find_eviction_candidates cs = do {
     let found = sessions_of cs;
     ensure (found \<noteq> []);
     let kept = max (length found div 16) 1;
     Some (if kept < length found then take kept (sort found) else sort found) }"

definition holds_session ::
  "(ClientID \<times> 'out client_state) list \<Rightarrow> OpNumber \<Rightarrow> ClientID \<Rightarrow> bool" where
  "holds_session cs latest c =
     (case map_of cs c of
        Some st \<Rightarrow> (case cs_record st of Some rec \<Rightarrow> rec_op_number rec = latest | None \<Rightarrow> False)
      | None \<Rightarrow> False)"

text \<open>
  The loop pops candidates until one still holds the op number it was found with, and looks
  for candidates again when none is left.
\<close>

partial_function (option) evict_loop ::
  "(ClientID \<times> 'out client_state) list \<Rightarrow> (OpNumber \<times> ClientID) list
   \<Rightarrow> (ClientID \<times> (OpNumber \<times> ClientID) list) option" where
  "evict_loop cs cands =
     (case cands of
        [] \<Rightarrow> Option.bind (find_eviction_candidates cs) (\<lambda>cands'. evict_loop cs cands')
      | cand # rest \<Rightarrow>
          if holds_session cs (fst cand) (snd cand) then Some (snd cand, rest)
          else evict_loop cs rest)"

declare evict_loop.simps [code]

definition forget_record :: "(ClientID \<times> 'out client_state) list \<Rightarrow> ClientID
   \<Rightarrow> (ClientID \<times> 'out client_state) list" where
  "forget_record cs c =
     (case map_of cs c of
        None \<Rightarrow> cs
      | Some st \<Rightarrow>
          if cs_pending st = None then bt_remove c cs
          else bt_insert c (st\<lparr>cs_record := None\<rparr>) cs)"

definition evict ::
  "('s, 'op, 'q, 'out, 'chunk) state_machine \<Rightarrow> ('s, 'op, 'q, 'out, 'chunk) replica \<Rightarrow> OpNumber
   \<Rightarrow> ('s, 'op, 'q, 'out, 'chunk) replica option" where
  "evict sm r n = do {
     (c, rest) \<leftarrow> evict_loop (clients r) (eviction_candidates r);
     left \<leftarrow> checked_sub (sessions r) 1;
     Some (r\<lparr>eviction_candidates := rest, clients := forget_record (clients r) c,
             sessions := left,
             state_machine := sm_record_client sm (state_machine r) n c None\<rparr>) }"

section \<open>Executing one entry\<close>

text \<open>The pending entry of a client is done once it executes.\<close>

definition settle_pending :: "'out client_state \<Rightarrow> OpNumber \<times> RequestNumber \<Rightarrow> 'out client_state" where
  "settle_pending st key = (if cs_pending st = Some key then st\<lparr>cs_pending := None\<rparr> else st)"

definition register ::
  "('s, 'op, 'q, 'out, 'chunk) state_machine \<Rightarrow> ('s, 'op, 'q, 'out, 'chunk) replica \<Rightarrow> OpNumber
   \<Rightarrow> ClientID \<Rightarrow> (('s, 'op, 'q, 'out, 'chunk) replica \<times> 'out reply) option" where
  "register sm r n c = do {
     let st = settle_pending (client_of (clients r) c) (n, 0);
     let r = r\<lparr>clients := bt_insert c st (clients r)\<rparr>;
     case cs_record st of
       Some rec \<Rightarrow>
         Some (r\<lparr>state_machine := sm_record_client sm (state_machine r) n c (Some rec)\<rparr>,
               Registered (view_number r) c (rec_session rec))
     | None \<Rightarrow> do {
         r \<leftarrow> (if cfg_clients_max (config r) \<le> sessions r then evict sm r n else Some r);
         let rec = \<lparr>rec_client_id = c, rec_session = n, rec_request_number = 0,
                    rec_replies = [], rec_op_number = n\<rparr>;
         let r = r\<lparr>state_machine := sm_record_client sm (state_machine r) n c (Some rec)\<rparr>;
         let r = r\<lparr>clients := bt_insert c ((client_of (clients r) c)\<lparr>cs_record := Some rec\<rparr>)
                               (clients r),
                   sessions := sessions r + 1\<rparr>;
         Some (r, Registered (view_number r) c n) } }"

definition in_session :: "'out client_state \<Rightarrow> OpNumber \<Rightarrow> bool" where
  "in_session st session =
     (case cs_record st of Some rec \<Rightarrow> rec_session rec = session | None \<Rightarrow> False)"

text \<open>The client's record after a request of its session executed with \<open>result\<close>.\<close>

definition record_result ::
  "config \<Rightarrow> 'out client_record \<Rightarrow> OpNumber \<Rightarrow> RequestNumber \<Rightarrow> RequestNumber \<Rightarrow> 'out
   \<Rightarrow> 'out client_record option" where
  "record_result cfg rec n q answered result = do {
     let outs = rec_replies rec @ [result];
     kept \<leftarrow> clamp_chk 1 (cfg_in_flight_max cfg) (q - answered);
     let dropped = length outs - kept;
     Some (rec\<lparr>rec_request_number := q, rec_replies := drop dropped outs, rec_op_number := n\<rparr>) }"

definition execute_request ::
  "('s, 'op, 'q, 'out, 'chunk) state_machine \<Rightarrow> ('s, 'op, 'q, 'out, 'chunk) replica \<Rightarrow> OpNumber
   \<Rightarrow> ClientID \<Rightarrow> OpNumber \<Rightarrow> RequestNumber \<Rightarrow> RequestNumber \<Rightarrow> 'op
   \<Rightarrow> (('s, 'op, 'q, 'out, 'chunk) replica \<times> 'out reply) option" where
  "execute_request sm r n c session q answered op = do {
     let st = settle_pending (client_of (clients r) c) (session, q);
     case (in_session st session, cs_record st) of
       (True, Some rec) \<Rightarrow> do {
         ensure (rec_request_number rec + 1 = q);
         (s, result) \<leftarrow> sm_apply sm (state_machine r) n op;
         rec \<leftarrow> record_result (config r) rec n q answered result;
         Some (r\<lparr>clients := bt_insert c (st\<lparr>cs_record := Some rec\<rparr>) (clients r),
                 state_machine := sm_record_client sm s n c (Some rec)\<rparr>,
               Executed (view_number r) c session q result) }
     | _ \<Rightarrow>
         Some (r\<lparr>clients := (if cs_record st = None \<and> cs_pending st = None
                              then bt_remove c (clients r) else bt_insert c st (clients r)),
                 state_machine := sm_record_client sm (state_machine r) n c (cs_record st)\<rparr>,
               Evicted (view_number r) c session) }"

definition execute ::
  "('s, 'op, 'q, 'out, 'chunk) state_machine \<Rightarrow> ('s, 'op, 'q, 'out, 'chunk) replica \<Rightarrow> OpNumber
   \<Rightarrow> (('s, 'op, 'q, 'out, 'chunk) replica \<times> 'out reply) option" where
  "execute sm r n = do {
     e \<leftarrow> entry r n;
     case e of
       ERegister c \<Rightarrow> register sm r n c
     | ERequest c session q answered op \<Rightarrow> execute_request sm r n c session q answered op }"

section \<open>Queries\<close>

fun run_queries ::
  "('s, 'op, 'q, 'out, 'chunk) state_machine \<Rightarrow> ('s, 'op, 'q, 'out, 'chunk) replica
   \<Rightarrow> 'q waiting_query list \<Rightarrow> ('s, 'op, 'q, 'out, 'chunk) replica" where
  "run_queries sm r [] = r\<lparr>queries := []\<rparr>"
| "run_queries sm r (q # qs) =
     (if round_confirmed r < wq_round q \<or> applied r < wq_op_number q
      then r\<lparr>queries := q # qs\<rparr>
      else run_queries sm
        (r\<lparr>waiting := waiting r - {(wq_client_id q, wq_query_number q)},
           replies := replies r @ [Queried (view_number r) (wq_client_id q) (wq_query_number q)
                                     (sm_query sm (state_machine r) (wq_query q))]\<rparr>) qs)"

definition execute_queries ::
  "('s, 'op, 'q, 'out, 'chunk) state_machine \<Rightarrow> ('s, 'op, 'q, 'out, 'chunk) replica
   \<Rightarrow> ('s, 'op, 'q, 'out, 'chunk) replica" where
  "execute_queries sm r =
     (if \<not> is_primary r \<or> status r \<noteq> Normal then r else run_queries sm r (queries r))"

section \<open>Executing what is committed\<close>

text \<open>What executing an entry leaves as it is: all but the client table and the state machine.\<close>

definition exec_frame ::
  "('s, 'op, 'q, 'out, 'chunk) replica \<Rightarrow> ('s, 'op, 'q, 'out, 'chunk) replica \<Rightarrow> bool" where
  "exec_frame r r' \<longleftrightarrow>
     r' = r\<lparr>eviction_candidates := eviction_candidates r', clients := clients r',
            sessions := sessions r', state_machine := state_machine r'\<rparr>"

lemma exec_frameE:
  assumes "exec_frame r r'"
  obtains ec cs k s where
    "r' = r\<lparr>eviction_candidates := ec, clients := cs, sessions := k, state_machine := s\<rparr>"
  using assms unfolding exec_frame_def by blast

lemma exec_frame_trans: "exec_frame r r' \<Longrightarrow> exec_frame r' r'' \<Longrightarrow> exec_frame r r''"
  by (elim exec_frameE) (simp add: exec_frame_def)

lemma evict_frame: "evict sm r n = Some r' \<Longrightarrow> exec_frame r r'"
  by (auto simp: evict_def exec_frame_def bind_eq_Some_conv split: prod.splits if_splits)

lemma register_frame: "register sm r n c = Some (r', rep) \<Longrightarrow> exec_frame r r'"
  by (auto simp: register_def exec_frame_def Let_def bind_eq_Some_conv
      split: if_splits option.splits dest!: evict_frame elim!: exec_frameE)

lemma execute_request_frame:
  "execute_request sm r n c session q a op = Some (r', rep) \<Longrightarrow> exec_frame r r'"
  by (auto simp: execute_request_def exec_frame_def Let_def bind_eq_Some_conv
      split: if_splits option.splits bool.splits prod.splits)

lemma execute_frame: "execute sm r n = Some (r', rep) \<Longrightarrow> exec_frame r r'"
proof -
  assume ex: "execute sm r n = Some (r', rep)"
  then obtain e where "entry r n = Some e"
    by (auto simp: execute_def bind_eq_Some_conv)
  with ex show ?thesis
    by (cases e) (auto simp: execute_def dest: register_frame execute_request_frame)
qed

lemma execute_commit_number: "execute sm r n = Some (r', rep) \<Longrightarrow> commit_number r' = commit_number r"
  by (auto dest!: execute_frame elim!: exec_frameE)

definition replies_to :: "('s, 'op, 'q, 'out, 'chunk) replica \<Rightarrow> OpNumber \<Rightarrow> bool" where
  "replies_to r n \<longleftrightarrow> list_ex (\<lambda>(from, to). from \<le> n \<and> n \<le> to) (reply_ranges r)"

text \<open>One round of the loop of \<open>apply_committed\<close>, then the loop.\<close>

definition apply_next ::
  "('s, 'op, 'q, 'out, 'chunk) state_machine \<Rightarrow> ('s, 'op, 'q, 'out, 'chunk) replica
   \<Rightarrow> ('s, 'op, 'q, 'out, 'chunk) replica option" where
  "apply_next sm r = do {
     let n = applied r + 1;
     (r, reply) \<leftarrow> execute sm r n;
     let r = r\<lparr>applied := n\<rparr>;
     Some (if replies_to r n then r\<lparr>replies := replies r @ [reply]\<rparr> else r) }"

lemma apply_next_progress:
  "apply_next sm r = Some r' \<Longrightarrow> commit_number r' = commit_number r \<and> applied r' = applied r + 1"
proof -
  assume "apply_next sm r = Some r'"
  then obtain r1 rep where "execute sm r (applied r + 1) = Some (r1, rep)"
    and "r' = (let r2 = r1\<lparr>applied := applied r + 1\<rparr> in
      if replies_to r2 (applied r + 1) then r2\<lparr>replies := replies r2 @ [rep]\<rparr> else r2)"
    by (auto simp: apply_next_def Let_def bind_eq_Some_conv)
  then show ?thesis by (simp add: Let_def execute_commit_number)
qed

function apply_loop ::
  "('s, 'op, 'q, 'out, 'chunk) state_machine \<Rightarrow> ('s, 'op, 'q, 'out, 'chunk) replica \<Rightarrow> OpNumber
   \<Rightarrow> ('s, 'op, 'q, 'out, 'chunk) replica option" where
  "apply_loop sm r n =
     (if applied r < min (commit_number r) n
      then Option.bind (apply_next sm r) (\<lambda>r'. apply_loop sm r' n)
      else Some r)"
  by pat_completeness auto
termination
  by (relation "measure (\<lambda>(sm, r, n). min (commit_number r) n - applied r)")
    (auto dest!: apply_next_progress)

declare apply_loop.simps [simp del]

definition apply_committed ::
  "('s, 'op, 'q, 'out, 'chunk) state_machine \<Rightarrow> ('s, 'op, 'q, 'out, 'chunk) replica \<Rightarrow> OpNumber
   \<Rightarrow> ('s, 'op, 'q, 'out, 'chunk) replica option" where
  "apply_committed sm r n = do {
     r \<leftarrow> apply_loop sm r n;
     let r = r\<lparr>reply_ranges := filter (\<lambda>(_, to). applied r < to) (reply_ranges r)\<rparr>;
     Some (if queries r \<noteq> [] then execute_queries sm r else r) }"

text \<open>A commit that follows the last extends its range of replies.\<close>

definition extend_ranges ::
  "(OpNumber \<times> OpNumber) list \<Rightarrow> OpNumber \<Rightarrow> OpNumber \<Rightarrow> (OpNumber \<times> OpNumber) list" where
  "extend_ranges rs from to =
     (if rs \<noteq> [] \<and> snd (last rs) + 1 = from then butlast rs @ [(fst (last rs), to)]
      else rs @ [(from, to)])"

definition commit_up_to ::
  "('s, 'op, 'q, 'out, 'chunk) state_machine \<Rightarrow> ('s, 'op, 'q, 'out, 'chunk) replica \<Rightarrow> CommitID
   \<Rightarrow> bool \<Rightarrow> ('s, 'op, 'q, 'out, 'chunk) replica option" where
  "commit_up_to sm r k reply =
     (if k \<le> commit_number r then Some r
      else do {
        let r = (if reply
                 then r\<lparr>reply_ranges := extend_ranges (reply_ranges r) (commit_number r + 1) k\<rparr>
                 else r);
        let r = r\<lparr>commit_number := k\<rparr>;
        d \<leftarrow> durable_op r;
        apply_committed sm r d })"

end
