(* ===== verification/VSR_Normal.thy ===== *)
theory VSR_Normal
  imports VSR_Execute
begin

text \<open>
  Normal operation of \<open>src/lib.rs\<close>: registrations, requests and queries from clients, the
  rounds of view confirmations, replication with \<open>Prepare\<close>, \<open>PrepareOk\<close> and
  \<open>Commit\<close>, and how a replica that missed something starts to catch up.
\<close>

section \<open>Requests\<close>

definition prepare ::
  "('s, 'op, 'q, 'out, 'chunk) replica \<Rightarrow> 'op log_entry \<Rightarrow> ('s, 'op, 'q, 'out, 'chunk) replica" where
  "prepare r e =
     (let r = append_to_log r e
      in send_to_others r (Prepare (view_number r) (op_number r) e (commit_number r)))"

definition record_of ::
  "(ClientID \<times> 'out client_state) list \<Rightarrow> ClientID \<Rightarrow> 'out client_record option" where
  "record_of cs c = Option.bind (map_of cs c) cs_record"

definition pending_of ::
  "(ClientID \<times> 'out client_state) list \<Rightarrow> ClientID \<Rightarrow> (OpNumber \<times> RequestNumber) option" where
  "pending_of cs c = Option.bind (map_of cs c) cs_pending"

definition on_register ::
  "('s, 'op, 'q, 'out, 'chunk) replica \<Rightarrow> ClientID \<Rightarrow> ('s, 'op, 'q, 'out, 'chunk) replica" where
  "on_register r c =
     (if \<not> is_primary r \<or> status r \<noteq> Normal then r
      else case record_of (clients r) c of
        Some rec \<Rightarrow> r\<lparr>replies := replies r @ [Registered (view_number r) c (rec_session rec)]\<rparr>
      | None \<Rightarrow>
          (case pending_of (clients r) c of
             Some (_, n) \<Rightarrow> if n = 0 then r else prepare r (ERegister c)
           | None \<Rightarrow> prepare r (ERegister c)))"

text \<open>
  The latest request of the session in the log: \<open>None\<close> when an entry of a later session is.
\<close>

definition latest_request ::
  "(OpNumber \<times> RequestNumber) option \<Rightarrow> OpNumber \<Rightarrow> RequestNumber \<Rightarrow> RequestNumber option" where
  "latest_request pending session done_n =
     (case pending of
        Some (s, n) \<Rightarrow> if s = session then Some n else if s > session then None else Some done_n
      | None \<Rightarrow> Some done_n)"

definition on_request ::
  "('s, 'op, 'q, 'out, 'chunk) replica \<Rightarrow> ClientID \<Rightarrow> OpNumber \<Rightarrow> RequestNumber \<Rightarrow> RequestNumber
   \<Rightarrow> 'op \<Rightarrow> ('s, 'op, 'q, 'out, 'chunk) replica" where
  "on_request r c session n answered op =
     (if \<not> is_primary r \<or> status r \<noteq> Normal then r
      else case record_of (clients r) c of
        Some rec \<Rightarrow>
          if rec_session rec \<noteq> session
          then (if session \<le> applied r
                then r\<lparr>replies := replies r @ [Evicted (view_number r) c session]\<rparr> else r)
          else if n \<le> rec_request_number rec then
            (let behind = rec_request_number rec - n
             in if behind + 1 \<le> length (rec_replies rec)
                then r\<lparr>replies := replies r @ [Executed (view_number r) c session n
                          (rec_replies rec ! (length (rec_replies rec) - (behind + 1)))]\<rparr>
                else r)
          else
            (case latest_request (pending_of (clients r) c) session (rec_request_number rec) of
               None \<Rightarrow> r
             | Some latest \<Rightarrow>
                 if n \<noteq> latest + 1
                    \<or> rec_request_number rec + cfg_in_flight_max (config r) < n
                 then r
                 else prepare r (ERequest c session n answered op))
      | None \<Rightarrow>
          (if session \<le> applied r
           then r\<lparr>replies := replies r @ [Evicted (view_number r) c session]\<rparr> else r))"

section \<open>Queries\<close>

definition start_round ::
  "('s, 'op, 'q, 'out, 'chunk) replica \<Rightarrow> ('s, 'op, 'q, 'out, 'chunk) replica option" where
  "start_round r = do {
     let rd = round r + 1;
     cf \<leftarrow> set_chk (confirmed r) (self_id r) rd;
     Some (send_to_others (r\<lparr>round := rd, round_unsent := True, confirmed := cf\<rparr>)
             (ConfirmView (view_number r) rd)) }"

definition on_query ::
  "('s, 'op, 'q, 'out, 'chunk) replica \<Rightarrow> ClientID \<Rightarrow> QueryNumber \<Rightarrow> 'q
   \<Rightarrow> ('s, 'op, 'q, 'out, 'chunk) replica option" where
  "on_query r c n q =
     (if \<not> is_primary r \<or> status r \<noteq> Normal \<or> (c, n) \<in> waiting r then Some r
      else do {
        let r = r\<lparr>waiting := insert (c, n) (waiting r)\<rparr>;
        (r, rd) \<leftarrow> (if round_unsent r then Some (r, round r)
          else do {
            out \<leftarrow> checked_sub (round r) (round_confirmed r);
            if out < ROUNDS_OUT then do { r \<leftarrow> start_round r; Some (r, round r) }
            else Some (r, round r + 1) });
        Some (r\<lparr>queries := queries r @
          [\<lparr>wq_client_id = c, wq_query_number = n, wq_query = q,
            wq_op_number = max (commit_number r) (view_start_op r), wq_round = rd\<rparr>]\<rparr>) })"

definition on_confirm_view ::
  "('s, 'op, 'q, 'out, 'chunk) replica \<Rightarrow> ViewNumber \<Rightarrow> nat \<Rightarrow> ('s, 'op, 'q, 'out, 'chunk) replica" where
  "on_confirm_view r v rd =
     (if v \<noteq> view_number r \<or> is_primary r then r
      else send_to_primary r (ConfirmViewOk v rd (self_id r)))"

definition on_confirm_view_ok ::
  "('s, 'op, 'q, 'out, 'chunk) state_machine \<Rightarrow> ('s, 'op, 'q, 'out, 'chunk) replica \<Rightarrow> ViewNumber
   \<Rightarrow> nat \<Rightarrow> ReplicaID \<Rightarrow> ('s, 'op, 'q, 'out, 'chunk) replica option" where
  "on_confirm_view_ok sm r v rd i =
     (if v \<noteq> view_number r \<or> \<not> is_primary r \<or> status r \<noteq> Normal
         \<or> length (confirmed r) \<le> i \<or> round r < rd \<or> rd \<le> confirmed r ! i then Some r
      else do {
        let r = r\<lparr>confirmed := (confirmed r)[i := rd]\<rparr>;
        let rc = quorum_mark (cfg_quorum (config r)) (confirmed r);
        if rc \<le> round_confirmed r then Some r
        else do {
          let r = r\<lparr>round_confirmed := rc\<rparr>;
          r \<leftarrow> (if queries r \<noteq> [] \<and> round r < wq_round (last (queries r))
                then start_round r else Some r);
          Some (execute_queries sm r) } })"

section \<open>Catching up\<close>

definition state_transfer ::
  "('s, 'op, 'q, 'out, 'chunk) replica \<Rightarrow> ('s, 'op, 'q, 'out, 'chunk) replica" where
  "state_transfer r = send_get_state (r\<lparr>status := StateTransfer\<rparr>) (op_number r)"

definition catch_up_with_view ::
  "('s, 'op, 'q, 'out, 'chunk) replica \<Rightarrow> ViewNumber \<Rightarrow> ('s, 'op, 'q, 'out, 'chunk) replica" where
  "catch_up_with_view r v =
     (let p = cfg_primary_id (config r) v
      in if view_number r = v \<and> catching_up r = Some p then r
         else let r = clear_view_change_state
                        (r\<lparr>view_number := v, status := ViewChange, idle_periods_waiting := 0\<rparr>)
              in send_get_state (r\<lparr>catching_up := Some p\<rparr>) (commit_number r))"

definition accept_from_primary ::
  "('s, 'op, 'q, 'out, 'chunk) replica \<Rightarrow> ViewNumber \<Rightarrow> ('s, 'op, 'q, 'out, 'chunk) replica \<times> bool" where
  "accept_from_primary r v =
     (if v < view_number r then (r, False)
      else if view_number r < v then (catch_up_with_view r v, False)
      else let r = r\<lparr>heard_from_primary := True\<rparr> in
        case status r of
          Normal \<Rightarrow> (r, \<not> is_primary r)
        | StateTransfer \<Rightarrow> (r, False)
        | Recovering \<Rightarrow> (r, False)
        | ViewChange \<Rightarrow> (catch_up_with_view r v, False))"

section \<open>Replication\<close>

definition on_prepare ::
  "('s, 'op, 'q, 'out, 'chunk) state_machine \<Rightarrow> ('s, 'op, 'q, 'out, 'chunk) replica \<Rightarrow> ViewNumber
   \<Rightarrow> OpNumber \<Rightarrow> 'op log_entry \<Rightarrow> CommitID \<Rightarrow> ('s, 'op, 'q, 'out, 'chunk) replica option" where
  "on_prepare sm r v n e k =
     (case accept_from_primary r v of (r, accepted) \<Rightarrow>
        if \<not> accepted then Some r
        else if op_number r + 1 < n then Some (state_transfer r)
        else do {
          let r = (if n = op_number r + 1 then append_to_log r e else r);
          r \<leftarrow> commit_up_to sm r (min k (op_number r)) False;
          Some (send_prepare_ok r) })"

definition register_ack ::
  "('s, 'op, 'q, 'out, 'chunk) state_machine \<Rightarrow> ('s, 'op, 'q, 'out, 'chunk) replica \<Rightarrow> ReplicaID
   \<Rightarrow> OpNumber \<Rightarrow> ('s, 'op, 'q, 'out, 'chunk) replica option" where
  "register_ack sm r i n = do {
     let n = min n (op_number r);
     old \<leftarrow> nth_chk (acked r) i;
     if n \<le> old then Some r
     else do {
       let r = r\<lparr>acked := (acked r)[i := n]\<rparr>;
       commit_up_to sm r (quorum_mark (cfg_quorum (config r)) (acked r)) True } }"

definition on_prepare_ok ::
  "('s, 'op, 'q, 'out, 'chunk) state_machine \<Rightarrow> ('s, 'op, 'q, 'out, 'chunk) replica \<Rightarrow> ViewNumber
   \<Rightarrow> OpNumber \<Rightarrow> ReplicaID \<Rightarrow> ('s, 'op, 'q, 'out, 'chunk) replica option" where
  "on_prepare_ok sm r v n i =
     (if v \<noteq> view_number r \<or> \<not> is_primary r \<or> status r \<noteq> Normal \<or> length (acked r) \<le> i
      then Some r else register_ack sm r i n)"

definition on_commit ::
  "('s, 'op, 'q, 'out, 'chunk) state_machine \<Rightarrow> ('s, 'op, 'q, 'out, 'chunk) replica \<Rightarrow> ViewNumber
   \<Rightarrow> CommitID \<Rightarrow> ('s, 'op, 'q, 'out, 'chunk) replica option" where
  "on_commit sm r v k =
     (case accept_from_primary r v of (r, accepted) \<Rightarrow>
        if \<not> accepted then Some r
        else if op_number r < k then Some (state_transfer r)
        else commit_up_to sm r k False)"

end
