(* ===== verification/VSR_ViewChange.thy ===== *)
theory VSR_ViewChange
  imports VSR_Normal
begin

text \<open>
  View changes of \<open>src/lib.rs\<close>: \<open>StartViewChange\<close>, \<open>DoViewChange\<close> and
  \<open>StartView\<close>, with the log a new primary picks, and how a segment of another replica's
  log is installed.
\<close>

section \<open>Installing a segment\<close>

text \<open>Replaces the log after \<open>start\<close>, but nothing that is committed.\<close>

definition merge_log ::
  "('s, 'op, 'q, 'out, 'chunk) replica \<Rightarrow> OpNumber \<Rightarrow> 'op log_entry list
   \<Rightarrow> ('s, 'op, 'q, 'out, 'chunk) replica option" where
  "merge_log r start es = do {
     let keep = max start (commit_number r);
     ensure (keep \<le> op_number r);
     len \<leftarrow> checked_sub keep (log_start r);
     let r = r\<lparr>log := take len (log r) @ drop (keep - start) es\<rparr>;
     ensure (commit_number r \<le> op_number r);
     rebuild_pending (mark_log_changed r (keep + 1)) }"

definition install_segment_in_view ::
  "('s, 'op, 'q, 'out, 'chunk) replica \<Rightarrow> 'op log_segment
   \<Rightarrow> (('s, 'op, 'q, 'out, 'chunk) replica \<times> 'op installed) option" where
  "install_segment_in_view r seg =
     (if seg_end seg \<le> op_number r then Some (r, INothing)
      else case seg_base seg of
        BaseCheckpoint n \<Rightarrow>
          if op_number r < n then Some (r, ICheckpoint seg)
          else do { r \<leftarrow> merge_log r n (seg_entries seg); Some (r, ILog) }
      | BaseOp n \<Rightarrow>
          if op_number r < n then Some (r, INothing)
          else do { r \<leftarrow> merge_log r n (seg_entries seg); Some (r, ILog) })"

definition install_segment_from_commit ::
  "('s, 'op, 'q, 'out, 'chunk) replica \<Rightarrow> 'op log_segment
   \<Rightarrow> (('s, 'op, 'q, 'out, 'chunk) replica \<times> 'op installed) option" where
  "install_segment_from_commit r seg =
     (case seg_base seg of
        BaseCheckpoint n \<Rightarrow>
          if commit_number r < n then Some (r, ICheckpoint seg)
          else do { r \<leftarrow> merge_log r n (seg_entries seg); Some (r, ILog) }
      | BaseOp n \<Rightarrow>
          if commit_number r < n then Some (r, INothing)
          else do { r \<leftarrow> merge_log r n (seg_entries seg); Some (r, ILog) })"

section \<open>Starting a view\<close>

definition own_segment :: "('s, 'op, 'q, 'out, 'chunk) replica \<Rightarrow> 'op log_segment" where
  "own_segment r = \<lparr>seg_base = BaseOp (log_start r), seg_entries = log r\<rparr>"

definition send_start_view ::
  "('s, 'op, 'q, 'out, 'chunk) replica \<Rightarrow> ReplicaID \<Rightarrow> ('s, 'op, 'q, 'out, 'chunk) replica" where
  "send_start_view r i = send r i (StartView (view_number r) (own_segment r) (commit_number r))"

text \<open>The log with the latest normal view, the longest if several.\<close>

definition best_log ::
  "(ReplicaID \<times> 'op do_view_change) list \<Rightarrow> (ReplicaID \<times> 'op do_view_change) option" where
  "best_log dvcs =
     max_by_key (\<lambda>b. (dvc_last_normal_view (snd b), seg_end (dvc_segment (snd b)))) dvcs"

definition try_start_view ::
  "('s, 'op, 'q, 'out, 'chunk) state_machine \<Rightarrow> ('s, 'op, 'q, 'out, 'chunk) replica
   \<Rightarrow> ('s, 'op, 'q, 'out, 'chunk) replica option" where
  "try_start_view sm r = do {
     (best_id, best) \<leftarrow> best_log (do_view_change_from r);
     (r, inst) \<leftarrow> install_segment_from_commit r (dvc_segment best);
     if inst \<noteq> ILog
     then Some (send_get_state_to (r\<lparr>catching_up := Some best_id\<rparr>) best_id (commit_number r))
     else do {
       let k = max_or_0 (map (\<lambda>b. dvc_commit_number (snd b)) (do_view_change_from r));
       r \<leftarrow> commit_up_to sm r k True;
       let r = enter_normal r;
       Some (fold (\<lambda>i r. if i \<noteq> self_id r then send_start_view r i else r)
               [0..<replica_count (config r)] r) } }"

definition record_do_view_change ::
  "('s, 'op, 'q, 'out, 'chunk) state_machine \<Rightarrow> ('s, 'op, 'q, 'out, 'chunk) replica \<Rightarrow> ReplicaID
   \<Rightarrow> 'op do_view_change \<Rightarrow> ('s, 'op, 'q, 'out, 'chunk) replica option" where
  "record_do_view_change sm r i dvc =
     (let r = r\<lparr>do_view_change_from := bt_insert i dvc (do_view_change_from r)\<rparr>
      in if length (do_view_change_from r) < cfg_quorum (config r) then Some r
         else try_start_view sm r)"

definition own_do_view_change :: "('s, 'op, 'q, 'out, 'chunk) replica \<Rightarrow> 'op do_view_change" where
  "own_do_view_change r = \<lparr>dvc_last_normal_view = last_normal_view r,
     dvc_segment = own_segment r, dvc_commit_number = commit_number r\<rparr>"

definition send_do_view_change ::
  "('s, 'op, 'q, 'out, 'chunk) state_machine \<Rightarrow> ('s, 'op, 'q, 'out, 'chunk) replica
   \<Rightarrow> ('s, 'op, 'q, 'out, 'chunk) replica option" where
  "send_do_view_change sm r =
     (let p = cfg_primary_id (config r) (view_number r)
      in if p = self_id r then record_do_view_change sm r (self_id r) (own_do_view_change r)
         else Some (send r p (DoViewChange (view_number r) (self_id r) (last_normal_view r)
                                (own_segment r) (commit_number r))))"

definition maybe_send_do_view_change ::
  "('s, 'op, 'q, 'out, 'chunk) state_machine \<Rightarrow> ('s, 'op, 'q, 'out, 'chunk) replica
   \<Rightarrow> ('s, 'op, 'q, 'out, 'chunk) replica option" where
  "maybe_send_do_view_change sm r =
     (if status r \<noteq> ViewChange \<or> catching_up r \<noteq> None \<or> do_view_change_sent r then Some r
      else if card (start_view_change_from r) < replica_count (config r) div 2 then Some r
      else send_do_view_change sm (r\<lparr>do_view_change_sent := True\<rparr>))"

definition start_view_change ::
  "('s, 'op, 'q, 'out, 'chunk) state_machine \<Rightarrow> ('s, 'op, 'q, 'out, 'chunk) replica \<Rightarrow> ViewNumber
   \<Rightarrow> ('s, 'op, 'q, 'out, 'chunk) replica option" where
  "start_view_change sm r v =
     (let r = (if status r = ViewChange
               then r\<lparr>view_change_attempts := view_change_attempts r + 1\<rparr> else r);
          r = clear_view_change_state
                (r\<lparr>view_number := v, status := ViewChange, idle_periods_waiting := 0\<rparr>);
          r = send_to_others r (StartViewChange v (self_id r))
      in maybe_send_do_view_change sm r)"

section \<open>Handlers\<close>

definition on_start_view_change ::
  "('s, 'op, 'q, 'out, 'chunk) state_machine \<Rightarrow> ('s, 'op, 'q, 'out, 'chunk) replica \<Rightarrow> ViewNumber
   \<Rightarrow> ReplicaID \<Rightarrow> ('s, 'op, 'q, 'out, 'chunk) replica option" where
  "on_start_view_change sm r v i =
     (if v < view_number r then Some r
      else if v = view_number r \<and> status r \<noteq> ViewChange
      then Some (if status r = Normal \<and> is_primary r then send_start_view r i else r)
      else do {
        r \<leftarrow> (if view_number r < v then start_view_change sm r v else Some r);
        maybe_send_do_view_change sm
          (r\<lparr>start_view_change_from := insert i (start_view_change_from r)\<rparr>) })"

definition on_do_view_change ::
  "('s, 'op, 'q, 'out, 'chunk) state_machine \<Rightarrow> ('s, 'op, 'q, 'out, 'chunk) replica \<Rightarrow> ViewNumber
   \<Rightarrow> ReplicaID \<Rightarrow> 'op do_view_change \<Rightarrow> ('s, 'op, 'q, 'out, 'chunk) replica option" where
  "on_do_view_change sm r v i dvc =
     (if v < view_number r \<or> cfg_primary_id (config r) v \<noteq> self_id r then Some r
      else if v = view_number r \<and> status r = Normal then Some (send_start_view r i)
      else do {
        r \<leftarrow> (if view_number r < v then start_view_change sm r v else Some r);
        record_do_view_change sm r i dvc })"

definition on_start_view ::
  "('s, 'op, 'q, 'out, 'chunk) state_machine \<Rightarrow> ('s, 'op, 'q, 'out, 'chunk) replica \<Rightarrow> ViewNumber
   \<Rightarrow> 'op log_segment \<Rightarrow> CommitID \<Rightarrow> ('s, 'op, 'q, 'out, 'chunk) replica option" where
  "on_start_view sm r v seg k =
     (if v < view_number r \<or> (v = view_number r \<and> status r \<noteq> ViewChange) then Some r
      else do {
        (r, inst) \<leftarrow> install_segment_from_commit r seg;
        if inst \<noteq> ILog then Some (catch_up_with_view r v)
        else do {
          r \<leftarrow> commit_up_to sm (r\<lparr>view_number := v\<rparr>) k False;
          Some (send_prepare_ok (enter_normal r)) } })"

end
