(* ===== verification/VSR_Transfer.thy ===== *)
theory VSR_Transfer
  imports VSR_ViewChange
begin

text \<open>
  State transfer, checkpoints and recovery of \<open>src/lib.rs\<close>: \<open>GetState\<close> and
  \<open>NewState\<close>, the chunks of a checkpoint, and how a replica that lost its disk comes back.
\<close>

section \<open>The side that answers\<close>

definition keep_checkpoint ::
  "('s, 'op, 'q, 'out, 'chunk) state_machine \<Rightarrow> ('s, 'op, 'q, 'out, 'chunk) replica
   \<Rightarrow> (('s, 'op, 'q, 'out, 'chunk) replica \<times> OpNumber) option" where
  "keep_checkpoint sm r =
     (case serving r of
        Some (n, _) \<Rightarrow> Some (r, n)
      | None \<Rightarrow>
          (case sm_checkpoint sm (state_machine r) of (s, n) \<Rightarrow> do {
             ensure (log_start r \<le> n \<and> n \<le> applied r);
             Some (r\<lparr>state_machine := s, serving := Some (n, 0)\<rparr>, n) }))"

definition segment_from ::
  "('s, 'op, 'q, 'out, 'chunk) state_machine \<Rightarrow> ('s, 'op, 'q, 'out, 'chunk) replica \<Rightarrow> OpNumber
   \<Rightarrow> (('s, 'op, 'q, 'out, 'chunk) replica \<times> 'op log_segment) option" where
  "segment_from sm r n =
     (if log_start r \<le> n
      then Some (r, \<lparr>seg_base = BaseOp n, seg_entries = log_from r (n + 1)\<rparr>)
      else do {
        (r, k) \<leftarrow> keep_checkpoint sm r;
        Some (r, \<lparr>seg_base = BaseCheckpoint k, seg_entries = log_from r (k + 1)\<rparr>) })"

definition settled :: "('s, 'op, 'q, 'out, 'chunk) replica \<Rightarrow> bool" where
  "settled r = (case status r of
     Normal \<Rightarrow> True
   | ViewChange \<Rightarrow> do_view_change_sent r \<and> catching_up r = None
   | StateTransfer \<Rightarrow> False
   | Recovering \<Rightarrow> False)"

definition on_get_state ::
  "('s, 'op, 'q, 'out, 'chunk) state_machine \<Rightarrow> ('s, 'op, 'q, 'out, 'chunk) replica \<Rightarrow> ReplicaID
   \<Rightarrow> ViewNumber \<Rightarrow> OpNumber \<Rightarrow> ('s, 'op, 'q, 'out, 'chunk) replica option" where
  "on_get_state sm r i v n =
     (if v \<noteq> view_number r \<or> op_number r < n \<or> \<not> settled r then Some r
      else do {
        (r, seg) \<leftarrow> segment_from sm r n;
        Some (send r i (NewState (self_id r) v seg (commit_number r))) })"

definition on_get_chunk ::
  "('s, 'op, 'q, 'out, 'chunk) state_machine \<Rightarrow> ('s, 'op, 'q, 'out, 'chunk) replica \<Rightarrow> ReplicaID
   \<Rightarrow> OpNumber \<Rightarrow> nat \<Rightarrow> ('s, 'op, 'q, 'out, 'chunk) replica option" where
  "on_get_chunk sm r i n ix =
     (case serving r of
        None \<Rightarrow> Some r
      | Some (kept, _) \<Rightarrow>
          if kept \<noteq> n then Some r
          else do {
            let r = r\<lparr>serving := Some (kept, 0)\<rparr>;
            (chunk, is_last) \<leftarrow> sm_checkpoint_chunk sm (state_machine r) ix;
            Some (send r i (NewChunk (self_id r) n ix chunk is_last)) })"

definition serve_on_idle ::
  "('s, 'op, 'q, 'out, 'chunk) state_machine \<Rightarrow> ('s, 'op, 'q, 'out, 'chunk) replica
   \<Rightarrow> ('s, 'op, 'q, 'out, 'chunk) replica option" where
  "serve_on_idle sm r =
     (case serving r of
        None \<Rightarrow> Some r
      | Some (n, idle) \<Rightarrow>
          if 2 * cfg_primary_timeout (config r) \<le> idle + 1
          then do {
            s \<leftarrow> sm_release_checkpoint sm (state_machine r);
            Some (r\<lparr>serving := None, state_machine := s\<rparr>) }
          else Some (r\<lparr>serving := Some (n, idle + 1)\<rparr>))"

section \<open>The side that fetches\<close>

definition send_get_chunk ::
  "('s, 'op, 'q, 'out, 'chunk) replica \<Rightarrow> ('s, 'op, 'q, 'out, 'chunk) replica" where
  "send_get_chunk r =
     (case fetch r of
        None \<Rightarrow> r
      | Some ft \<Rightarrow>
          send r (ft_from ft) (GetChunk (self_id r) (resume_checkpoint (ft_then ft)) (ft_index ft)))"

definition begin_fetch ::
  "('s, 'op, 'q, 'out, 'chunk) replica \<Rightarrow> ReplicaID \<Rightarrow> 'op resume
   \<Rightarrow> ('s, 'op, 'q, 'out, 'chunk) replica" where
  "begin_fetch r from res =
     send_get_chunk (r\<lparr>fetch := Some \<lparr>ft_from = from, ft_index = 0, ft_idle_periods = 0,
                                       ft_stalled = False, ft_then = res\<rparr>\<rparr>)"

definition start_fetch ::
  "('s, 'op, 'q, 'out, 'chunk) replica \<Rightarrow> ReplicaID \<Rightarrow> 'op resume
   \<Rightarrow> ('s, 'op, 'q, 'out, 'chunk) replica" where
  "start_fetch r from res =
     (case fetch r of
        Some ft \<Rightarrow>
          if ft_from ft = from \<and> resume_checkpoint (ft_then ft) = resume_checkpoint res
          then (if ft_stalled ft
                then send_get_chunk (r\<lparr>fetch := Some (ft\<lparr>ft_then := res, ft_stalled := False,
                                                        ft_idle_periods := 0\<rparr>)\<rparr>)
                else r\<lparr>fetch := Some (ft\<lparr>ft_then := res\<rparr>)\<rparr>)
          else if resume_checkpoint res < resume_checkpoint (ft_then ft) \<and> \<not> ft_stalled ft
          then r
          else begin_fetch r from res
      | None \<Rightarrow> begin_fetch r from res)"

definition fetch_on_idle ::
  "('s, 'op, 'q, 'out, 'chunk) replica \<Rightarrow> ('s, 'op, 'q, 'out, 'chunk) replica \<times> bool" where
  "fetch_on_idle r =
     (case fetch r of
        None \<Rightarrow> (r, False)
      | Some ft \<Rightarrow>
          if ft_stalled ft then (r, False)
          else let ft = ft\<lparr>ft_idle_periods := ft_idle_periods ft + 1\<rparr> in
            if 2 * cfg_primary_timeout (config r) \<le> ft_idle_periods ft
            then (r\<lparr>fetch := Some (ft\<lparr>ft_stalled := True\<rparr>)\<rparr>, False)
            else if 1 < ft_idle_periods ft
            then (send_get_chunk (r\<lparr>fetch := Some ft\<rparr>), True)
            else (r\<lparr>fetch := Some ft\<rparr>, True))"

definition new_state_installed ::
  "('s, 'op, 'q, 'out, 'chunk) state_machine \<Rightarrow> ('s, 'op, 'q, 'out, 'chunk) replica \<Rightarrow> CommitID
   \<Rightarrow> ('s, 'op, 'q, 'out, 'chunk) replica option" where
  "new_state_installed sm r k = do {
     let r = r\<lparr>fetch := None\<rparr>;
     case status r of
       StateTransfer \<Rightarrow> do {
         r \<leftarrow> commit_up_to sm r k False;
         Some (send_prepare_ok (r\<lparr>status := Normal\<rparr>)) }
     | ViewChange \<Rightarrow> do {
         let r = r\<lparr>catching_up := None\<rparr>;
         if is_primary r \<and> cfg_quorum (config r) \<le> length (do_view_change_from r)
         then try_start_view sm r
         else do {
           r \<leftarrow> commit_up_to sm r k False;
           Some (send_prepare_ok (enter_normal r)) } }
     | Normal \<Rightarrow> None
     | Recovering \<Rightarrow> None }"

definition on_new_state ::
  "('s, 'op, 'q, 'out, 'chunk) state_machine \<Rightarrow> ('s, 'op, 'q, 'out, 'chunk) replica \<Rightarrow> ReplicaID
   \<Rightarrow> ViewNumber \<Rightarrow> 'op log_segment \<Rightarrow> CommitID \<Rightarrow> ('s, 'op, 'q, 'out, 'chunk) replica option" where
  "on_new_state sm r i v seg k =
     (if v \<noteq> view_number r then Some r
      else do {
        let r = r\<lparr>heard_from_primary := True\<rparr>;
        if status r = StateTransfer \<or> (status r = ViewChange \<and> catching_up r \<noteq> None)
        then do {
          (r, inst) \<leftarrow> (if status r = StateTransfer then install_segment_in_view r seg
                         else install_segment_from_commit r seg);
          case inst of
            ILog \<Rightarrow> new_state_installed sm r k
          | INothing \<Rightarrow> Some r
          | ICheckpoint seg \<Rightarrow> Some (start_fetch r i (RNewState v seg k)) }
        else Some r })"

definition recover_into ::
  "('s, 'op, 'q, 'out, 'chunk) state_machine \<Rightarrow> ('s, 'op, 'q, 'out, 'chunk) replica \<Rightarrow> ViewNumber
   \<Rightarrow> 'op recovery_state \<Rightarrow> ('s, 'op, 'q, 'out, 'chunk) replica option" where
  "recover_into sm r v st = do {
     (r, inst) \<leftarrow> install_segment_from_commit r (rs_segment st);
     case inst of
       ILog \<Rightarrow> do {
         r \<leftarrow> commit_up_to sm (r\<lparr>view_number := v\<rparr>) (rs_commit_number st) False;
         Some (enter_normal r) }
     | ICheckpoint seg \<Rightarrow>
         Some (start_fetch r (cfg_primary_id (config r) v)
                 (RRecoveryResponse v \<lparr>rs_segment = seg, rs_commit_number = rs_commit_number st\<rparr>))
     | INothing \<Rightarrow> None }"

text \<open>Makes the checkpoint staged at \<open>n\<close> the state, and starts the log after it.\<close>

definition restore_checkpoint ::
  "('s, 'op, 'q, 'out, 'chunk) state_machine \<Rightarrow> ('s, 'op, 'q, 'out, 'chunk) replica \<Rightarrow> OpNumber
   \<Rightarrow> ('s, 'op, 'q, 'out, 'chunk) replica option" where
  "restore_checkpoint sm r n = do {
     ensure (commit_number r < n);
     s \<leftarrow> (if serving r \<noteq> None then sm_release_checkpoint sm (state_machine r)
           else Some (state_machine r));
     let r = mark_log_changed (r\<lparr>serving := None, commit_number := n, applied := n,
               reply_ranges := [], log_start := n, log := []\<rparr>) (n + 1);
     s \<leftarrow> sm_restore sm s n;
     rebuild_pending (load_client_table sm (r\<lparr>state_machine := s\<rparr>)) }"

definition note_chunk ::
  "('s, 'op, 'q, 'out, 'chunk) replica \<Rightarrow> ReplicaID \<Rightarrow> ('s, 'op, 'q, 'out, 'chunk) replica" where
  "note_chunk r i =
     (let r = (if catching_up r = Some i then r\<lparr>idle_periods_waiting := 0\<rparr> else r)
      in if primary_id r = i then r\<lparr>heard_from_primary := True\<rparr> else r)"

definition on_new_chunk ::
  "('s, 'op, 'q, 'out, 'chunk) state_machine \<Rightarrow> ('s, 'op, 'q, 'out, 'chunk) replica \<Rightarrow> ReplicaID
   \<Rightarrow> OpNumber \<Rightarrow> nat \<Rightarrow> 'chunk \<Rightarrow> bool \<Rightarrow> ('s, 'op, 'q, 'out, 'chunk) replica option" where
  "on_new_chunk sm r i n ix chunk is_last =
     (case fetch r of
        None \<Rightarrow> Some r
      | Some ft \<Rightarrow>
          if (ft_from ft, resume_checkpoint (ft_then ft), ft_index ft) \<noteq> (i, n, ix) then Some r
          else do {
            let ft = ft\<lparr>ft_idle_periods := 0, ft_stalled := False,
                        ft_index := (if is_last then ft_index ft else ft_index ft + 1)\<rparr>;
            s \<leftarrow> sm_stage_chunk sm (state_machine r) n ix chunk;
            let r = note_chunk (r\<lparr>fetch := Some ft, state_machine := s\<rparr>) i;
            if \<not> is_last then Some (send_get_chunk r)
            else do {
              let r = r\<lparr>fetch := None\<rparr>;
              if n \<le> commit_number r then Some r
              else do {
                r \<leftarrow> restore_checkpoint sm r n;
                case ft_then ft of
                  RNewState v seg k \<Rightarrow>
                    if v = view_number r
                    then do {
                      r \<leftarrow> merge_log r n (seg_entries seg);
                      new_state_installed sm r k }
                    else Some r
                | RRecoveryResponse v st \<Rightarrow> recover_into sm r v st } } })"

section \<open>Recovery\<close>

definition send_recovery ::
  "('s, 'op, 'q, 'out, 'chunk) replica \<Rightarrow> ('s, 'op, 'q, 'out, 'chunk) replica" where
  "send_recovery r =
     (let m = Recovery (self_id r) (recovery_nonce r) (view_number r);
          ask_everyone = cfg_quorum (config r) \<le> length (recovery_responses r)
      in fold (\<lambda>i r. if i \<noteq> self_id r \<and> (ask_everyone \<or> map_of (recovery_responses r) i = None)
                     then send r i m else r) [0..<replica_count (config r)] r)"

definition on_recovery ::
  "('s, 'op, 'q, 'out, 'chunk) state_machine \<Rightarrow> ('s, 'op, 'q, 'out, 'chunk) replica \<Rightarrow> ReplicaID
   \<Rightarrow> nat \<Rightarrow> ViewNumber \<Rightarrow> ('s, 'op, 'q, 'out, 'chunk) replica option" where
  "on_recovery sm r i nonce v =
     (if view_number r < v \<and> status r \<noteq> Recovering then start_view_change sm r v
      else if status r \<noteq> Normal then Some r
      else do {
        (r, st) \<leftarrow> (if is_primary r
          then do {
            (r, seg) \<leftarrow> segment_from sm r 0;
            Some (r, Some \<lparr>rs_segment = seg, rs_commit_number = commit_number r\<rparr>) }
          else Some (r, None));
        Some (send r i (RecoveryResponse (view_number r) nonce (self_id r) st)) })"

definition on_recovery_response ::
  "('s, 'op, 'q, 'out, 'chunk) state_machine \<Rightarrow> ('s, 'op, 'q, 'out, 'chunk) replica \<Rightarrow> ViewNumber
   \<Rightarrow> nat \<Rightarrow> ReplicaID \<Rightarrow> 'op recovery_state option
   \<Rightarrow> ('s, 'op, 'q, 'out, 'chunk) replica option" where
  "on_recovery_response sm r v nonce i st =
     (if status r \<noteq> Recovering \<or> nonce \<noteq> recovery_nonce r then Some r
      else let r = r\<lparr>recovery_responses :=
                       bt_insert i \<lparr>rr_view_number = v, rr_state = st\<rparr> (recovery_responses r)\<rparr>;
               latest = max_or_0 (map (\<lambda>b. rr_view_number (snd b)) (recovery_responses r))
        in if length (recovery_responses r) < cfg_quorum (config r) then Some r
           else if latest < view_number r then Some r
           else case map_of (recovery_responses r) (cfg_primary_id (config r) latest) of
             None \<Rightarrow> Some r
           | Some resp \<Rightarrow>
               (case rr_state resp of
                  None \<Rightarrow> Some r
                | Some rst \<Rightarrow>
                    if rr_view_number resp \<noteq> latest then Some r
                    else recover_into sm (r\<lparr>recovery_responses := []\<rparr>) latest rst))"

end
