(* ===== verification/VSR_Step.thy ===== *)
theory VSR_Step
  imports VSR_Transfer
begin

text \<open>
  The entry points of a \<open>Replica\<close> of \<open>src/lib.rs\<close>, which its owner calls: \<open>on_message\<close>,
  \<open>on_idle\<close>, the writes it takes and hands back, the drains, and the constructors of a
  replica that comes back.
\<close>

section \<open>Messages\<close>

fun passes_recovering :: "('op, 'q, 'chunk) message \<Rightarrow> bool" where
  "passes_recovering (RecoveryResponse v nonce i st) = True"
| "passes_recovering (NewChunk i n ix ch l) = True"
| "passes_recovering _ = False"

fun dispatch ::
  "('s, 'op, 'q, 'out, 'chunk) state_machine \<Rightarrow> ('s, 'op, 'q, 'out, 'chunk) replica
   \<Rightarrow> ('op, 'q, 'chunk) message \<Rightarrow> ('s, 'op, 'q, 'out, 'chunk) replica option" where
  "dispatch sm r (Register c) = Some (on_register r c)"
| "dispatch sm r (Request c session n answered op) = Some (on_request r c session n answered op)"
| "dispatch sm r (Query c n q) = on_query r c n q"
| "dispatch sm r (ConfirmView v rd) = Some (on_confirm_view r v rd)"
| "dispatch sm r (ConfirmViewOk v rd i) = on_confirm_view_ok sm r v rd i"
| "dispatch sm r (Prepare v n e k) = on_prepare sm r v n e k"
| "dispatch sm r (PrepareOk v n i) = on_prepare_ok sm r v n i"
| "dispatch sm r (Commit v k) = on_commit sm r v k"
| "dispatch sm r (GetState i v n) = on_get_state sm r i v n"
| "dispatch sm r (NewState i v seg k) = on_new_state sm r i v seg k"
| "dispatch sm r (GetChunk i n ix) = on_get_chunk sm r i n ix"
| "dispatch sm r (NewChunk i n ix chunk is_last) = on_new_chunk sm r i n ix chunk is_last"
| "dispatch sm r (StartViewChange v i) = on_start_view_change sm r v i"
| "dispatch sm r (DoViewChange v i lnv seg k) =
     on_do_view_change sm r v i
       \<lparr>dvc_last_normal_view = lnv, dvc_segment = seg, dvc_commit_number = k\<rparr>"
| "dispatch sm r (StartView v seg k) = on_start_view sm r v seg k"
| "dispatch sm r (Recovery i nonce v) = on_recovery sm r i nonce v"
| "dispatch sm r (RecoveryResponse v nonce i st) = on_recovery_response sm r v nonce i st"

definition on_message ::
  "('s, 'op, 'q, 'out, 'chunk) state_machine \<Rightarrow> ('s, 'op, 'q, 'out, 'chunk) replica
   \<Rightarrow> ('op, 'q, 'chunk) message \<Rightarrow> ('s, 'op, 'q, 'out, 'chunk) replica option" where
  "on_message sm r m =
     (if status r = Recovering \<and> \<not> passes_recovering m then Some r else dispatch sm r m)"

section \<open>Idle periods\<close>

definition primary_on_idle ::
  "('s, 'op, 'q, 'out, 'chunk) replica \<Rightarrow> ('s, 'op, 'q, 'out, 'chunk) replica option" where
  "primary_on_idle r = do {
     let r = note_stable r;
     let v = view_number r;
     let k = commit_number r;
     let r = send_to_others r (Commit v k);
     let last_op = op_number r;
     let due = min (resend_up_to r) last_op;
     let r = r\<lparr>resend_up_to := last_op\<rparr>;
     r \<leftarrow> (if k < due then do {
         e \<leftarrow> entry r due;
         ensure (replica_count (config r) \<le> length (acked r));
         Some (fold (\<lambda>i r. if i \<noteq> self_id r \<and> acked r ! i < due
                           then send r i (Prepare v due e k) else r)
                 [0..<replica_count (config r)] r) }
       else Some r);
     let rd = round r;
     if round_confirmed r < rd then do {
       ensure (replica_count (config r) \<le> length (confirmed r));
       Some (fold (\<lambda>i r. if confirmed r ! i < rd then send r i (ConfirmView v rd) else r)
               [0..<replica_count (config r)] r) }
     else Some r }"

definition backup_on_idle ::
  "('s, 'op, 'q, 'out, 'chunk) state_machine \<Rightarrow> ('s, 'op, 'q, 'out, 'chunk) replica
   \<Rightarrow> ('s, 'op, 'q, 'out, 'chunk) replica option" where
  "backup_on_idle sm r =
     (let r = (if status r = StateTransfer
               then (case fetch_on_idle r of (r, fetching) \<Rightarrow>
                       if fetching then r else state_transfer r)
               else r)
      in if heard_from_primary r
         then Some (note_stable (r\<lparr>heard_from_primary := False, idle_periods_waiting := 0\<rparr>))
         else (case wait_timed_out (r\<lparr>idle_periods_stable := 0\<rparr>) of (r, timed_out) \<Rightarrow>
                 if timed_out then start_view_change sm r (view_number r + 1) else Some r))"

definition view_change_on_idle ::
  "('s, 'op, 'q, 'out, 'chunk) state_machine \<Rightarrow> ('s, 'op, 'q, 'out, 'chunk) replica
   \<Rightarrow> ('s, 'op, 'q, 'out, 'chunk) replica option" where
  "view_change_on_idle sm r =
     (case wait_timed_out r of (r, timed_out) \<Rightarrow>
        if timed_out then start_view_change sm r (view_number r + 1)
        else
          let r = (case catching_up r of
                     Some i \<Rightarrow>
                       (case fetch_on_idle r of (r, fetching) \<Rightarrow>
                          if fetching then r else send_get_state_to r i (commit_number r))
                   | None \<Rightarrow> r);
              r = (if catching_up r = None \<or> do_view_change_sent r
                   then send_to_others r (StartViewChange (view_number r) (self_id r)) else r)
          in if do_view_change_sent r \<and> catching_up r = None then send_do_view_change sm r
             else Some r)"

definition on_idle ::
  "('s, 'op, 'q, 'out, 'chunk) state_machine \<Rightarrow> ('s, 'op, 'q, 'out, 'chunk) replica
   \<Rightarrow> ('s, 'op, 'q, 'out, 'chunk) replica option" where
  "on_idle sm r = do {
     r \<leftarrow> serve_on_idle sm r;
     case status r of
       Normal \<Rightarrow> if is_primary r then primary_on_idle r else backup_on_idle sm r
     | StateTransfer \<Rightarrow> backup_on_idle sm r
     | Recovering \<Rightarrow>
         Some (case fetch_on_idle r of (r, fetching) \<Rightarrow> if fetching then r else send_recovery r)
     | ViewChange \<Rightarrow> view_change_on_idle sm r }"

section \<open>Writes\<close>

definition written_now :: "('s, 'op, 'q, 'out, 'chunk) replica \<Rightarrow> written_state" where
  "written_now r = \<lparr>wr_view_number = view_number r, wr_last_normal_view = last_normal_view r,
     wr_recovering = is_recovering r, wr_log_start = log_start r\<rparr>"

definition take_write ::
  "('s, 'op, 'q, 'out, 'chunk) replica
   \<Rightarrow> (('s, 'op, 'q, 'out, 'chunk) replica \<times> 'op log_write) option" where
  "take_write r = do {
     ensure (outstanding r = None);
     let n = op_number r;
     d \<leftarrow> durable_op r;
     let changed = log_changed_from r;
     let from = (case changed of None \<Rightarrow> n + 1 | Some k \<Rightarrow> max k (log_start r + 1));
     let sync = (changed \<noteq> None \<or> written r \<noteq> Some (written_now r));
     let r' = r\<lparr>durable := d, log_changed_from := None, written := Some (written_now r),
                writes := writes r + 1,
                outstanding := Some \<lparr>os_sequence = writes r + 1, os_op_number = n,
                                    os_last_normal_view = last_normal_view r\<rparr>,
                outbox := outbox_waiting r, outbox_waiting := outbox r\<rparr>;
     Some (r', \<lparr>lw_view_number = view_number r, lw_last_normal_view = last_normal_view r,
                lw_recovering = is_recovering r, lw_commit_number = commit_number r,
                lw_log_start = log_start r, lw_entries_from = from,
                lw_entries = log_from r from, lw_sync = sync, lw_op_number = n,
                lw_sequence = writes r + 1\<rparr>) }"

definition persisted ::
  "('s, 'op, 'q, 'out, 'chunk) state_machine \<Rightarrow> ('s, 'op, 'q, 'out, 'chunk) replica
   \<Rightarrow> 'op log_write \<Rightarrow> ('s, 'op, 'q, 'out, 'chunk) replica option" where
  "persisted sm r w = do {
     os \<leftarrow> outstanding r;
     let r = r\<lparr>outstanding := None\<rparr>;
     ensure (os_sequence os = lw_sequence w);
     let r = r\<lparr>durable := os_op_number os\<rparr>;
     d \<leftarrow> durable_op r;
     r \<leftarrow> (if status r = Normal \<and> is_primary r \<and> os_last_normal_view os = view_number r
           then register_ack sm r (self_id r) d else Some r);
     r \<leftarrow> apply_committed sm r d;
     Some (r\<lparr>outbox_ready := outbox_ready r @ outbox_waiting r, outbox_waiting := []\<rparr>) }"

text \<open>
  \<open>write_to_disk\<close> is the owner's; when it fails, the write stays out.
\<close>

definition persist ::
  "('s, 'op, 'q, 'out, 'chunk) state_machine \<Rightarrow> ('s, 'op, 'q, 'out, 'chunk) replica
   \<Rightarrow> ('op log_write \<Rightarrow> 'err + unit)
   \<Rightarrow> (('s, 'op, 'q, 'out, 'chunk) replica \<times> ('err + unit)) option" where
  "persist sm r write_to_disk = do {
     (r, w) \<leftarrow> take_write r;
     case write_to_disk w of
       Inl err \<Rightarrow> Some (r, Inl err)
     | Inr u \<Rightarrow> do { r \<leftarrow> persisted sm r w; Some (r, Inr ()) } }"

section \<open>Drains\<close>

definition drain_messages_before_persist ::
  "('s, 'op, 'q, 'out, 'chunk) replica
   \<Rightarrow> ('s, 'op, 'q, 'out, 'chunk) replica \<times> ('op, 'q, 'chunk) mailbox" where
  "drain_messages_before_persist r =
     (r\<lparr>round_unsent := False, outbox_early := []\<rparr>, outbox_early r)"

definition drain_messages ::
  "('s, 'op, 'q, 'out, 'chunk) replica
   \<Rightarrow> ('s, 'op, 'q, 'out, 'chunk) replica \<times> ('op, 'q, 'chunk) mailbox" where
  "drain_messages r =
     (r\<lparr>round_unsent := False, outbox_early := [], outbox_ready := []\<rparr>,
      outbox_early r @ outbox_ready r)"

definition drain_replies ::
  "('s, 'op, 'q, 'out, 'chunk) replica
   \<Rightarrow> ('s, 'op, 'q, 'out, 'chunk) replica \<times> 'out reply list" where
  "drain_replies r = (r\<lparr>replies := []\<rparr>, replies r)"

section \<open>Coming back\<close>

definition recover ::
  "ReplicaID \<Rightarrow> config \<Rightarrow> 's \<Rightarrow> ViewNumber \<Rightarrow> nat
   \<Rightarrow> ('s, 'op, 'q, 'out, 'chunk) replica option" where
  "recover i cfg s v nonce = do {
     r \<leftarrow> replica_new i cfg s;
     Some (send_recovery (r\<lparr>status := Recovering, view_number := v, recovery_nonce := nonce\<rparr>)) }"

definition restart_from ::
  "ReplicaID \<Rightarrow> config \<Rightarrow> 's \<Rightarrow> OpNumber \<Rightarrow> 'op persistent_state \<Rightarrow> nat
   \<Rightarrow> ('s, 'op, 'q, 'out, 'chunk) replica option" where
  "restart_from i cfg s appl p nonce =
     (if ps_recovering p
      then do {
        r \<leftarrow> recover i cfg s (ps_view_number p) nonce;
        Some (r\<lparr>log_start := appl, commit_number := appl\<rparr>) }
      else do {
        r \<leftarrow> replica_new i cfg s;
        let r = r\<lparr>view_number := ps_view_number p, last_normal_view := ps_last_normal_view p\<rparr>;
        if ps_commit_number p < appl
        then do {
          gone \<leftarrow> checked_sub appl (ps_log_start p);
          Some (r\<lparr>log_start := appl, commit_number := appl,
                  log := drop (min gone (length (ps_log p))) (ps_log p)\<rparr>) }
        else do {
          ensure (ps_log_start p \<le> appl);
          Some (r\<lparr>log_start := ps_log_start p, commit_number := ps_commit_number p,
                  log := ps_log p\<rparr>) } })"

definition restart ::
  "('s, 'op, 'q, 'out, 'chunk) state_machine \<Rightarrow> ReplicaID \<Rightarrow> config \<Rightarrow> 's \<Rightarrow> OpNumber
   \<Rightarrow> 'op persistent_state \<Rightarrow> nat \<Rightarrow> ('s, 'op, 'q, 'out, 'chunk) replica option" where
  "restart sm i cfg s appl p nonce = do {
     r \<leftarrow> restart_from i cfg s appl p nonce;
     let r = r\<lparr>applied := appl,
               written := Some \<lparr>wr_view_number = ps_view_number p,
                 wr_last_normal_view = ps_last_normal_view p,
                 wr_recovering = ps_recovering p, wr_log_start = ps_log_start p\<rparr>\<rparr>;
     let r = load_client_table sm r;
     ensure (commit_number r \<le> op_number r);
     let r = r\<lparr>durable := op_number r\<rparr>;
     r \<leftarrow> apply_committed sm r (durable r);
     r \<leftarrow> rebuild_pending r;
     if status r = Recovering then Some r
     else if ps_last_normal_view p < ps_view_number p
     then start_view_change sm r (ps_view_number p)
     else if is_primary r then start_view_change sm r (ps_view_number p + 1)
     else Some r }"

end
