(* ===== verification/VSR_Frames.thy ===== *)
theory VSR_Frames
  imports VSR_Step
begin

text \<open>
  What each building block of the handlers leaves as it is.  \<open>mailed Q r r'\<close> says that
  \<open>r'\<close> is \<open>r\<close> with messages satisfying \<open>Q\<close> added to the outbox they belong in, and
  perhaps acknowledgements dropped; \<open>executed n r r'\<close> that \<open>r'\<close> is \<open>r\<close> after the
  execution of committed entries up to \<open>n\<close> and of queries from the front of the queue.
\<close>

section \<open>Sending\<close>

definition mailed ::
  "(('op, 'q, 'chunk) message \<Rightarrow> bool) \<Rightarrow> ('s, 'op, 'q, 'out, 'chunk) replica
   \<Rightarrow> ('s, 'op, 'q, 'out, 'chunk) replica \<Rightarrow> bool" where
  "mailed Q r r' \<longleftrightarrow> r' = r\<lparr>outbox_early := outbox_early r', outbox := outbox r'\<rparr>
     \<and> set (outbox_early r) \<subseteq> set (outbox_early r')
     \<and> (\<forall>x \<in> set (outbox_early r'). x \<in> set (outbox_early r) \<or> is_early (snd x) \<and> Q (snd x))
     \<and> (\<forall>x \<in> set (outbox r'). x \<in> set (outbox r) \<or> \<not> is_early (snd x) \<and> Q (snd x))"

lemma mailedE:
  assumes "mailed Q r r'"
  obtains e ob where "r' = r\<lparr>outbox_early := e, outbox := ob\<rparr>"
    and "set (outbox_early r) \<subseteq> set e"
    and "\<forall>x \<in> set e. x \<in> set (outbox_early r) \<or> is_early (snd x) \<and> Q (snd x)"
    and "\<forall>x \<in> set ob. x \<in> set (outbox r) \<or> \<not> is_early (snd x) \<and> Q (snd x)"
  using assms unfolding mailed_def by blast

lemma mailed_refl [simp]: "mailed Q r r"
  by (simp add: mailed_def)

lemma mailed_trans: "mailed Q r r' \<Longrightarrow> mailed Q r' r'' \<Longrightarrow> mailed Q r r''"
  by (elim mailedE) (auto simp: mailed_def)

lemma mailed_mono: "mailed Q r r' \<Longrightarrow> (\<And>m. Q m \<Longrightarrow> Q' m) \<Longrightarrow> mailed Q' r r'"
  unfolding mailed_def by blast

lemma mailed_send [intro]: "Q m \<Longrightarrow> mailed Q r (send r i m)"
  by (auto simp: mailed_def send_def)

lemma mailed_fold:
  assumes "\<And>i r'. mailed Q r r' \<Longrightarrow> mailed Q r' (f i r')"
  shows "mailed Q r (fold f xs r)"
proof -
  have "mailed Q r (fold f xs r')" if "mailed Q r r'" for r'
    using that
  proof (induction xs arbitrary: r')
    case (Cons x xs)
    from Cons.prems have "mailed Q r (f x r')" by (rule mailed_trans) (rule assms [OF Cons.prems])
    then show ?case by (simp add: Cons.IH)
  qed simp
  then show ?thesis by simp
qed

lemma mailed_send_to_others [intro]: "Q m \<Longrightarrow> mailed Q r (send_to_others r m)"
  unfolding send_to_others_def by (rule mailed_fold) auto

lemma mailed_send_to_primary [intro]: "Q m \<Longrightarrow> mailed Q r (send_to_primary r m)"
  by (auto simp: send_to_primary_def)

lemma mailed_send_get_state_to [intro]:
  "Q (GetState (self_id r) (view_number r) n) \<Longrightarrow> mailed Q r (send_get_state_to r i n)"
  by (auto simp: send_get_state_to_def)

lemma mailed_send_get_state [intro]:
  "Q (GetState (self_id r) (view_number r) n) \<Longrightarrow> mailed Q r (send_get_state r n)"
  by (auto simp: send_get_state_def)

lemma mailed_send_prepare_ok [intro]:
  "Q (PrepareOk (view_number r) (op_number r) (self_id r)) \<Longrightarrow> mailed Q r (send_prepare_ok r)"
  by (auto simp: send_prepare_ok_def send_to_primary_def send_def mailed_def Let_def op_number_def
      primary_id_def)

lemma mailed_send_start_view [intro]:
  "Q (StartView (view_number r) (own_segment r) (commit_number r)) \<Longrightarrow>
   mailed Q r (send_start_view r i)"
  by (auto simp: send_start_view_def)

lemma mailed_start_views:
  assumes "Q (StartView (view_number r) (own_segment r) (commit_number r))"
  shows "mailed Q r (fold (\<lambda>i r. if i \<noteq> self_id r then send_start_view r i else r) xs r)"
proof (rule mailed_fold)
  fix i r'
  assume "mailed Q r r'"
  then have "Q (StartView (view_number r') (own_segment r') (commit_number r'))"
    using assms by (elim mailedE) (simp add: own_segment_def)
  then show "mailed Q r' (if i \<noteq> self_id r' then send_start_view r' i else r')" by auto
qed

lemma mailed_send_get_chunk [intro]:
  "(\<And>n ix. Q (GetChunk (self_id r) n ix)) \<Longrightarrow> mailed Q r (send_get_chunk r)"
  by (auto simp: send_get_chunk_def split: option.splits)

lemma mailed_send_recovery [intro]:
  "Q (Recovery (self_id r) (recovery_nonce r) (view_number r)) \<Longrightarrow> mailed Q r (send_recovery r)"
  unfolding send_recovery_def Let_def by (rule mailed_fold) auto

section \<open>Executing\<close>

definition executed ::
  "OpNumber \<Rightarrow> ('s, 'op, 'q, 'out, 'chunk) replica \<Rightarrow> ('s, 'op, 'q, 'out, 'chunk) replica \<Rightarrow> bool" where
  "executed n r r' \<longleftrightarrow>
     r' = r\<lparr>eviction_candidates := eviction_candidates r', clients := clients r',
            sessions := sessions r', state_machine := state_machine r', applied := applied r',
            replies := replies r', reply_ranges := reply_ranges r', queries := queries r',
            waiting := waiting r'\<rparr>
     \<and> applied r' = max (applied r) (min (commit_number r) n)
     \<and> (\<exists>k. queries r' = drop k (queries r)
         \<and> waiting r' = waiting r - (\<lambda>q. (wq_client_id q, wq_query_number q)) ` set (take k (queries r)))"

lemma executedE:
  assumes "executed n r r'"
  obtains ec cs k s reps rr d where
    "r' = r\<lparr>eviction_candidates := ec, clients := cs, sessions := k, state_machine := s,
            applied := max (applied r) (min (commit_number r) n), replies := reps,
            reply_ranges := rr, queries := drop d (queries r),
            waiting := waiting r - (\<lambda>q. (wq_client_id q, wq_query_number q)) ` set (take d (queries r))\<rparr>"
proof -
  from assms obtain d
    where e: "r' = r\<lparr>eviction_candidates := eviction_candidates r', clients := clients r',
            sessions := sessions r', state_machine := state_machine r', applied := applied r',
            replies := replies r', reply_ranges := reply_ranges r', queries := queries r',
            waiting := waiting r'\<rparr>"
      and a: "applied r' = max (applied r) (min (commit_number r) n)"
      and q: "queries r' = drop d (queries r)"
      and w: "waiting r' = waiting r
        - (\<lambda>q. (wq_client_id q, wq_query_number q)) ` set (take d (queries r))"
    unfolding executed_def by blast
  from e [unfolded a q w] show ?thesis by (rule that)
qed

lemma apply_next_frame:
  assumes "apply_next sm r = Some r'"
  obtains ec cs k s reps where
    "r' = r\<lparr>eviction_candidates := ec, clients := cs, sessions := k, state_machine := s,
            applied := applied r + 1, replies := reps\<rparr>"
proof -
  from assms obtain r1 rep where "execute sm r (applied r + 1) = Some (r1, rep)"
    and r': "r' = (let r2 = r1\<lparr>applied := applied r + 1\<rparr> in
      if replies_to r2 (applied r + 1) then r2\<lparr>replies := replies r2 @ [rep]\<rparr> else r2)"
    by (auto simp: apply_next_def Let_def bind_eq_Some_conv)
  then obtain ec cs k s where
    "r1 = r\<lparr>eviction_candidates := ec, clients := cs, sessions := k, state_machine := s\<rparr>"
    by (blast dest: execute_frame elim: exec_frameE)
  then have "r' = r\<lparr>eviction_candidates := ec, clients := cs, sessions := k, state_machine := s,
            applied := applied r + 1, replies := replies r'\<rparr>"
    unfolding r' by (simp add: Let_def)
  then show ?thesis by (rule that)
qed

lemma apply_loop_frame:
  "apply_loop sm r n = Some r' \<Longrightarrow>
     \<exists>ec cs k s reps. r' = r\<lparr>eviction_candidates := ec, clients := cs, sessions := k,
       state_machine := s, applied := max (applied r) (min (commit_number r) n), replies := reps\<rparr>"
proof (induction sm r n rule: apply_loop.induct)
  case (1 sm r n)
  show ?case
  proof (cases "applied r < min (commit_number r) n")
    case True
    with "1.prems" obtain r1 where step: "apply_next sm r = Some r1"
      and rest: "apply_loop sm r1 n = Some r'"
      by (subst (asm) apply_loop.simps) (auto simp: bind_eq_Some_conv)
    from step obtain ec cs k s reps where r1:
      "r1 = r\<lparr>eviction_candidates := ec, clients := cs, sessions := k, state_machine := s,
            applied := applied r + 1, replies := reps\<rparr>"
      by (rule apply_next_frame)
    from "1.IH" [OF True step rest] r1 True show ?thesis by (auto simp: max_def)
  next
    case False
    with "1.prems" have "r' = r" by (auto simp: apply_loop.simps [of sm r n] split: if_splits)
    moreover from False have "max (applied r) (min (commit_number r) n) = applied r" by auto
    ultimately show ?thesis
      by (intro exI [of _ "eviction_candidates r"] exI [of _ "clients r"] exI [of _ "sessions r"]
          exI [of _ "state_machine r"] exI [of _ "replies r"]) simp
  qed
qed

lemma run_queries_frame:
  "\<exists>k. \<exists>reps. run_queries sm r qs = r\<lparr>queries := drop k qs, replies := reps,
     waiting := waiting r - (\<lambda>q. (wq_client_id q, wq_query_number q)) ` set (take k qs)\<rparr>"
proof (induction sm r qs rule: run_queries.induct)
  case (1 sm r)
  show ?case by (rule exI [of _ 0], rule exI [of _ "replies r"]) simp
next
  case (2 sm r q qs)
  show ?case
  proof (cases "round_confirmed r < wq_round q \<or> applied r < wq_op_number q")
    case True
    then show ?thesis by (intro exI [of _ 0] exI [of _ "replies r"]) simp
  next
    case False
    from 2 [OF False] obtain k reps where eq: "run_queries sm r (q # qs) =
      r\<lparr>queries := drop k qs, replies := reps,
        waiting := waiting r - {(wq_client_id q, wq_query_number q)}
          - (\<lambda>q. (wq_client_id q, wq_query_number q)) ` set (take k qs)\<rparr>"
      using False by auto
    then show ?thesis
      by (intro exI [of _ "Suc k"] exI [of _ reps]) (simp add: Diff_insert2 [symmetric])
  qed
qed

lemma execute_queries_frame:
  "\<exists>k. \<exists>reps. execute_queries sm r = r\<lparr>queries := drop k (queries r), replies := reps,
     waiting := waiting r - (\<lambda>q. (wq_client_id q, wq_query_number q)) ` set (take k (queries r))\<rparr>"
proof (cases "\<not> is_primary r \<or> status r \<noteq> Normal")
  case True
  then show ?thesis
    by (intro exI [of _ 0] exI [of _ "replies r"]) (simp add: execute_queries_def)
next
  case False
  then show ?thesis using run_queries_frame [of sm r "queries r"] by (simp add: execute_queries_def)
qed

lemma apply_committed_executed:
  assumes "apply_committed sm r n = Some r'"
  shows "executed n r r'"
proof -
  from assms obtain r1 where loop: "apply_loop sm r n = Some r1"
    and r': "r' = (let r2 = r1\<lparr>reply_ranges := filter (\<lambda>(_, to). applied r1 < to) (reply_ranges r1)\<rparr>
                   in if queries r2 \<noteq> [] then execute_queries sm r2 else r2)"
    by (auto simp: apply_committed_def bind_eq_Some_conv Let_def)
  from apply_loop_frame [OF loop] obtain ec cs k s reps where r1:
    "r1 = r\<lparr>eviction_candidates := ec, clients := cs, sessions := k,
       state_machine := s, applied := max (applied r) (min (commit_number r) n), replies := reps\<rparr>"
    by blast
  let ?r2 = "r1\<lparr>reply_ranges := filter (\<lambda>(_, to). applied r1 < to) (reply_ranges r1)\<rparr>"
  obtain d reps' where "r' = ?r2\<lparr>queries := drop d (queries ?r2), replies := reps',
     waiting := waiting ?r2 - (\<lambda>q. (wq_client_id q, wq_query_number q)) ` set (take d (queries ?r2))\<rparr>"
  proof (cases "queries ?r2 = []")
    case True
    then have "r' = ?r2\<lparr>queries := drop 0 (queries ?r2), replies := replies ?r2,
     waiting := waiting ?r2 - (\<lambda>q. (wq_client_id q, wq_query_number q)) ` set (take 0 (queries ?r2))\<rparr>"
      by (simp add: r' Let_def)
    then show ?thesis by (rule that)
  next
    case False
    then have r'2: "r' = execute_queries sm ?r2" by (simp add: r' Let_def)
    obtain d' reps2 where "execute_queries sm ?r2 = ?r2\<lparr>queries := drop d' (queries ?r2), replies := reps2,
     waiting := waiting ?r2 - (\<lambda>q. (wq_client_id q, wq_query_number q)) ` set (take d' (queries ?r2))\<rparr>"
      using execute_queries_frame [of sm ?r2] by blast
    with r'2 have "r' = ?r2\<lparr>queries := drop d' (queries ?r2), replies := reps2,
     waiting := waiting ?r2 - (\<lambda>q. (wq_client_id q, wq_query_number q)) ` set (take d' (queries ?r2))\<rparr>"
      by (rule trans)
    then show ?thesis by (rule that)
  qed
  then have "r' = r\<lparr>eviction_candidates := ec, clients := cs, sessions := k, state_machine := s,
      applied := max (applied r) (min (commit_number r) n), replies := reps',
      reply_ranges := reply_ranges r', queries := drop d (queries r),
      waiting := waiting r - (\<lambda>q. (wq_client_id q, wq_query_number q)) ` set (take d (queries r))\<rparr>"
    by (simp add: r1)
  then obtain rr where r'': "r' = r\<lparr>eviction_candidates := ec, clients := cs, sessions := k,
      state_machine := s, applied := max (applied r) (min (commit_number r) n), replies := reps',
      reply_ranges := rr, queries := drop d (queries r),
      waiting := waiting r - (\<lambda>q. (wq_client_id q, wq_query_number q)) ` set (take d (queries r))\<rparr>"
    by (rule that)
  show ?thesis unfolding executed_def r'' by (intro conjI exI [of _ d]) simp_all
qed

lemma durable_op_cong:
  "log_changed_from r' = log_changed_from r \<Longrightarrow> durable r' = durable r \<Longrightarrow>
   durable_op r' = durable_op r"
  by (simp add: durable_op_def split: option.split)

lemma durable_op_upd [simp]:
  "durable_op (r\<lparr>commit_number := k\<rparr>) = durable_op r"
  "durable_op (r\<lparr>reply_ranges := rr\<rparr>) = durable_op r"
  by (rule durable_op_cong; simp)+

lemma commit_up_to_cases:
  assumes "commit_up_to sm r k rep = Some r'"
  obtains (same) "k \<le> commit_number r" and "r' = r"
  | (more) d rr where "commit_number r < k"
      and "durable_op r = Some d"
      and "executed d (r\<lparr>reply_ranges := rr, commit_number := k\<rparr>) r'"
proof (cases "k \<le> commit_number r")
  case True
  with assms have "r' = r" by (simp add: commit_up_to_def)
  with True show ?thesis by (rule same)
next
  case False
  let ?rr = "if rep then extend_ranges (reply_ranges r) (commit_number r + 1) k else reply_ranges r"
  from False assms obtain d where "durable_op r = Some d"
    and "apply_committed sm (r\<lparr>reply_ranges := ?rr, commit_number := k\<rparr>) d = Some r'"
    by (auto simp: commit_up_to_def bind_eq_Some_conv Let_def split: if_splits)
  then have "executed d (r\<lparr>reply_ranges := ?rr, commit_number := k\<rparr>) r'"
    by (blast intro: apply_committed_executed)
  with False \<open>durable_op r = Some d\<close> show ?thesis by (intro more [of d ?rr]) simp_all
qed

end
