(* ===== verification/VSR_Invariant.thy ===== *)
theory VSR_Invariant
  imports VSR_Frames
begin

text \<open>
  The invariant of a replica, in five parts, and the order its state advances in.
  \<open>log_inv\<close>: what is applied is committed, is in the log or compacted, and was in a
  handed-back write before it executed.  \<open>view_inv\<close>: the status, the views and the
  checkpoint being fetched fit together.  \<open>query_inv\<close>: the rounds of view confirmations and
  the queries that wait for them.  \<open>mail_inv\<close>: what promises something about the disk waits
  for the write, and every acknowledgement is covered by the write it waits for.
  \<open>advances\<close>: views, commit numbers and the viewstamp of the log never go back, and a
  committed entry never changes.
\<close>

section \<open>The invariant\<close>

definition shape_inv :: "('s, 'op, 'q, 'out, 'chunk) replica \<Rightarrow> bool" where
  "shape_inv r \<longleftrightarrow> 3 \<le> replica_count (config r) \<and> self_id r < replica_count (config r)
     \<and> length (acked r) = replica_count (config r)
     \<and> length (confirmed r) = replica_count (config r) \<and> last_normal_view r \<le> view_number r"

definition cap_changed :: "OpNumber option \<Rightarrow> OpNumber \<Rightarrow> OpNumber" where
  "cap_changed changed n = (case changed of None \<Rightarrow> n | Some k \<Rightarrow> min n (k - 1))"

definition log_inv :: "('s, 'op, 'q, 'out, 'chunk) replica \<Rightarrow> bool" where
  "log_inv r \<longleftrightarrow> log_start r \<le> applied r \<and> applied r \<le> commit_number r
     \<and> applied r \<le> op_number r
     \<and> (\<forall>k. log_changed_from r = Some k \<longrightarrow> 1 \<le> k \<and> k \<le> op_number r + 1)
     \<and> (log_changed_from r = None \<longrightarrow> durable r \<le> op_number r)
     \<and> (\<forall>os. outstanding r = Some os \<longrightarrow> durable r \<le> os_op_number os
          \<and> (log_changed_from r = None \<longrightarrow> os_op_number os \<le> op_number r))
     \<and> applied r \<le> max (cap_changed (log_changed_from r) (durable r)) (log_start r)
     \<and> (\<forall>n k. serving r = Some (n, k) \<longrightarrow> log_start r \<le> n \<and> n \<le> applied r)"

fun resume_ok :: "('s, 'op, 'q, 'out, 'chunk) replica \<Rightarrow> 'op resume \<Rightarrow> bool" where
  "resume_ok r (RNewState v seg k) \<longleftrightarrow> v = view_number r
     \<and> (\<exists>n. seg_base seg = BaseCheckpoint n
          \<and> (status r = StateTransfer \<and> op_number r < n
             \<or> status r = ViewChange \<and> catching_up r \<noteq> None))"
| "resume_ok r (RRecoveryResponse v st) \<longleftrightarrow> view_number r \<le> v \<and> status r = Recovering
     \<and> (\<exists>n. seg_base (rs_segment st) = BaseCheckpoint n \<and> commit_number r < n)"

definition view_inv :: "('s, 'op, 'q, 'out, 'chunk) replica \<Rightarrow> bool" where
  "view_inv r \<longleftrightarrow> last_normal_view r \<le> view_number r
     \<and> (status r = Normal \<longrightarrow> last_normal_view r = view_number r)
     \<and> (status r = StateTransfer \<longrightarrow> last_normal_view r = view_number r \<and> \<not> is_primary r)
     \<and> (status r = ViewChange \<longrightarrow> last_normal_view r < view_number r)
     \<and> (status r = Recovering \<longrightarrow> log r = [] \<and> commit_number r = log_start r \<and> last_normal_view r = 0)
     \<and> (\<forall>ft. fetch r = Some ft \<longrightarrow> resume_ok r (ft_then ft))"

definition query_key :: "'q waiting_query \<Rightarrow> ClientID \<times> QueryNumber" where
  "query_key q = (wq_client_id q, wq_query_number q)"

definition rounds_inv :: "('s, 'op, 'q, 'out, 'chunk) replica \<Rightarrow> bool" where
  "rounds_inv r \<longleftrightarrow> round_confirmed r \<le> round r \<and> round r - round_confirmed r \<le> ROUNDS_OUT
     \<and> (\<forall>x \<in> set (confirmed r). x \<le> round r)
     \<and> (self_id r < length (confirmed r) \<longrightarrow> confirmed r ! self_id r = round r)
     \<and> (queries r \<noteq> [] \<longrightarrow> status r = Normal \<and> is_primary r)
     \<and> sorted (map wq_round (queries r)) \<and> sorted (map wq_op_number (queries r))
     \<and> (\<forall>q \<in> set (queries r). wq_op_number q \<le> max (commit_number r) (view_start_op r)
          \<and> wq_round q \<le> round r + 1)
     \<and> distinct (map query_key (queries r)) \<and> waiting r = query_key ` set (queries r)
     \<and> (round_unsent r \<longrightarrow> (\<forall>i < replica_count (config r). i \<noteq> self_id r \<longrightarrow>
          (i, ConfirmView (view_number r) (round r)) \<in> set (outbox_early r)))"

text \<open>A query waits for a round that has not started only while as many are out as may be.\<close>

definition query_inv :: "('s, 'op, 'q, 'out, 'chunk) replica \<Rightarrow> bool" where
  "query_inv r \<longleftrightarrow> rounds_inv r \<and> (\<forall>q \<in> set (queries r). wq_round q = round r + 1 \<longrightarrow>
     \<not> round_unsent r \<and> round r - round_confirmed r = ROUNDS_OUT)"

text \<open>
  How far a replica has come: its view, and within the view its log, which only grows there.
  A replica that changes views holds no log of the new view yet, and one that recovers
  holds no log at all.
\<close>

definition stamp :: "('s, 'op, 'q, 'out, 'chunk) replica \<Rightarrow> ViewNumber \<times> OpNumber" where
  "stamp r = (view_number r,
     if status r = ViewChange \<or> status r = Recovering then 0 else op_number r)"

fun backed_by :: "ViewNumber \<times> OpNumber \<Rightarrow> ('op, 'q, 'chunk) message \<Rightarrow> bool" where
  "backed_by st (PrepareOk v n i) = ((v, n) \<le> st)"
| "backed_by st (StartViewChange v i) = ((v, 0) \<le> st)"
| "backed_by st (DoViewChange v i lnv seg k) = ((v, 0) \<le> st)"
| "backed_by st (StartView v seg k) = ((v, 0) \<le> st)"
| "backed_by st (Recovery i nonce v) = ((v, 0) \<le> st)"
| "backed_by st (RecoveryResponse v nonce i rs) = ((v, 0) \<le> st)"
| "backed_by st _ = True"

definition mail_at ::
  "ViewNumber \<times> OpNumber \<Rightarrow> ('s, 'op, 'q, 'out, 'chunk) replica \<Rightarrow> bool" where
  "mail_at st r \<longleftrightarrow> (\<forall>x \<in> set (outbox_early r). is_early (snd x))
     \<and> (\<forall>x \<in> set (outbox r) \<union> set (outbox_waiting r) \<union> set (outbox_ready r). \<not> is_early (snd x))
     \<and> (\<forall>x \<in> set (outbox r) \<union> set (outbox_waiting r) \<union> set (outbox_ready r). backed_by st (snd x))"

definition mail_inv :: "('s, 'op, 'q, 'out, 'chunk) replica \<Rightarrow> bool" where
  "mail_inv r \<longleftrightarrow> mail_at (stamp r) r"

definition replica_inv :: "('s, 'op, 'q, 'out, 'chunk) replica \<Rightarrow> bool" where
  "replica_inv r \<longleftrightarrow> shape_inv r \<and> log_inv r \<and> view_inv r \<and> query_inv r \<and> mail_inv r"

text \<open>
  How a replica's state advances, in every step of its owner; and in the handlers, which leave
  the writes and the messages that wait for them alone.
\<close>

definition progress ::
  "('s, 'op, 'q, 'out, 'chunk) replica \<Rightarrow> ('s, 'op, 'q, 'out, 'chunk) replica \<Rightarrow> bool" where
  "progress r r' \<longleftrightarrow> config r' = config r \<and> self_id r' = self_id r
     \<and> stamp r \<le> stamp r' \<and> commit_number r \<le> commit_number r'
     \<and> applied r \<le> applied r' \<and> log_start r \<le> log_start r'
     \<and> (\<forall>n e. n \<le> commit_number r \<and> log_start r' < n \<and> entry r n = Some e \<longrightarrow> entry r' n = Some e)"

text \<open>The entries of the log that no step has changed since the last write was taken.\<close>

definition clean :: "('s, 'op, 'q, 'out, 'chunk) replica \<Rightarrow> OpNumber \<Rightarrow> bool" where
  "clean r n \<longleftrightarrow> log_start r < n \<and> n \<le> op_number r \<and> (\<forall>k. log_changed_from r = Some k \<longrightarrow> n < k)"

definition advances_log ::
  "('s, 'op, 'q, 'out, 'chunk) replica \<Rightarrow> ('s, 'op, 'q, 'out, 'chunk) replica \<Rightarrow> bool" where
  "advances_log r r' \<longleftrightarrow> config r' = config r \<and> self_id r' = self_id r
     \<and> view_number r \<le> view_number r' \<and> commit_number r \<le> commit_number r'
     \<and> applied r \<le> applied r' \<and> log_start r \<le> log_start r'
     \<and> outstanding r' = outstanding r \<and> durable r' = durable r
     \<and> outbox_waiting r' = outbox_waiting r \<and> outbox_ready r' = outbox_ready r
     \<and> (\<forall>n. clean r' n \<longrightarrow> clean r n \<and> entry r' n = entry r n)
     \<and> (log_changed_from r' = None \<longrightarrow> log_changed_from r = None \<and> op_number r' = op_number r)
     \<and> written r' = written r \<and> last_normal_view r \<le> last_normal_view r'
     \<and> (status r' = Recovering \<longrightarrow> status r = Recovering)
     \<and> (\<forall>n e. n \<le> commit_number r \<and> log_start r' < n \<and> entry r n = Some e \<longrightarrow> entry r' n = Some e)"

definition advances ::
  "('s, 'op, 'q, 'out, 'chunk) replica \<Rightarrow> ('s, 'op, 'q, 'out, 'chunk) replica \<Rightarrow> bool" where
  "advances r r' \<longleftrightarrow> advances_log r r' \<and> stamp r \<le> stamp r'"

text \<open>What a whole step keeps, and what the middle of a handler keeps of the step's start.\<close>

definition good ::
  "('s, 'op, 'q, 'out, 'chunk) replica \<Rightarrow> ('s, 'op, 'q, 'out, 'chunk) replica \<Rightarrow> bool" where
  "good r r' \<longleftrightarrow> replica_inv r' \<and> advances r r'"

definition loose ::
  "('s, 'op, 'q, 'out, 'chunk) replica \<Rightarrow> ('s, 'op, 'q, 'out, 'chunk) replica \<Rightarrow> bool" where
  "loose r r' \<longleftrightarrow> shape_inv r' \<and> log_inv r' \<and> mail_at (stamp r) r' \<and> advances_log r r'"

section \<open>Basic facts\<close>

lemma entry_Some:
  "entry r n = Some e \<longleftrightarrow> log_start r < n \<and> n \<le> op_number r \<and> e = log r ! (n - log_start r - 1)"
  by (auto simp: entry_def op_number_def)

lemma view_le_stamp [simp]: "(view_number r, 0) \<le> stamp r"
  by (simp add: stamp_def)

lemma advances_log_refl [simp]: "advances_log r r"
  by (simp add: advances_log_def)

lemma advances_logD:
  assumes "advances_log r r'"
  shows "config r' = config r" "self_id r' = self_id r" "view_number r \<le> view_number r'"
    "commit_number r \<le> commit_number r'" "applied r \<le> applied r'" "log_start r \<le> log_start r'"
    "outstanding r' = outstanding r" "durable r' = durable r" "outbox_waiting r' = outbox_waiting r"
    "outbox_ready r' = outbox_ready r"
    "\<And>n. clean r' n \<Longrightarrow> clean r n" "\<And>n. clean r' n \<Longrightarrow> entry r' n = entry r n"
    "\<And>n e. n \<le> commit_number r \<Longrightarrow> log_start r' < n \<Longrightarrow> entry r n = Some e \<Longrightarrow> entry r' n = Some e"
    "log_changed_from r' = None \<Longrightarrow> log_changed_from r = None"
    "log_changed_from r' = None \<Longrightarrow> op_number r' = op_number r"
    "written r' = written r" "last_normal_view r \<le> last_normal_view r'"
    "status r' = Recovering \<Longrightarrow> status r = Recovering"
  using assms by (simp_all add: advances_log_def)

lemma advances_log_trans:
  assumes "advances_log r r'" and "advances_log r' r''"
  shows "advances_log r r''"
proof -
  note a = advances_logD [OF assms(1)] and b = advances_logD [OF assms(2)]
  have "entry r'' n = Some e" if "n \<le> commit_number r" "log_start r'' < n" "entry r n = Some e" for n e
    by (rule b(13) [OF _ that(2) a(13)]) (use that a(4) b(6) in linarith)+
  moreover have "clean r n \<and> entry r'' n = entry r n" if "clean r'' n" for n
    using a(11,12) b(11,12) that by simp
  ultimately show ?thesis
    unfolding advances_log_def using a(1-10) b(1-10) a(14-18) b(14-18) by simp
qed

lemma advances_log_same:
  assumes "config r' = config r" and "self_id r' = self_id r" and "view_number r \<le> view_number r'"
    and "commit_number r \<le> commit_number r'" and "applied r \<le> applied r'"
    and "log_start r' = log_start r" and "log r' = log r" and "log_changed_from r' = log_changed_from r"
    and "outstanding r' = outstanding r" and "durable r' = durable r"
    and "outbox_waiting r' = outbox_waiting r" and "outbox_ready r' = outbox_ready r"
    and "written r' = written r" and "last_normal_view r \<le> last_normal_view r'"
    and "status r' = Recovering \<Longrightarrow> status r = Recovering"
  shows "advances_log r r'"
  using assms by (simp add: advances_log_def clean_def op_number_def entry_def)

lemma advances_trans: "advances r r' \<Longrightarrow> advances r' r'' \<Longrightarrow> advances r r''"
  unfolding advances_def by (meson advances_log_trans order_trans)

lemma advances_progress: "advances r r' \<Longrightarrow> progress r r'"
  by (auto simp: advances_def advances_log_def progress_def)

lemma progress_trans: "progress r r' \<Longrightarrow> progress r' r'' \<Longrightarrow> progress r r''"
  unfolding progress_def
  by (elim conjE, intro conjI allI impI)
    (simp, simp, blast intro: order_trans, linarith, linarith, linarith, metis le_less_trans order_trans)

lemma good_trans: "good r r' \<Longrightarrow> good r' r'' \<Longrightarrow> good r r''"
  unfolding good_def by (blast intro: advances_trans)

lemma good_refl: "replica_inv r \<Longrightarrow> good r r"
  by (simp add: good_def advances_def)

lemma loose_refl: "replica_inv r \<Longrightarrow> loose r r"
  by (simp add: loose_def replica_inv_def mail_inv_def)

lemma loose_trans: "loose r r' \<Longrightarrow> shape_inv r'' \<Longrightarrow> log_inv r'' \<Longrightarrow> mail_at (stamp r) r'' \<Longrightarrow>
    advances_log r' r'' \<Longrightarrow> loose r r''"
  unfolding loose_def by (blast intro: advances_log_trans)

lemma backed_by_mono: "backed_by st m \<Longrightarrow> st \<le> st' \<Longrightarrow> backed_by st' m"
  by (cases m) auto

lemma cap_changed_le: "cap_changed c n \<le> n"
  by (auto simp: cap_changed_def split: option.split)

lemma durable_op_inv:
  "log_inv r \<Longrightarrow> durable_op r = Some (cap_changed (log_changed_from r) (durable r))"
  by (auto simp: log_inv_def durable_op_def cap_changed_def split: option.split)

lemma durable_op_le: "log_inv r \<Longrightarrow> cap_changed (log_changed_from r) (durable r) \<le> op_number r"
  by (auto simp: log_inv_def cap_changed_def split: option.split)

text \<open>The fields the invariant reads.\<close>

definition core :: "('s, 'op, 'q, 'out, 'chunk) replica \<Rightarrow> _" where
  "core r = ((config r, self_id r, status r, view_number r, last_normal_view r, commit_number r),
     (applied r, log_start r, log r, log_changed_from r, outstanding r, durable r),
     (length (acked r), confirmed r, round r, round_confirmed r, round_unsent r, view_start_op r),
     (queries r, waiting r, catching_up r, serving r, fetch r),
     (outbox_early r, outbox r, outbox_waiting r, outbox_ready r, written r))"

lemma core_op_number: "core r' = core r \<Longrightarrow> op_number r' = op_number r"
  by (simp add: core_def op_number_def)

lemma core_is_primary: "core r' = core r \<Longrightarrow> is_primary r' = is_primary r"
  by (simp add: core_def is_primary_def primary_id_def)

lemma core_resume_ok: "core r' = core r \<Longrightarrow> resume_ok r' x = resume_ok r x"
  using core_op_number [of r' r] by (cases x) (simp_all add: core_def)

lemma core_inv:
  assumes "core r' = core r"
  shows "replica_inv r' = replica_inv r" "shape_inv r' = shape_inv r" "log_inv r' = log_inv r"
    "view_inv r' = view_inv r" "query_inv r' = query_inv r" "mail_at st r' = mail_at st r"
proof -
  note eqs = core_op_number [OF assms] core_is_primary [OF assms] core_resume_ok [OF assms]
  have c: "config r' = config r" "self_id r' = self_id r" "status r' = status r"
    "view_number r' = view_number r" "last_normal_view r' = last_normal_view r"
    "commit_number r' = commit_number r" "applied r' = applied r" "log_start r' = log_start r"
    "log r' = log r" "log_changed_from r' = log_changed_from r" "outstanding r' = outstanding r"
    "durable r' = durable r" "length (acked r') = length (acked r)" "confirmed r' = confirmed r"
    "round r' = round r" "round_confirmed r' = round_confirmed r" "round_unsent r' = round_unsent r"
    "view_start_op r' = view_start_op r" "queries r' = queries r" "waiting r' = waiting r"
    "serving r' = serving r" "fetch r' = fetch r" "outbox_early r' = outbox_early r"
    "outbox r' = outbox r" "outbox_waiting r' = outbox_waiting r" "outbox_ready r' = outbox_ready r"
    using assms by (simp_all add: core_def)
  show "shape_inv r' = shape_inv r" by (simp only: shape_inv_def c)
  show "log_inv r' = log_inv r" by (simp only: log_inv_def c eqs)
  show "view_inv r' = view_inv r" by (simp only: view_inv_def c eqs)
  show "query_inv r' = query_inv r" by (simp only: query_inv_def rounds_inv_def c eqs)
  show "mail_at st r' = mail_at st r" by (simp only: mail_at_def c)
  show "replica_inv r' = replica_inv r"
    by (simp only: replica_inv_def shape_inv_def log_inv_def view_inv_def query_inv_def
        rounds_inv_def mail_inv_def mail_at_def stamp_def c eqs)
qed

lemma core_advances_log:
  assumes "core r' = core r"
  shows "advances_log r r'"
proof -
  have "log_start r' = log_start r" "log r' = log r" "config r' = config r"
    "self_id r' = self_id r" "view_number r' = view_number r" "applied r' = applied r"
    "commit_number r' = commit_number r" "outstanding r' = outstanding r" "durable r' = durable r"
    "outbox_waiting r' = outbox_waiting r" "outbox_ready r' = outbox_ready r"
    "log_changed_from r' = log_changed_from r" "written r' = written r" "status r' = status r"
    "last_normal_view r' = last_normal_view r"
    using assms by (simp_all add: core_def)
  then show ?thesis by (simp add: advances_log_def clean_def op_number_def entry_def)
qed

lemma core_stamp: "core r' = core r \<Longrightarrow> stamp r' = stamp r"
  using core_op_number [of r' r] by (simp add: core_def stamp_def)

lemma core_good: "replica_inv r \<Longrightarrow> core r' = core r \<Longrightarrow> good r r'"
  unfolding good_def advances_def by (metis core_inv(1) core_advances_log core_stamp order_refl)

lemma core_good_trans: "good r r' \<Longrightarrow> core r'' = core r' \<Longrightarrow> good r r''"
  by (rule good_trans, assumption, rule core_good) (simp_all add: good_def)

text \<open>A change of the fields the invariant does not read.\<close>

lemma core_upd [simp]:
  "core (r\<lparr>state_machine := a1\<rparr>) = core r" "core (r\<lparr>reply_ranges := a2\<rparr>) = core r"
  "core (r\<lparr>writes := a4\<rparr>) = core r"
  "core (r\<lparr>resend_up_to := a5\<rparr>) = core r" "core (r\<lparr>clients := a6\<rparr>) = core r"
  "core (r\<lparr>sessions := a7\<rparr>) = core r" "core (r\<lparr>eviction_candidates := a8\<rparr>) = core r"
  "core (r\<lparr>heard_from_primary := a9\<rparr>) = core r" "core (r\<lparr>idle_periods_waiting := b1\<rparr>) = core r"
  "core (r\<lparr>view_change_attempts := b2\<rparr>) = core r" "core (r\<lparr>idle_periods_stable := b3\<rparr>) = core r"
  "core (r\<lparr>start_view_change_from := b4\<rparr>) = core r" "core (r\<lparr>do_view_change_sent := b5\<rparr>) = core r"
  "core (r\<lparr>do_view_change_from := b6\<rparr>) = core r" "core (r\<lparr>recovery_nonce := b7\<rparr>) = core r"
  "core (r\<lparr>recovery_responses := b8\<rparr>) = core r" "core (r\<lparr>replies := b9\<rparr>) = core r"
  by (simp_all add: core_def)

section \<open>Sending\<close>

lemma mailed_good:
  assumes "replica_inv r" and "mailed Q r r'" and "\<And>m. Q m \<Longrightarrow> backed_by (stamp r) m"
  shows "good r r'"
proof -
  from assms(2) obtain e ob where r': "r' = r\<lparr>outbox_early := e, outbox := ob\<rparr>"
    and e: "set (outbox_early r) \<subseteq> set e"
      "\<forall>x \<in> set e. x \<in> set (outbox_early r) \<or> is_early (snd x) \<and> Q (snd x)"
    and ob: "\<forall>x \<in> set ob. x \<in> set (outbox r) \<or> \<not> is_early (snd x) \<and> Q (snd x)"
    by (rule mailedE)
  have op: "op_number r' = op_number r" "is_primary r' = is_primary r" "stamp r' = stamp r"
    and res: "\<And>x. resume_ok r' x = resume_ok r x"
    subgoal by (simp add: r' op_number_def)
    subgoal by (simp add: r' is_primary_def primary_id_def)
    subgoal by (simp add: r' stamp_def op_number_def)
    subgoal for x by (cases x) (simp_all add: r' op_number_def)
    done
  note op' = op [unfolded r'] res [unfolded r']
  have "shape_inv r'" "log_inv r'" "view_inv r'"
    using assms(1) by (simp_all add: replica_inv_def shape_inv_def log_inv_def view_inv_def r' op')
  moreover have "query_inv r'"
    using assms(1) e(1) by (auto simp: replica_inv_def query_inv_def rounds_inv_def r' op')
  moreover have "mail_inv r'"
    using assms(1,3) e(2) ob
    by (auto simp: replica_inv_def mail_inv_def mail_at_def r' op')
  moreover have "advances_log r r'"
    by (simp add: advances_log_def clean_def op_number_def r' entry_def)
  ultimately show ?thesis
    by (simp add: good_def replica_inv_def advances_def op)
qed

end
