(* ===== verification/VSR_Preserve.thy ===== *)
theory VSR_Preserve
  imports VSR_Invariant
begin

text \<open>
  The building blocks keep the replica's invariant: execution and commit, appending and
  merging log entries, entering normal status, starting a view change or catching up with
  one, and restoring a checkpoint.
\<close>

section \<open>Executing and committing\<close>

lemma executed_log_inv:
  assumes "log_inv r" and "executed d r r'"
    and "d \<le> cap_changed (log_changed_from r) (durable r)"
  shows "log_inv r'"
proof -
  have "d \<le> op_number r" using durable_op_le [OF assms(1)] assms(3) by simp
  then show ?thesis
    using assms by (elim executedE) (auto simp: log_inv_def op_number_def)
qed

lemma executed_loose:
  assumes "loose r0 r" and "executed d r r'"
    and "d \<le> cap_changed (log_changed_from r) (durable r)"
  shows "loose r0 r'"
proof -
  have "log_inv r'" using assms executed_log_inv by (auto simp: loose_def)
  moreover have "shape_inv r' \<and> mail_at (stamp r0) r'"
    using assms(1) by (rule_tac executedE [OF assms(2)]) (simp add: loose_def shape_inv_def mail_at_def)
  moreover have "advances_log r r'"
    by (rule executedE [OF assms(2)]) (rule advances_log_same; simp)
  ultimately show ?thesis using assms(1) by (blast intro: loose_trans)
qed

lemma sorted_map_drop: "sorted (map f xs) \<Longrightarrow> sorted (map f (drop d xs))"
  by (simp add: drop_map [symmetric] sorted_wrt_drop)

lemma executed_query_inv:
  assumes "query_inv r" and "executed d r r'"
  shows "query_inv r'"
proof -
  from assms(2) obtain ec cs k s reps rr d' where r':
    "r' = r\<lparr>eviction_candidates := ec, clients := cs, sessions := k, state_machine := s,
            applied := max (applied r) (min (commit_number r) d), replies := reps,
            reply_ranges := rr, queries := drop d' (queries r),
            waiting := waiting r - (\<lambda>q. (wq_client_id q, wq_query_number q)) ` set (take d' (queries r))\<rparr>"
    by (rule executedE)
  from assms(1) have dist: "distinct (map query_key (take d' (queries r) @ drop d' (queries r)))"
    and w: "waiting r = query_key ` set (take d' (queries r) @ drop d' (queries r))"
    by (simp_all add: query_inv_def rounds_inv_def)
  have "waiting r' = query_key ` set (drop d' (queries r))"
    using dist by (auto simp: r' w query_key_def [abs_def] simp del: append_take_drop_id)
  moreover have "distinct (map query_key (drop d' (queries r)))"
    using dist by (simp del: append_take_drop_id)
  moreover have "is_primary r' = is_primary r" by (simp add: r' is_primary_def primary_id_def)
  ultimately show ?thesis
    using assms(1) in_set_dropD [of _ d' "queries r"]
    by (auto simp: query_inv_def rounds_inv_def r' sorted_map_drop)
qed

lemma executed_view_inv: "view_inv r \<Longrightarrow> executed d r r' \<Longrightarrow> view_inv r'"
proof (elim executedE)
  fix ec cs k s reps rr d'
  assume v: "view_inv r" and r':
    "r' = r\<lparr>eviction_candidates := ec, clients := cs, sessions := k, state_machine := s,
            applied := max (applied r) (min (commit_number r) d), replies := reps,
            reply_ranges := rr, queries := drop d' (queries r),
            waiting := waiting r - (\<lambda>q. (wq_client_id q, wq_query_number q)) ` set (take d' (queries r))\<rparr>"
  have "resume_ok r' x = resume_ok r x" for x by (cases x) (simp_all add: r' op_number_def)
  then show "view_inv r'"
    using v by (auto simp: view_inv_def r' is_primary_def primary_id_def)
qed

text \<open>What committing leaves as it is.\<close>

definition same_log ::
  "('s, 'op, 'q, 'out, 'chunk) replica \<Rightarrow> ('s, 'op, 'q, 'out, 'chunk) replica \<Rightarrow> bool" where
  "same_log r r' \<longleftrightarrow> config r' = config r \<and> self_id r' = self_id r \<and> status r' = status r
     \<and> view_number r' = view_number r \<and> last_normal_view r' = last_normal_view r
     \<and> log_start r' = log_start r \<and> log r' = log r \<and> fetch r' = fetch r
     \<and> catching_up r' = catching_up r \<and> do_view_change_from r' = do_view_change_from r
     \<and> outstanding r' = outstanding r \<and> log_changed_from r' = log_changed_from r"

lemma same_logD:
  assumes "same_log r r'"
  shows "op_number r' = op_number r" "is_primary r' = is_primary r" "stamp r' = stamp r"
    "view_number r' = view_number r" "status r' = status r" "config r' = config r"
    "self_id r' = self_id r" "last_normal_view r' = last_normal_view r" "fetch r' = fetch r"
    "log r' = log r" "log_start r' = log_start r"
  using assms by (simp_all add: same_log_def op_number_def is_primary_def primary_id_def stamp_def)

lemma executed_same_log: "executed d r r' \<Longrightarrow> same_log r r'"
  by (elim executedE) (simp add: same_log_def)

lemma commit_up_to_same_log: "commit_up_to sm r k rep = Some r' \<Longrightarrow> same_log r r'"
  by (erule commit_up_to_cases) (auto simp: same_log_def dest!: executed_same_log)

lemma commit_number_loose:
  assumes "loose r0 r" and "commit_number r \<le> k"
  shows "loose r0 (r\<lparr>reply_ranges := rr, commit_number := k\<rparr>)"
proof (rule loose_trans [OF assms(1)])
  show "advances_log r (r\<lparr>reply_ranges := rr, commit_number := k\<rparr>)"
    by (rule advances_log_same) (simp_all add: assms(2))
qed (use assms in \<open>auto simp: loose_def shape_inv_def log_inv_def mail_at_def op_number_def\<close>)

lemma commit_up_to_loose:
  assumes "loose r0 r" and "commit_up_to sm r k rep = Some r'"
  shows "loose r0 r'"
  using assms(2)
proof (cases rule: commit_up_to_cases)
  case same
  with assms(1) show ?thesis by simp
next
  case (more d rr)
  have "d = cap_changed (log_changed_from r) (durable r)"
    using assms(1) more(2) durable_op_inv [of r] by (auto simp: loose_def)
  with more assms(1) show ?thesis
    by (intro executed_loose [OF commit_number_loose [OF assms(1)] more(3)]) auto
qed

lemma query_inv_raise:
  assumes inv: "query_inv r" and k: "commit_number r \<le> commit_number r'"
    and same: "config r' = config r" "self_id r' = self_id r" "view_number r' = view_number r"
      "status r' = status r" "queries r' = queries r" "waiting r' = waiting r" "round r' = round r"
      "round_confirmed r' = round_confirmed r" "round_unsent r' = round_unsent r"
      "confirmed r' = confirmed r" "view_start_op r' = view_start_op r" "outbox_early r' = outbox_early r"
  shows "query_inv r'"
proof -
  have prim: "is_primary r' = is_primary r" by (simp add: is_primary_def primary_id_def same)
  have "wq_op_number q \<le> max (commit_number r') (view_start_op r) \<and> wq_round q \<le> round r + 1"
    if "q \<in> set (queries r)" for q
  proof -
    have "wq_op_number q \<le> max (commit_number r) (view_start_op r) \<and> wq_round q \<le> round r + 1"
      using inv that by (simp add: query_inv_def rounds_inv_def)
    with k show ?thesis by (simp add: le_max_iff_disj) linarith
  qed
  then show ?thesis using inv unfolding query_inv_def rounds_inv_def same prim by simp
qed

lemma commit_up_to_query_inv:
  assumes "query_inv r" and "commit_up_to sm r k rep = Some r'"
  shows "query_inv r'"
  using assms(2)
proof (cases rule: commit_up_to_cases)
  case (more d rr)
  have "query_inv (r\<lparr>reply_ranges := rr, commit_number := k\<rparr>)"
    using assms(1) by (rule query_inv_raise) (use more(1) in simp_all)
  then show ?thesis using more(3) by (rule executed_query_inv)
qed (use assms(1) in simp)

text \<open>Committing in normal status.\<close>

lemma loose_good:
  "loose r0 r \<Longrightarrow> view_inv r \<Longrightarrow> query_inv r \<Longrightarrow> stamp r0 \<le> stamp r \<Longrightarrow> good r0 r"
  by (auto simp: good_def replica_inv_def loose_def advances_def mail_inv_def mail_at_def
      intro: backed_by_mono order_trans)

lemma commit_up_to_good:
  assumes "replica_inv r" and "fetch r = None" and "status r \<noteq> Recovering"
    and "commit_up_to sm r k rep = Some r'"
  shows "good r r'"
proof (rule loose_good)
  show "loose r r'" using commit_up_to_loose [OF loose_refl [OF assms(1)] assms(4)] .
  note same = same_logD [OF commit_up_to_same_log [OF assms(4)]]
  show "view_inv r'" using assms(1-3) by (simp add: replica_inv_def view_inv_def same)
  show "query_inv r'" using assms(1,4) commit_up_to_query_inv by (auto simp: replica_inv_def)
  show "stamp r \<le> stamp r'" by (simp add: same)
qed

section \<open>The log\<close>

definition lowered :: "OpNumber option \<Rightarrow> OpNumber \<Rightarrow> OpNumber option" where
  "lowered changed n = Some (case changed of Some from \<Rightarrow> min from n | None \<Rightarrow> n)"

lemma mark_log_changed_lowered:
  "mark_log_changed r n = r\<lparr>log_changed_from := lowered (log_changed_from r) n\<rparr>"
  by (simp add: mark_log_changed_def lowered_def)

lemma lowered_not_None [simp]: "lowered c n \<noteq> None"
  by (simp add: lowered_def)

lemma cap_lowered: "1 \<le> n \<Longrightarrow> cap_changed (lowered c n) d = min (cap_changed c d) (n - 1)"
  by (auto simp: cap_changed_def lowered_def split: option.split)

lemma lowered_bounds:
  "lowered c n = Some k \<Longrightarrow> 1 \<le> n \<Longrightarrow> (\<And>k. c = Some k \<Longrightarrow> 1 \<le> k) \<Longrightarrow> 1 \<le> k \<and> k \<le> n"
  by (auto simp: lowered_def split: option.splits)

lemma append_to_log_eq:
  "append_to_log r e = r\<lparr>log_changed_from := lowered (log_changed_from r) (op_number r + 1),
     clients := set_pending (clients r) (pending_key (op_number r + 1) e), log := log r @ [e]\<rparr>"
  by (simp add: append_to_log_def mark_log_changed_lowered Let_def)

lemma append_to_log_good:
  assumes "replica_inv r" and "status r = Normal"
  shows "good r (append_to_log r e)"
proof -
  let ?r' = "append_to_log r e"
  have op: "op_number ?r' = op_number r + 1" by (simp add: append_to_log_eq op_number_def)
  have prim: "is_primary ?r' = is_primary r"
    by (simp add: append_to_log_eq is_primary_def primary_id_def)
  have res: "\<not> resume_ok r x" for x using assms(2) by (cases x) simp_all
  from assms have no_fetch: "fetch r = None"
    by (cases "fetch r") (auto simp: replica_inv_def view_inv_def res)
  have st: "stamp r \<le> stamp ?r'" by (simp add: stamp_def op) (simp add: append_to_log_eq)
  have log: "log_inv ?r'"
    using assms(1) durable_op_le [of r]
    by (simp add: replica_inv_def log_inv_def op)
      (fastforce simp: append_to_log_eq cap_lowered dest: lowered_bounds)
  have "clean r n \<and> entry ?r' n = entry r n" if "clean ?r' n" for n
  proof -
    have "lowered (log_changed_from r) (op_number r + 1) = Some k \<Longrightarrow> n < k" for k
      using that by (simp add: clean_def append_to_log_eq)
    then have "n < op_number r + 1 \<and> (\<forall>k. log_changed_from r = Some k \<longrightarrow> n < k)"
      by (auto simp: lowered_def split: option.splits)
    with that show ?thesis
      by (auto simp: clean_def append_to_log_eq entry_def nth_append op_number_def nth_chk_def)
  qed
  then have "advances_log r ?r'"
    by (auto simp: advances_log_def append_to_log_eq entry_def nth_append)
  then have "loose r ?r'"
    using log assms(1)
    by (auto simp: loose_def replica_inv_def mail_inv_def shape_inv_def mail_at_def append_to_log_eq)
  moreover have "view_inv ?r'"
    using assms no_fetch by (simp add: replica_inv_def view_inv_def prim) (simp add: append_to_log_eq)
  moreover have "query_inv ?r'"
    using assms(1) by (simp add: replica_inv_def query_inv_def rounds_inv_def prim) (simp add: append_to_log_eq)
  ultimately show ?thesis using st by (intro loose_good)
qed

lemma rebuild_pending_frame:
  "rebuild_pending r = Some r' \<Longrightarrow> \<exists>cs. r' = r\<lparr>clients := cs\<rparr>"
  by (auto simp: rebuild_pending_def Let_def bind_eq_Some_conv split: if_splits)

lemma merge_log_frame:
  assumes "merge_log r start es = Some r'"
  obtains cs where "max start (commit_number r) \<le> op_number r"
    and "log_start r \<le> max start (commit_number r)"
    and "r' = r\<lparr>log := take (max start (commit_number r) - log_start r) (log r)
                        @ drop (max start (commit_number r) - start) es,
               log_changed_from := lowered (log_changed_from r) (max start (commit_number r) + 1),
               clients := cs\<rparr>"
proof -
  let ?keep = "max start (commit_number r)"
  let ?r1 = "r\<lparr>log := take (?keep - log_start r) (log r) @ drop (?keep - start) es\<rparr>"
  from assms have keep: "?keep \<le> op_number r" "log_start r \<le> ?keep"
    and "rebuild_pending (mark_log_changed ?r1 (?keep + 1)) = Some r'"
    by (auto simp: merge_log_def Let_def bind_eq_Some_conv split: if_splits)
  then obtain cs where "r' = (mark_log_changed ?r1 (?keep + 1))\<lparr>clients := cs\<rparr>"
    by (auto dest: rebuild_pending_frame)
  with keep show ?thesis by (intro that [of cs]) (simp_all add: mark_log_changed_lowered)
qed

lemma merge_log_op_number:
  assumes "merge_log r start es = Some r'"
  shows "op_number r' = max (max start (commit_number r)) (start + length es)"
  using assms by (rule merge_log_frame) (auto simp: op_number_def)

lemma merge_log_same:
  assumes "merge_log r start es = Some r'"
  shows "config r' = config r" "self_id r' = self_id r" "status r' = status r"
    "view_number r' = view_number r" "last_normal_view r' = last_normal_view r"
    "commit_number r' = commit_number r" "fetch r' = fetch r" "catching_up r' = catching_up r"
    "queries r' = queries r" "do_view_change_from r' = do_view_change_from r"
    "log_start r' = log_start r" "applied r' = applied r" "is_primary r' = is_primary r"
    "outstanding r' = outstanding r" "durable r' = durable r"
    "outbox_waiting r' = outbox_waiting r" "outbox_ready r' = outbox_ready r"
    "written r' = written r" "log_changed_from r' \<noteq> None"
  by (rule merge_log_frame [OF assms], simp add: is_primary_def primary_id_def)+

lemma merge_log_entry:
  assumes "merge_log r start es = Some r'" and "entry r n = Some e" and "n \<le> max start (commit_number r)"
  shows "entry r' n = Some e"
  using assms(1)
proof (rule merge_log_frame)
  fix cs
  assume "max start (commit_number r) \<le> op_number r"
    and "log_start r \<le> max start (commit_number r)"
    and r': "r' = r\<lparr>log := take (max start (commit_number r) - log_start r) (log r)
                        @ drop (max start (commit_number r) - start) es,
               log_changed_from := lowered (log_changed_from r) (max start (commit_number r) + 1),
               clients := cs\<rparr>"
  then show ?thesis
    using assms(2,3) by (auto simp: entry_Some op_number_def nth_append)
qed

lemma merge_log_clean:
  assumes "merge_log r start es = Some r'" and "clean r' n"
  shows "clean r n" and "entry r' n = entry r n"
proof -
  obtain cs where keep: "max start (commit_number r) \<le> op_number r"
    and r': "r' = r\<lparr>log := take (max start (commit_number r) - log_start r) (log r)
                        @ drop (max start (commit_number r) - start) es,
               log_changed_from := lowered (log_changed_from r) (max start (commit_number r) + 1),
               clients := cs\<rparr>"
    using merge_log_frame [OF assms(1)] by blast
  have "lowered (log_changed_from r) (max start (commit_number r) + 1) = Some k \<Longrightarrow> n < k" for k
    using assms(2) by (simp add: clean_def r')
  then have n: "n < max start (commit_number r) + 1 \<and> (\<forall>k. log_changed_from r = Some k \<longrightarrow> n < k)"
    by (auto simp: lowered_def split: option.splits)
  moreover have "log_start r < n" using assms(2) by (simp add: clean_def r')
  ultimately show c: "clean r n" using keep by (auto simp: clean_def)
  then obtain e where "entry r n = Some e" by (auto simp: clean_def entry_Some)
  with merge_log_entry [OF assms(1) this] n show "entry r' n = entry r n" by simp
qed

lemma merge_log_log_inv:
  assumes "log_inv r" and "merge_log r start es = Some r'"
  shows "log_inv r'"
  using assms(2)
proof (rule merge_log_frame)
  fix cs
  assume keep: "max start (commit_number r) \<le> op_number r"
    "log_start r \<le> max start (commit_number r)"
    and r': "r' = r\<lparr>log := take (max start (commit_number r) - log_start r) (log r)
                        @ drop (max start (commit_number r) - start) es,
               log_changed_from := lowered (log_changed_from r) (max start (commit_number r) + 1),
               clients := cs\<rparr>"
  have op: "op_number r' = max (max start (commit_number r)) (start + length es)"
    by (rule merge_log_op_number [OF assms(2)])
  have ge: "commit_number r \<le> op_number r'" "op_number r' \<ge> max start (commit_number r)"
    by (simp_all add: op)
  have "applied r \<le> max start (commit_number r)"
    using assms(1) by (auto simp: log_inv_def)
  then have "applied r' \<le> max (cap_changed (log_changed_from r') (durable r')) (log_start r')"
    using assms(1) by (auto simp: log_inv_def r' cap_lowered)
  moreover have "\<forall>k. log_changed_from r' = Some k \<longrightarrow> 1 \<le> k \<and> k \<le> op_number r' + 1"
  proof (intro allI impI)
    fix k
    assume "log_changed_from r' = Some k"
    then have "lowered (log_changed_from r) (max start (commit_number r) + 1) = Some k" by (simp add: r')
    moreover have "log_changed_from r = Some k \<Longrightarrow> 1 \<le> k" for k
      using assms(1) by (simp add: log_inv_def)
    ultimately have "1 \<le> k \<and> k \<le> max start (commit_number r) + 1"
      by (intro lowered_bounds) auto
    with ge(2) show "1 \<le> k \<and> k \<le> op_number r' + 1" by linarith
  qed
  moreover have "log_changed_from r' \<noteq> None" by (simp add: r')
  moreover have "applied r' \<le> op_number r'"
    using assms(1) ge(1) by (simp add: r' log_inv_def)
  ultimately show ?thesis
    using assms(1) by (simp add: log_inv_def) (simp add: r')
qed

lemma merge_log_loose:
  assumes "loose r0 r" and "merge_log r start es = Some r'"
  shows "loose r0 r'"
proof (rule loose_trans [OF assms(1)])
  show "log_inv r'" using assms merge_log_log_inv by (auto simp: loose_def)
  show "shape_inv r'" "mail_at (stamp r0) r'"
    by (rule merge_log_frame [OF assms(2)]; use assms(1) in \<open>simp add: loose_def shape_inv_def mail_at_def\<close>)+
  show "advances_log r r'"
    unfolding advances_log_def using merge_log_same [OF assms(2)]
    by (auto intro: merge_log_entry [OF assms(2)] dest: merge_log_clean [OF assms(2)])
qed

end
