(* ===== verification/VSR_Handlers.thy ===== *)
theory VSR_Handlers
  imports VSR_Preserve
begin

text \<open>
  Every handler and every entry point keeps the replica's invariant and advances its state:
  one lemma per handler, each a chain of the building blocks' lemmas.
\<close>

section \<open>Changing the status\<close>

lemma enter_normal_simps:
  "view_number (enter_normal r) = view_number r" "op_number (enter_normal r) = op_number r"
  "status (enter_normal r) = Normal" "last_normal_view (enter_normal r) = view_number r"
  "stamp (enter_normal r) = (view_number r, op_number r)" "config (enter_normal r) = config r"
  "commit_number (enter_normal r) = commit_number r" "self_id (enter_normal r) = self_id r"
  "log (enter_normal r) = log r" "log_start (enter_normal r) = log_start r"
  by (simp_all add: enter_normal_def clear_view_change_state_def op_number_def stamp_def)

lemma cleared_query_inv:
  "queries r = [] \<Longrightarrow> waiting r = {} \<Longrightarrow> round r = 0 \<Longrightarrow> round_confirmed r = 0 \<Longrightarrow> \<not> round_unsent r \<Longrightarrow>
   confirmed r = replicate n 0 \<Longrightarrow> query_inv r"
  by (auto simp: query_inv_def rounds_inv_def)

lemma loose_upd:
  assumes "loose r0 r" and "shape_inv r'" and "log_start r' = log_start r" and "log r' = log r"
    and "commit_number r' = commit_number r" and "applied r' = applied r"
    and "log_changed_from r' = log_changed_from r" and "durable r' = durable r"
    and "outstanding r' = outstanding r" and "serving r' = serving r"
    and "outbox_early r' = outbox_early r" and "outbox r' = outbox r"
    and "outbox_waiting r' = outbox_waiting r" and "outbox_ready r' = outbox_ready r"
    and "config r' = config r" and "self_id r' = self_id r" and "view_number r \<le> view_number r'"
    and "written r' = written r" and "last_normal_view r \<le> last_normal_view r'"
    and "status r' = Recovering \<Longrightarrow> status r = Recovering"
  shows "loose r0 r'"
  using assms(1)
proof (rule loose_trans)
  have op: "op_number r' = op_number r" using assms by (simp add: op_number_def)
  show "log_inv r'" using assms by (simp add: loose_def log_inv_def op)
  show "mail_at (stamp r0) r'" using assms by (simp add: loose_def mail_at_def)
  show "advances_log r r'" using assms by (simp add: advances_log_def clean_def op_number_def entry_def)
qed (rule assms)

lemma enter_normal_good:
  assumes "loose r0 r" and "stamp r0 \<le> (view_number r, op_number r)"
  shows "good r0 (enter_normal r)"
proof (rule loose_good)
  show "loose r0 (enter_normal r)"
    using assms(1) by (rule loose_upd)
      (use assms(1) in \<open>simp_all add: enter_normal_def clear_view_change_state_def loose_def shape_inv_def\<close>)
  show "view_inv (enter_normal r)"
    by (simp add: view_inv_def enter_normal_def clear_view_change_state_def)
  show "query_inv (enter_normal r)"
    by (rule cleared_query_inv) (simp_all add: enter_normal_def clear_view_change_state_def)
  show "stamp r0 \<le> stamp (enter_normal r)" using assms(2) by (simp add: enter_normal_simps)
qed

text \<open>Leaving the view: a view change starts, or the replica catches up with one.\<close>

definition leave_view ::
  "('s, 'op, 'q, 'out, 'chunk) replica \<Rightarrow> ViewNumber \<Rightarrow> ReplicaID option
   \<Rightarrow> ('s, 'op, 'q, 'out, 'chunk) replica" where
  "leave_view r v cu = (clear_view_change_state
     (r\<lparr>view_number := v, status := ViewChange, idle_periods_waiting := 0\<rparr>))\<lparr>catching_up := cu\<rparr>"

lemma leave_view_good:
  assumes "loose r0 r" and "last_normal_view r < v" and "view_number r \<le> v" and "stamp r0 \<le> (v, 0)"
  shows "good r0 (leave_view r v cu)"
proof (rule loose_good)
  show "loose r0 (leave_view r v cu)"
    using assms(1) by (rule loose_upd)
      (use assms(1-3) in \<open>simp_all add: leave_view_def clear_view_change_state_def loose_def shape_inv_def\<close>)
  show "view_inv (leave_view r v cu)"
    using assms(2) by (simp add: view_inv_def leave_view_def clear_view_change_state_def)
  show "query_inv (leave_view r v cu)"
    by (rule cleared_query_inv) (simp_all add: leave_view_def clear_view_change_state_def)
  show "stamp r0 \<le> stamp (leave_view r v cu)"
    using assms(4) by (simp add: stamp_def leave_view_def clear_view_change_state_def)
qed

lemma leave_view_stamp [simp]: "stamp (leave_view r v cu) = (v, 0)"
  by (simp add: stamp_def leave_view_def clear_view_change_state_def)

lemma view_inv_leave:
  "replica_inv r \<Longrightarrow> view_number r < v \<or> v = view_number r \<and> status r = ViewChange \<Longrightarrow>
   last_normal_view r < v"
  by (auto simp: replica_inv_def view_inv_def)

lemma leave_view_inv_good:
  "replica_inv r \<Longrightarrow> view_number r < v \<or> v = view_number r \<and> status r = ViewChange \<Longrightarrow>
   good r (leave_view r v cu)"
  by (rule leave_view_good) (auto simp: loose_refl view_inv_leave stamp_def)

lemma mailed_good_trans:
  assumes "good r0 r" and "mailed Q r r'" and "\<And>m. Q m \<Longrightarrow> backed_by (stamp r) m"
  shows "good r0 r'"
proof -
  from assms(1) have "replica_inv r" by (simp add: good_def)
  from good_trans [OF assms(1) mailed_good [OF this assms(2,3)]] show ?thesis .
qed

lemma catch_up_with_view_good:
  assumes "replica_inv r" and "view_number r < v \<or> v = view_number r \<and> status r = ViewChange"
  shows "good r (catch_up_with_view r v)"
proof (cases "view_number r = v \<and> catching_up r = Some (cfg_primary_id (config r) v)")
  case True
  with assms show ?thesis by (simp add: catch_up_with_view_def good_refl)
next
  case False
  let ?r1 = "leave_view r v (Some (cfg_primary_id (config r) v))"
  have "catch_up_with_view r v = send_get_state ?r1 (commit_number ?r1)"
    using False by (auto simp: catch_up_with_view_def leave_view_def Let_def clear_view_change_state_def)
  moreover have "mailed (backed_by (stamp ?r1)) ?r1 (send_get_state ?r1 (commit_number ?r1))" by auto
  ultimately show ?thesis
    using mailed_good_trans [OF leave_view_inv_good [OF assms]] by simp
qed

lemma clear_catching_up:
  "(clear_view_change_state r)\<lparr>catching_up := None\<rparr> = clear_view_change_state r"
  by (simp add: clear_view_change_state_def)

lemma start_view_change_split:
  "start_view_change sm r v =
     (let r1 = leave_view (if status r = ViewChange
               then r\<lparr>view_change_attempts := view_change_attempts r + 1\<rparr> else r) v None
      in maybe_send_do_view_change sm (send_to_others r1 (StartViewChange v (self_id r1))))"
  by (simp add: start_view_change_def leave_view_def Let_def clear_catching_up)

lemma state_transfer_good:
  assumes "replica_inv r" and "status r = Normal \<or> status r = StateTransfer" and "\<not> is_primary r"
  shows "good r (state_transfer r)"
proof -
  let ?r1 = "r\<lparr>status := StateTransfer\<rparr>"
  have q: "queries r = []" using assms by (auto simp: replica_inv_def query_inv_def rounds_inv_def)
  have op: "op_number ?r1 = op_number r" "is_primary ?r1 = is_primary r"
    by (simp_all add: op_number_def is_primary_def primary_id_def)
  have f: "fetch r = Some ft \<Longrightarrow> resume_ok ?r1 (ft_then ft)" for ft
    using assms by (cases "ft_then ft") (auto simp: replica_inv_def view_inv_def op)
  have "good r ?r1"
  proof (rule loose_good)
    show "loose r ?r1"
      using loose_refl [OF assms(1)]
      by (rule loose_upd) (use assms(1) in \<open>simp_all add: replica_inv_def shape_inv_def\<close>)
    show "view_inv ?r1" using assms f by (auto simp: replica_inv_def view_inv_def op)
    show "query_inv ?r1"
      using assms(1) q by (simp add: replica_inv_def query_inv_def rounds_inv_def op)
    show "stamp r \<le> stamp ?r1" using assms(2) by (auto simp: stamp_def op)
  qed
  then show ?thesis
    unfolding state_transfer_def op(1) [symmetric] by (rule mailed_good_trans) auto
qed

section \<open>Requests and replication\<close>

lemma normal_no_fetch: "replica_inv r \<Longrightarrow> status r = Normal \<Longrightarrow> fetch r = None"
proof (cases "fetch r")
  case (Some ft)
  assume "replica_inv r" "status r = Normal"
  with Some show ?thesis by (cases "ft_then ft") (auto simp: replica_inv_def view_inv_def)
qed

lemma prepare_good: "replica_inv r \<Longrightarrow> status r = Normal \<Longrightarrow> good r (prepare r e)"
  unfolding prepare_def Let_def by (rule mailed_good_trans [OF append_to_log_good]) auto

lemma on_register_good: "replica_inv r \<Longrightarrow> good r (on_register r c)"
  by (auto simp: on_register_def good_refl intro: prepare_good core_good split: option.splits)

lemma on_request_good: "replica_inv r \<Longrightarrow> good r (on_request r c session n a op)"
  by (auto simp: on_request_def good_refl Let_def intro: prepare_good core_good split: option.splits)

lemma accept_from_primary_good:
  assumes "replica_inv r" and "accept_from_primary r v = (r', ok)"
  shows "good r r' \<and> (ok \<longrightarrow> status r' = Normal \<and> \<not> is_primary r' \<and> view_number r' = v)"
proof -
  let ?r1 = "r\<lparr>heard_from_primary := True\<rparr>"
  have 1: "good r ?r1" using assms(1) by (simp add: core_good)
  then have inv: "replica_inv ?r1" by (simp add: good_def)
  have prim: "is_primary ?r1 = is_primary r" by (simp add: is_primary_def primary_id_def)
  show ?thesis
  proof (cases "view_number r = v \<and> status r = ViewChange")
    case True
    with assms(2) have "r' = catch_up_with_view ?r1 v" "\<not> ok"
      by (auto simp: accept_from_primary_def Let_def)
    with True good_trans [OF 1 catch_up_with_view_good [OF inv]] show ?thesis by simp
  next
    case False
    with assms 1 show ?thesis
      by (auto simp: accept_from_primary_def Let_def prim good_refl catch_up_with_view_good
          split: if_splits status.splits)
  qed
qed

lemma send_prepare_ok_good:
  assumes "good r0 r" and "status r = Normal"
  shows "good r0 (send_prepare_ok r)"
  using assms(1) by (rule mailed_good_trans [where Q = "backed_by (stamp r)"])
    (use assms(2) in \<open>auto simp: stamp_def\<close>)

lemma on_prepare_good:
  assumes "replica_inv r" and "on_prepare sm r v n e k = Some r'"
  shows "good r r'"
proof -
  obtain r1 ok where acc: "accept_from_primary r v = (r1, ok)" by fastforce
  note 1 = accept_from_primary_good [OF assms(1) acc]
  show ?thesis
  proof (cases "ok \<and> n \<le> op_number r1 + 1")
    case False
    with 1 assms(2) acc show ?thesis
      using good_trans [OF _ state_transfer_good [of r1]] by (auto simp: on_prepare_def good_def split: if_splits)
  next
    case True
    define r2 where "r2 = (if n = op_number r1 + 1 then append_to_log r1 e else r1)"
    have inv1: "replica_inv r1" and st1: "status r1 = Normal" using 1 True by (auto simp: good_def)
    have g2: "good r r2" and st2: "status r2 = Normal"
      using 1 good_trans [OF _ append_to_log_good [OF inv1 st1]] st1
      by (auto simp: r2_def append_to_log_eq)
    then have inv2: "replica_inv r2" by (simp add: good_def)
    from assms(2) acc True obtain r3 where c: "commit_up_to sm r2 (min k (op_number r2)) False = Some r3"
      and r': "r' = send_prepare_ok r3"
      by (auto simp: on_prepare_def r2_def Let_def bind_eq_Some_conv)
    have "good r r3"
      using good_trans [OF g2 commit_up_to_good [OF inv2 normal_no_fetch [OF inv2 st2] _ c]] st2 by simp
    moreover have "status r3 = Normal" using same_logD(5) [OF commit_up_to_same_log [OF c]] st2 by simp
    ultimately show ?thesis unfolding r' by (rule send_prepare_ok_good)
  qed
qed

lemma register_ack_good:
  assumes "replica_inv r" and "status r = Normal" and "register_ack sm r i n = Some r'"
  shows "good r r'"
proof (cases "min n (op_number r) \<le> acked r ! i")
  case True
  with assms show ?thesis by (auto simp: register_ack_def Let_def bind_eq_Some_conv good_refl)
next
  case False
  let ?r1 = "r\<lparr>acked := (acked r)[i := min n (op_number r)]\<rparr>"
  have g: "good r ?r1" using assms(1) by (rule core_good) (simp add: core_def)
  then have inv: "replica_inv ?r1" by (simp add: good_def)
  from False assms(3) have
    "commit_up_to sm ?r1 (quorum_mark (cfg_quorum (config ?r1)) (acked ?r1)) True = Some r'"
    by (auto simp: register_ack_def Let_def bind_eq_Some_conv)
  with g show ?thesis
    using good_trans [OF g commit_up_to_good [OF inv normal_no_fetch [OF inv]]] assms(2) by simp
qed

lemma on_prepare_ok_good: "replica_inv r \<Longrightarrow> on_prepare_ok sm r v n i = Some r' \<Longrightarrow> good r r'"
  by (auto simp: on_prepare_ok_def good_refl intro: register_ack_good split: if_splits)

lemma on_commit_good:
  assumes "replica_inv r" and "on_commit sm r v k = Some r'"
  shows "good r r'"
proof -
  obtain r1 ok where acc: "accept_from_primary r v = (r1, ok)" by fastforce
  note 1 = accept_from_primary_good [OF assms(1) acc]
  then have inv: "replica_inv r1" by (simp add: good_def)
  show ?thesis
    using 1 assms(2) acc good_trans [OF _ state_transfer_good [OF inv]]
      good_trans [OF _ commit_up_to_good [OF inv normal_no_fetch [OF inv]]]
    by (auto simp: on_commit_def split: if_splits)
qed

section \<open>Queries\<close>

lemma send_fold_early:
  "i \<in> set xs \<Longrightarrow> i \<noteq> self_id r \<Longrightarrow> is_early m \<Longrightarrow>
   (i, m) \<in> set (outbox_early (fold (\<lambda>i r. if i \<noteq> self_id r then send r i m else r) xs r))"
proof (induction xs arbitrary: r)
  case (Cons x xs)
  let ?f = "\<lambda>i r. if i \<noteq> self_id r then send r i m else r"
  show ?case
  proof (cases "i = x")
    case True
    have "mailed (\<lambda>_. True) (?f x r) (fold ?f xs (?f x r))" by (rule mailed_fold) auto
    then have "set (outbox_early (?f x r)) \<subseteq> set (outbox_early (fold ?f (x # xs) r))"
      by (simp add: mailed_def)
    with True Cons.prems show ?thesis by (auto simp: send_def)
  next
    case False
    with Cons.prems Cons.IH [of "?f x r"] show ?thesis by (simp add: send_def)
  qed
qed simp

lemma send_to_others_early:
  "i < replica_count (config r) \<Longrightarrow> i \<noteq> self_id r \<Longrightarrow> is_early m \<Longrightarrow>
   (i, m) \<in> set (outbox_early (send_to_others r m))"
  by (simp add: send_to_others_def send_fold_early)

lemma start_round_Some: "shape_inv r \<Longrightarrow> \<exists>r'. start_round r = Some r'"
  by (auto simp: start_round_def Let_def shape_inv_def set_chk_def)

lemma view_inv_upd:
  assumes "view_inv r" and "view_number r' = view_number r" and "status r' = status r"
    and "last_normal_view r' = last_normal_view r" and "log r' = log r"
    and "log_start r' = log_start r" and "commit_number r' = commit_number r"
    and "fetch r' = fetch r" and "catching_up r' = catching_up r"
    and "config r' = config r" and "self_id r' = self_id r"
  shows "view_inv r'"
proof -
  have "resume_ok r' x = resume_ok r x" for x
    using assms by (cases x) (simp_all add: op_number_def)
  then show ?thesis using assms by (simp add: view_inv_def is_primary_def primary_id_def)
qed

lemma mailed_loose:
  assumes "loose r0 r" and "mailed Q r r'" and "\<And>m. Q m \<Longrightarrow> backed_by (stamp r0) m"
  shows "loose r0 r'"
  using assms(1)
proof (rule loose_trans)
  from assms(2) obtain e ob where r': "r' = r\<lparr>outbox_early := e, outbox := ob\<rparr>"
    and e: "\<forall>x \<in> set e. x \<in> set (outbox_early r) \<or> is_early (snd x) \<and> Q (snd x)"
    and ob: "\<forall>x \<in> set ob. x \<in> set (outbox r) \<or> \<not> is_early (snd x) \<and> Q (snd x)"
    by (rule mailedE)
  show "mail_at (stamp r0) r'"
    using assms(1,3) e ob by (auto simp: loose_def mail_at_def r')
  show "shape_inv r'" "log_inv r'"
    using assms(1) by (simp_all add: loose_def shape_inv_def log_inv_def r' op_number_def)
  show "advances_log r r'" by (simp add: r' advances_log_def clean_def op_number_def entry_def)
qed

lemma start_round_good:
  assumes inv: "loose r0 r" "view_inv r" "rounds_inv r" "stamp r0 \<le> stamp r"
    and room: "round r - round_confirmed r < ROUNDS_OUT" and start: "start_round r = Some r'"
  shows "good r0 r'" and "round r' = round r + 1" and "round_unsent r'" and "queries r' = queries r"
    and "waiting r' = waiting r" and "status r' = status r" and "is_primary r' = is_primary r"
    and "commit_number r' = commit_number r" and "view_start_op r' = view_start_op r"
    and "round_confirmed r' = round_confirmed r"
proof -
  define r1 where "r1 = r\<lparr>round := round r + 1, round_unsent := True,
    confirmed := (confirmed r)[self_id r := round r + 1]\<rparr>"
  let ?m = "ConfirmView (view_number r) (round r + 1)"
  from start have r': "r' = send_to_others r1 ?m" and len: "self_id r < length (confirmed r)"
    by (auto simp: start_round_def Let_def r1_def bind_eq_Some_conv)
  have mail: "mailed (\<lambda>m. m = ?m) r1 r'" unfolding r' by (rule mailed_send_to_others) simp
  then obtain e ob where fr: "r' = r1\<lparr>outbox_early := e, outbox := ob\<rparr>" by (rule mailedE)
  show same: "round r' = round r + 1" "round_unsent r'" "queries r' = queries r"
    "waiting r' = waiting r" "status r' = status r" "is_primary r' = is_primary r"
    "commit_number r' = commit_number r" "view_start_op r' = view_start_op r"
    "round_confirmed r' = round_confirmed r"
    by (simp_all add: fr r1_def is_primary_def primary_id_def)
  have conf: "confirmed r' = (confirmed r)[self_id r := round r + 1]" "self_id r' = self_id r"
    "config r' = config r" "view_number r' = view_number r"
    by (simp_all add: fr r1_def)
  have early: "\<forall>i < replica_count (config r). i \<noteq> self_id r \<longrightarrow> (i, ?m) \<in> set (outbox_early r')"
    using send_to_others_early [of _ r1 ?m] by (simp add: r' r1_def)
  have "rounds_inv r'"
    using inv(3) room early len set_update_subset_insert [of "confirmed r" "self_id r" "round r + 1"]
    unfolding rounds_inv_def same conf by (fastforce simp: le_Suc_eq)
  then have "query_inv r'" using inv(3) by (fastforce simp: query_inv_def rounds_inv_def same)
  moreover have "loose r0 r1"
    using inv(1) by (rule loose_upd) (use inv(1) in \<open>simp_all add: r1_def loose_def shape_inv_def\<close>)
  then have "loose r0 r'" using mail by (rule mailed_loose) simp
  moreover have "view_inv r'" using inv(2) by (rule view_inv_upd) (simp_all add: fr r1_def)
  moreover have "stamp r' = stamp r" by (simp add: stamp_def fr r1_def op_number_def)
  then have "stamp r0 \<le> stamp r'" using inv(4) by simp
  ultimately show "good r0 r'" by (intro loose_good)
qed

lemma send_waiting: "send (r\<lparr>waiting := w\<rparr>) i m = (send r i m)\<lparr>waiting := w\<rparr>"
  by (simp add: send_def)

lemma send_to_others_waiting:
  "send_to_others (r\<lparr>waiting := w\<rparr>) m = (send_to_others r m)\<lparr>waiting := w\<rparr>"
proof -
  let ?f = "\<lambda>i r. if i \<noteq> self_id r then send r i m else r"
  have "fold ?f xs (r\<lparr>waiting := w\<rparr>) = (fold ?f xs r)\<lparr>waiting := w\<rparr>" for xs
    by (induction xs arbitrary: r) (simp_all add: send_waiting)
  then show ?thesis by (simp add: send_to_others_def)
qed

lemma start_round_waiting:
  "start_round (r\<lparr>waiting := w\<rparr>) = map_option (\<lambda>r. r\<lparr>waiting := w\<rparr>) (start_round r)"
proof -
  have "r\<lparr>waiting := w, round := a, round_unsent := b, confirmed := c\<rparr>
      = (r\<lparr>round := a, round_unsent := b, confirmed := c\<rparr>)\<lparr>waiting := w\<rparr>" for a b c
    by simp
  note eq = this
  have "start_round (r\<lparr>waiting := w\<rparr>) = do {
      cf \<leftarrow> set_chk (confirmed r) (self_id r) (round r + 1);
      Some ((send_to_others (r\<lparr>round := round r + 1, round_unsent := True, confirmed := cf\<rparr>)
              (ConfirmView (view_number r) (round r + 1)))\<lparr>waiting := w\<rparr>) }"
    unfolding start_round_def Let_def eq send_to_others_waiting by simp
  then have "start_round (r\<lparr>waiting := w\<rparr>) = map_option (\<lambda>r. r\<lparr>waiting := w\<rparr>)
      (do { cf \<leftarrow> set_chk (confirmed r) (self_id r) (round r + 1);
        Some (send_to_others (r\<lparr>round := round r + 1, round_unsent := True, confirmed := cf\<rparr>)
              (ConfirmView (view_number r) (round r + 1))) })"
    by (rule trans) (simp add: set_chk_def)
  then show ?thesis by (simp only: start_round_def Let_def)
qed

definition add_query ::
  "('s, 'op, 'q, 'out, 'chunk) replica \<Rightarrow> 'q waiting_query \<Rightarrow> ('s, 'op, 'q, 'out, 'chunk) replica" where
  "add_query r q = r\<lparr>waiting := insert (query_key q) (waiting r), queries := queries r @ [q]\<rparr>"

lemma add_query_query_inv:
  assumes inv: "query_inv r" and st: "status r = Normal" "is_primary r"
    and q: "query_key q \<notin> waiting r" "wq_op_number q = max (commit_number r) (view_start_op r)"
    and rd: "wq_round q = round r \<and> round_unsent r
      \<or> wq_round q = round r + 1 \<and> \<not> round_unsent r \<and> round r - round_confirmed r = ROUNDS_OUT"
  shows "query_inv (add_query r q)"
proof -
  have [simp]: "is_primary (add_query r q) = is_primary r"
    by (simp add: add_query_def is_primary_def primary_id_def)
  have below: "wq_round p \<le> wq_round q" "wq_op_number p \<le> wq_op_number q" if "p \<in> set (queries r)" for p
    using inv rd q that by (fastforce simp: query_inv_def rounds_inv_def)+
  have ri: "rounds_inv r" using inv by (simp add: query_inv_def)
  have fields: "queries (add_query r q) = queries r @ [q]" "status (add_query r q) = status r"
    "waiting (add_query r q) = insert (query_key q) (waiting r)" "round (add_query r q) = round r"
    "round_confirmed (add_query r q) = round_confirmed r" "confirmed (add_query r q) = confirmed r"
    "self_id (add_query r q) = self_id r" "commit_number (add_query r q) = commit_number r"
    "view_start_op (add_query r q) = view_start_op r" "config (add_query r q) = config r"
    "round_unsent (add_query r q) = round_unsent r" "view_number (add_query r q) = view_number r"
    "outbox_early (add_query r q) = outbox_early r"
    by (simp_all add: add_query_def)
  have "rounds_inv (add_query r q)"
    unfolding rounds_inv_def fields
  proof (intro conjI)
    show "\<forall>p\<in>set (queries r @ [q]).
        wq_op_number p \<le> max (commit_number r) (view_start_op r) \<and> wq_round p \<le> round r + 1"
      using ri q(2) rd by (auto simp: rounds_inv_def)
    show "distinct (map query_key (queries r @ [q]))"
      "insert (query_key q) (waiting r) = query_key ` set (queries r @ [q])"
      using ri q(1) by (simp_all add: rounds_inv_def)
    show "sorted (map wq_round (queries r @ [q]))" "sorted (map wq_op_number (queries r @ [q]))"
      using ri below by (simp_all add: rounds_inv_def sorted_append)
  qed (use ri st in \<open>simp_all add: rounds_inv_def\<close>)
  then show ?thesis using inv rd by (auto simp: query_inv_def fields)
qed

lemma add_query_good:
  assumes "good r0 r" and "query_inv (add_query r q)"
  shows "good r0 (add_query r q)"
proof -
  have inv: "replica_inv r" using assms(1) by (simp add: good_def)
  have "good r (add_query r q)"
  proof (rule loose_good)
    show "loose r (add_query r q)"
      using loose_refl [OF inv] by (rule loose_upd)
        (use inv in \<open>simp_all add: add_query_def replica_inv_def shape_inv_def\<close>)
    show "view_inv (add_query r q)"
      using inv unfolding replica_inv_def by (elim conjE, elim view_inv_upd) (simp_all add: add_query_def)
    show "stamp r \<le> stamp (add_query r q)" by (simp add: stamp_def add_query_def op_number_def)
  qed (rule assms)
  with assms(1) show ?thesis by (rule good_trans)
qed

text \<open>A query joins the round that is not on its way yet, starts one, or waits for the next.\<close>

lemma on_query_cases:
  assumes "on_query r c n q = Some r'"
  obtains (ignored) "r' = r"
  | (added) r2 rd where "is_primary r" and "status r = Normal" and "(c, n) \<notin> waiting r"
      and "r2 = r \<and> round_unsent r \<and> rd = round r
         \<or> \<not> round_unsent r \<and> round_confirmed r \<le> round r \<and> round r - round_confirmed r < ROUNDS_OUT
             \<and> start_round r = Some r2 \<and> rd = round r2
         \<or> r2 = r \<and> \<not> round_unsent r \<and> ROUNDS_OUT \<le> round r - round_confirmed r \<and> rd = round r + 1"
      and "waiting r2 = waiting r \<Longrightarrow>
         r' = add_query r2 \<lparr>wq_client_id = c, wq_query_number = n, wq_query = q,
            wq_op_number = max (commit_number r2) (view_start_op r2), wq_round = rd\<rparr>"
proof (cases "\<not> is_primary r \<or> status r \<noteq> Normal \<or> (c, n) \<in> waiting r")
  case True
  with assms have "r' = r" by (simp add: on_query_def)
  then show ?thesis by (rule ignored)
next
  case False
  note act = False
  let ?w = "insert (c, n) (waiting r)"
  consider (join) "round_unsent r"
    | (start) r2 where "\<not> round_unsent r" "round_confirmed r \<le> round r"
        "round r - round_confirmed r < ROUNDS_OUT" "start_round r = Some r2"
    | (wait) "\<not> round_unsent r" "ROUNDS_OUT \<le> round r - round_confirmed r"
    using assms act
    by (cases "start_round r")
      (auto simp: on_query_def Let_def checked_sub_def start_round_waiting split: if_splits)
  then show ?thesis
  proof cases
    case join
    with assms act show ?thesis
      by (intro added [of r "round r"]) (auto simp: on_query_def add_query_def query_key_def)
  next
    case start
    with assms act show ?thesis
      by (intro added [of r2 "round r2"])
        (auto simp: on_query_def add_query_def query_key_def checked_sub_def start_round_waiting)
  next
    case wait
    with assms act show ?thesis
      by (intro added [of r "round r + 1"])
        (auto simp: on_query_def add_query_def query_key_def checked_sub_def split: if_splits)
  qed
qed

lemma on_query_good:
  assumes inv: "replica_inv r" and "on_query r c n q = Some r'"
  shows "good r r'"
  using assms(2)
proof (cases rule: on_query_cases)
  case ignored
  with inv show ?thesis by (simp add: good_refl)
next
  case (added r2 rd)
  have q: "query_inv r" "rounds_inv r" "view_inv r"
    using inv by (simp_all add: replica_inv_def query_inv_def)
  show ?thesis
  proof (cases "start_round r = Some r2 \<and> \<not> round_unsent r \<and> round r - round_confirmed r < ROUNDS_OUT")
    case True
    then have s: "start_round r = Some r2" and room: "round r - round_confirmed r < ROUNDS_OUT" by auto
    note sr = start_round_good [OF loose_refl [OF inv] q(3) q(2) order_refl room s]
    have "query_inv r2" using sr(1) by (simp add: good_def replica_inv_def)
    with added True show ?thesis
      by (simp add: sr, intro add_query_good [OF sr(1)] add_query_query_inv)
        (auto simp: sr query_key_def)
  next
    case False
    with added have "r2 = r" by blast
    moreover have "round r - round_confirmed r \<le> ROUNDS_OUT" using q(2) by (simp add: rounds_inv_def)
    ultimately show ?thesis
      using added False q(1)
      by (simp, intro add_query_good [OF good_refl [OF inv]] add_query_query_inv)
        (auto simp: query_key_def)
  qed
qed

lemma execute_queries_executed: "executed 0 r (execute_queries sm r)"
proof -
  obtain k reps where eq: "execute_queries sm r = r\<lparr>queries := drop k (queries r), replies := reps,
     waiting := waiting r - (\<lambda>q. (wq_client_id q, wq_query_number q)) ` set (take k (queries r))\<rparr>"
    using execute_queries_frame [of sm r] by blast
  show ?thesis unfolding executed_def eq by (intro conjI exI [of _ k]) simp_all
qed

lemma executed_good:
  assumes "good r0 r" and "executed d r r'" and "d \<le> cap_changed (log_changed_from r) (durable r)"
  shows "good r0 r'"
proof -
  have inv: "replica_inv r" using assms(1) by (simp add: good_def)
  have "good r r'"
  proof (rule loose_good)
    show "loose r r'" using loose_refl [OF inv] assms(2,3) by (rule executed_loose)
    show "view_inv r'" "query_inv r'"
      using inv assms(2) by (auto simp: replica_inv_def intro: executed_view_inv executed_query_inv)
    show "stamp r \<le> stamp r'" by (simp add: same_logD [OF executed_same_log [OF assms(2)]])
  qed
  with assms(1) show ?thesis by (rule good_trans)
qed

lemma execute_queries_good: "good r0 r \<Longrightarrow> good r0 (execute_queries sm r)"
  by (rule executed_good [OF _ execute_queries_executed]) simp_all

text \<open>Confirmations recorded, the rounds a quorum has confirmed counted.\<close>

definition confirming ::
  "('s, 'op, 'q, 'out, 'chunk) replica \<Rightarrow> nat list \<Rightarrow> nat \<Rightarrow> ('s, 'op, 'q, 'out, 'chunk) replica" where
  "confirming r cf rc = r\<lparr>confirmed := cf, round_confirmed := rc\<rparr>"

lemma confirming_loose:
  assumes "replica_inv r" and "length cf = length (confirmed r)"
  shows "loose r (confirming r cf rc)" "view_inv (confirming r cf rc)"
    "stamp (confirming r cf rc) = stamp r"
proof -
  show "loose r (confirming r cf rc)"
    using loose_refl [OF assms(1)] by (rule loose_upd)
      (use assms in \<open>simp_all add: confirming_def replica_inv_def shape_inv_def\<close>)
  have "view_inv r" using assms(1) by (simp add: replica_inv_def)
  then show "view_inv (confirming r cf rc)" by (rule view_inv_upd) (simp_all add: confirming_def)
  show "stamp (confirming r cf rc) = stamp r" by (simp add: confirming_def stamp_def op_number_def)
qed

lemma confirming_rounds_inv:
  assumes "rounds_inv r" and "i < length (confirmed r)" and "i \<noteq> self_id r" and "rd \<le> round r"
    and "round_confirmed r \<le> rc" and "rc \<le> round r"
  shows "rounds_inv (confirming r ((confirmed r)[i := rd]) rc)"
proof -
  have "\<forall>x\<in>set ((confirmed r)[i := rd]). x \<le> round r"
    using assms(1,4) set_update_subset_insert [of "confirmed r" i rd] by (auto simp: rounds_inv_def)
  moreover have "is_primary (confirming r ((confirmed r)[i := rd]) rc) = is_primary r"
    by (simp add: confirming_def is_primary_def primary_id_def)
  moreover have "round r - rc \<le> ROUNDS_OUT" using assms(1,5) by (auto simp: rounds_inv_def)
  ultimately show ?thesis using assms by (simp add: rounds_inv_def confirming_def)
qed

lemma sorted_last_ge: "sorted (map f xs) \<Longrightarrow> x \<in> set xs \<Longrightarrow> f x \<le> f (last xs)"
  by (induction xs) auto

lemma on_confirm_view_good: "replica_inv r \<Longrightarrow> good r (on_confirm_view r v rd)"
  by (auto simp: on_confirm_view_def good_refl intro!: mailed_good [where Q = "backed_by (stamp r)"])

lemma on_confirm_view_ok_good:
  assumes inv: "replica_inv r" and step: "on_confirm_view_ok sm r v rd i = Some r'"
  shows "good r r'"
proof (cases "v \<noteq> view_number r \<or> \<not> is_primary r \<or> status r \<noteq> Normal
         \<or> length (confirmed r) \<le> i \<or> round r < rd \<or> rd \<le> confirmed r ! i")
  case True
  with inv step show ?thesis by (simp add: on_confirm_view_ok_def good_refl)
next
  case False
  let ?cf = "(confirmed r)[i := rd]"
  let ?rc = "quorum_mark (cfg_quorum (config r)) ?cf"
  let ?r2 = "confirming r ?cf ?rc"
  have ri: "rounds_inv r" and qi: "query_inv r" using inv by (simp_all add: replica_inv_def query_inv_def)
  have i: "i < length (confirmed r)" "i \<noteq> self_id r" "rd \<le> round r"
    using False ri by (auto simp: rounds_inv_def)
  have "x \<le> round r" if "x \<in> set ?cf" for x
    using that ri i(3) set_update_subset_insert [of "confirmed r" i rd] by (auto simp: rounds_inv_def)
  then have rc: "?rc \<le> round r" by (rule quorum_mark_le)
  note cl = confirming_loose [OF inv, of ?cf, simplified]
  show ?thesis
  proof (cases "?rc \<le> round_confirmed r")
    case True
    let ?r1 = "confirming r ?cf (round_confirmed r)"
    have "rounds_inv ?r1" using ri i by (intro confirming_rounds_inv) (simp_all add: rounds_inv_def)
    then have "query_inv ?r1" using qi by (auto simp: query_inv_def confirming_def)
    then have "good r ?r1" by (intro loose_good cl) (simp_all add: cl)
    moreover have "r' = r\<lparr>confirmed := ?cf\<rparr>"
      using True False step by (simp add: on_confirm_view_ok_def Let_def)
    then have "r' = ?r1" by (simp add: confirming_def)
    ultimately show ?thesis by simp
  next
    case more: False
    then have ri2: "rounds_inv ?r2" using ri i rc by (intro confirming_rounds_inv) simp_all
    have "do { r3 \<leftarrow> (if queries ?r2 \<noteq> [] \<and> round ?r2 < wq_round (last (queries ?r2))
        then start_round ?r2 else Some ?r2); Some (execute_queries sm r3) } = Some r'"
      using more False step unfolding confirming_def
      by (simp add: on_confirm_view_ok_def Let_def split del: if_split)
    then obtain r3 where
      r3: "(if queries ?r2 \<noteq> [] \<and> round ?r2 < wq_round (last (queries ?r2)) then start_round ?r2 else Some ?r2)
         = Some r3" and r': "r' = execute_queries sm r3"
      unfolding bind_eq_Some_conv option.inject by blast
    have "good r r3"
    proof (cases "queries ?r2 \<noteq> [] \<and> round ?r2 < wq_round (last (queries ?r2))")
      case True
      have "round ?r2 - round_confirmed ?r2 < ROUNDS_OUT"
        using more ri rc by (auto simp: confirming_def rounds_inv_def)
      then show ?thesis using start_round_good(1) [OF cl(1,2) ri2] r3 True by (simp add: cl(3))
    next
      case False
      then have "wq_round q \<le> round ?r2" if "q \<in> set (queries ?r2)" for q
        using that sorted_last_ge [of wq_round "queries ?r2" q] ri2
        by (cases "queries ?r2 = []") (auto simp: rounds_inv_def)
      then have "query_inv ?r2" using ri2 by (fastforce simp: query_inv_def)
      then have "good r ?r2" by (intro loose_good cl) (simp_all add: cl)
      with r3 False show ?thesis by auto
    qed
    then show ?thesis unfolding r' by (rule execute_queries_good)
  qed
qed

end
