(* ===== verification/VSR_ViewHandlers.thy ===== *)
theory VSR_ViewHandlers
  imports VSR_Handlers
begin

text \<open>
  The handlers of view changes keep the replica's invariant and advance its state.
\<close>

section \<open>Installing a segment\<close>

lemma install_segment_from_commit_cases:
  assumes "install_segment_from_commit r seg = Some (r1, inst)"
  obtains (merged) n es where "inst = ILog" and "merge_log r n es = Some r1"
      and "n = seg_start seg" and "es = seg_entries seg" and "n \<le> commit_number r"
  | (checkpoint) n where "inst = ICheckpoint seg" and "r1 = r"
      and "seg_base seg = BaseCheckpoint n" and "commit_number r < n"
  | (nothing) n where "inst = INothing" and "r1 = r" and "seg_base seg = BaseOp n" and "commit_number r < n"
  using assms
  by (auto simp: install_segment_from_commit_def seg_start_def bind_eq_Some_conv
      split: log_base.splits if_splits)

lemma install_segment_in_view_cases:
  assumes "install_segment_in_view r seg = Some (r1, inst)"
  obtains (merged) n es where "inst = ILog" and "merge_log r n es = Some r1"
      and "n = seg_start seg" and "es = seg_entries seg" and "n \<le> op_number r" and "op_number r < seg_end seg"
  | (checkpoint) n where "inst = ICheckpoint seg" and "r1 = r"
      and "seg_base seg = BaseCheckpoint n" and "op_number r < n"
  | (nothing) "inst = INothing" and "r1 = r"
  using assms
  by (auto simp: install_segment_in_view_def seg_start_def bind_eq_Some_conv
      split: log_base.splits if_splits)

section \<open>Starting a view\<close>

lemma catching_up_good:
  assumes "replica_inv r" and "status r = ViewChange"
  shows "good r (r\<lparr>catching_up := Some i\<rparr>)"
proof (rule loose_good)
  let ?r = "r\<lparr>catching_up := Some i\<rparr>"
  show "loose r ?r"
    using loose_refl [OF assms(1)] by (rule loose_upd)
      (use assms(1) in \<open>simp_all add: replica_inv_def shape_inv_def\<close>)
  have "resume_ok r x \<Longrightarrow> resume_ok ?r x" for x
    by (cases x) (auto simp: op_number_def)
  then show "view_inv ?r"
    using assms by (auto simp: replica_inv_def view_inv_def)
  show "query_inv ?r"
    using assms(1) by (simp add: replica_inv_def query_inv_def rounds_inv_def is_primary_def primary_id_def)
  show "stamp r \<le> stamp ?r" by (simp add: stamp_def op_number_def)
qed

lemma catch_up_from_good:
  assumes "replica_inv r" and "status r = ViewChange"
  shows "good r (send_get_state_to (r\<lparr>catching_up := Some i\<rparr>) i n)"
  by (rule mailed_good_trans [OF catching_up_good [OF assms]]) auto

text \<open>A log merged and committed, and then a view entered.\<close>

lemma merge_commit_loose:
  assumes "loose r0 r" and "merge_log r n es = Some r1"
    and "commit_up_to sm (r1\<lparr>view_number := v\<rparr>) k rep = Some r2" and "view_number r \<le> v"
  shows "loose r0 r2" and "view_number r2 = v" and "op_number r2 = op_number r1"
proof -
  note same = merge_log_same [OF assms(2)] and same2 = same_logD [OF commit_up_to_same_log [OF assms(3)]]
  show "view_number r2 = v" "op_number r2 = op_number r1" by (simp_all add: same2 op_number_def)
  have l: "loose r0 r1" using assms(1,2) by (rule merge_log_loose)
  then have "loose r0 (r1\<lparr>view_number := v\<rparr>)"
    by (rule loose_upd) (use l assms(4) same in \<open>simp_all add: loose_def shape_inv_def\<close>)
  then show "loose r0 r2" using assms(3) by (rule commit_up_to_loose)
qed

lemma try_start_view_good:
  assumes inv: "replica_inv r" and st: "status r = ViewChange" and step: "try_start_view sm r = Some r'"
  shows "good r r'"
proof -
  from step obtain b best r1 inst where "best_log (do_view_change_from r) = Some (b, best)" and
    inst: "install_segment_from_commit r (dvc_segment best) = Some (r1, inst)"
    and r': "(if inst \<noteq> ILog
     then Some (send_get_state_to (r1\<lparr>catching_up := Some b\<rparr>) b (commit_number r1))
     else do {
       let k = max_or_0 (map (\<lambda>b. dvc_commit_number (snd b)) (do_view_change_from r1));
       r \<leftarrow> commit_up_to sm r1 k True;
       let r = enter_normal r;
       Some (fold (\<lambda>i r. if i \<noteq> self_id r then send_start_view r i else r)
               [0..<replica_count (config r)] r) }) = Some r'"
    unfolding try_start_view_def bind_eq_Some_conv split_paired_Ex prod.case by (elim exE conjE) (rule that)
  from inst show ?thesis
  proof (cases rule: install_segment_from_commit_cases)
    case (merged n es)
    with r' obtain k r2 where c: "commit_up_to sm r1 k True = Some r2"
      and r': "r' = fold (\<lambda>i r. if i \<noteq> self_id r then send_start_view r i else r)
               [0..<replica_count (config (enter_normal r2))] (enter_normal r2)"
      by (auto simp: Let_def bind_eq_Some_conv)
    have v: "view_number r1 = view_number r" using merge_log_same [OF merged(2)] by simp
    from c have c': "commit_up_to sm (r1\<lparr>view_number := view_number r\<rparr>) k True = Some r2"
      unfolding v [symmetric] by simp
    note m = merge_commit_loose [OF loose_refl [OF inv] merged(2) c' order_refl]
    have "good r (enter_normal r2)"
      using m(1) by (rule enter_normal_good) (simp add: m(2) stamp_def st)
    moreover have "mailed (backed_by (stamp (enter_normal r2))) (enter_normal r2) r'"
      unfolding r' by (rule mailed_start_views) simp
    ultimately show ?thesis by (rule mailed_good_trans)
  qed (use r' catch_up_from_good [OF inv st] in auto)
qed

lemma record_do_view_change_good:
  assumes "replica_inv r" and "status r = ViewChange" and "record_do_view_change sm r i dvc = Some r'"
  shows "good r r'"
proof -
  let ?r1 = "r\<lparr>do_view_change_from := bt_insert i dvc (do_view_change_from r)\<rparr>"
  have g: "good r ?r1" using assms(1) by (rule core_good) simp
  then have "replica_inv ?r1" by (simp add: good_def)
  with g assms(2,3) show ?thesis
    using good_trans [OF g try_start_view_good [of ?r1]]
    by (auto simp: record_do_view_change_def Let_def split: if_splits)
qed

lemma send_do_view_change_good:
  assumes "replica_inv r" and "status r = ViewChange" and "send_do_view_change sm r = Some r'"
  shows "good r r'"
proof (cases "cfg_primary_id (config r) (view_number r) = self_id r")
  case True
  with assms show ?thesis
    by (auto simp: send_do_view_change_def Let_def intro: record_do_view_change_good)
next
  case False
  with assms(3) have "mailed (backed_by (stamp r)) r r'"
    by (auto simp: send_do_view_change_def Let_def)
  with assms(1) show ?thesis by (rule mailed_good)
qed

lemma maybe_send_do_view_change_good:
  assumes "replica_inv r" and "maybe_send_do_view_change sm r = Some r'"
  shows "good r r'"
proof -
  let ?r1 = "r\<lparr>do_view_change_sent := True\<rparr>"
  have g: "good r ?r1" using assms(1) by (rule core_good) simp
  then have "replica_inv ?r1" by (simp add: good_def)
  then show ?thesis
    using assms good_trans [OF g send_do_view_change_good [of ?r1]]
    by (auto simp: maybe_send_do_view_change_def good_refl split: if_splits)
qed

text \<open>Nobody is known to agree yet when a view change starts, so only the announcement goes out.\<close>

definition announced ::
  "('s, 'op, 'q, 'out, 'chunk) replica \<Rightarrow> ViewNumber \<Rightarrow> ('s, 'op, 'q, 'out, 'chunk) replica" where
  "announced r v = (let r1 = leave_view (if status r = ViewChange
       then r\<lparr>view_change_attempts := view_change_attempts r + 1\<rparr> else r) v None
     in send_to_others r1 (StartViewChange v (self_id r1)))"

lemma announced_mailed:
  "mailed (\<lambda>m. \<exists>i. m = StartViewChange v i) (leave_view (if status r = ViewChange
       then r\<lparr>view_change_attempts := view_change_attempts r + 1\<rparr> else r) v None) (announced r v)"
  unfolding announced_def Let_def by (rule mailed_send_to_others) simp

lemma announced_fields:
  "status (announced r v) = ViewChange" "view_number (announced r v) = v"
  "start_view_change_from (announced r v) = {}" "catching_up (announced r v) = None"
  "config (announced r v) = config r" "self_id (announced r v) = self_id r"
  using announced_mailed [of v r]
  by (auto elim!: mailedE simp: leave_view_def clear_view_change_state_def)

lemma start_view_change_announced:
  assumes "shape_inv r"
  shows "start_view_change sm r v = Some (announced r v)"
proof -
  have "1 \<le> replica_count (config r) div 2" using assms unfolding shape_inv_def by linarith
  then have "maybe_send_do_view_change sm (announced r v) = Some (announced r v)"
    by (simp add: maybe_send_do_view_change_def announced_fields)
  then show ?thesis by (simp add: start_view_change_split announced_def Let_def)
qed

lemma announced_good:
  assumes "loose r0 r" and "last_normal_view r < v" and "view_number r \<le> v" and "stamp r0 \<le> (v, 0)"
  shows "good r0 (announced r v)"
proof -
  let ?r1 = "if status r = ViewChange then r\<lparr>view_change_attempts := view_change_attempts r + 1\<rparr> else r"
  have "loose r0 ?r1"
    using assms(1) by (rule loose_upd)
      (use assms(1) in \<open>simp_all add: loose_def shape_inv_def split: if_splits\<close>)
  then have "good r0 (leave_view ?r1 v None)" by (rule leave_view_good) (use assms in simp_all)
  then show ?thesis by (rule mailed_good_trans [OF _ announced_mailed]) auto
qed

lemma start_view_change_good:
  assumes inv: "replica_inv r" and v: "view_number r < v" and step: "start_view_change sm r v = Some r'"
  shows "good r r'" and "status r' = ViewChange" and "view_number r' = v"
proof -
  have r': "r' = announced r v"
    using start_view_change_announced [of r sm v] inv step by (simp add: replica_inv_def)
  then show "status r' = ViewChange" "view_number r' = v" by (simp_all add: announced_fields)
  show "good r r'" unfolding r'
    by (rule announced_good [OF loose_refl [OF inv]])
      (use inv v in \<open>auto simp: stamp_def replica_inv_def view_inv_def\<close>)
qed

section \<open>Handlers\<close>

lemma send_start_view_good: "replica_inv r \<Longrightarrow> good r (send_start_view r i)"
  by (rule mailed_good [where Q = "backed_by (stamp r)"]) auto

lemma on_start_view_change_good:
  assumes inv: "replica_inv r" and step: "on_start_view_change sm r v i = Some r'"
  shows "good r r'"
proof (cases "v < view_number r \<or> v = view_number r \<and> status r \<noteq> ViewChange")
  case True
  with inv step show ?thesis
    by (auto simp: on_start_view_change_def good_refl send_start_view_good split: if_splits)
next
  case False
  with step obtain r1 where
    r1: "(if view_number r < v then start_view_change sm r v else Some r) = Some r1" and
    r': "maybe_send_do_view_change sm
          (r1\<lparr>start_view_change_from := insert i (start_view_change_from r1)\<rparr>) = Some r'"
    by (auto simp: on_start_view_change_def bind_eq_Some_conv split: if_splits)
  have "good r r1"
    using start_view_change_good(1) [OF inv] r1 inv by (auto simp: good_refl split: if_splits)
  then have g: "good r (r1\<lparr>start_view_change_from := insert i (start_view_change_from r1)\<rparr>)" (is "good r ?r2")
    by (rule core_good_trans) simp
  then have "replica_inv ?r2" by (simp add: good_def)
  from good_trans [OF g maybe_send_do_view_change_good [OF this r']] show ?thesis .
qed

lemma on_do_view_change_good:
  assumes inv: "replica_inv r" and act: "status r \<noteq> Recovering"
    and step: "on_do_view_change sm r v i dvc = Some r'"
  shows "good r r'"
proof (cases "v < view_number r \<or> cfg_primary_id (config r) v \<noteq> self_id r
    \<or> v = view_number r \<and> status r = Normal")
  case True
  with inv step show ?thesis
    by (auto simp: on_do_view_change_def good_refl send_start_view_good split: if_splits)
next
  case False
  with step obtain r1 where
    r1: "(if view_number r < v then start_view_change sm r v else Some r) = Some r1" and
    r': "record_do_view_change sm r1 i dvc = Some r'"
    by (auto simp: on_do_view_change_def bind_eq_Some_conv split: if_splits)
  have "status r \<noteq> StateTransfer" if "v = view_number r"
    using inv False that by (auto simp: replica_inv_def view_inv_def is_primary_def primary_id_def)
  with False act have "status r = ViewChange" if "v = view_number r"
    using that by (cases "status r") auto
  then have "good r r1 \<and> status r1 = ViewChange"
    using start_view_change_good [OF inv] r1 inv False by (auto simp: good_refl split: if_splits)
  moreover from this have "replica_inv r1" by (simp add: good_def)
  ultimately show ?thesis using r' good_trans record_do_view_change_good by blast
qed

lemma on_start_view_good:
  assumes inv: "replica_inv r" and step: "on_start_view sm r v seg k = Some r'"
  shows "good r r'"
proof (cases "v < view_number r \<or> v = view_number r \<and> status r \<noteq> ViewChange")
  case True
  with inv step show ?thesis by (auto simp: on_start_view_def good_refl)
next
  case False
  then have v: "view_number r < v \<or> v = view_number r \<and> status r = ViewChange" by auto
  from False step obtain r1 inst where
    inst: "install_segment_from_commit r seg = Some (r1, inst)"
    and r': "(if inst \<noteq> ILog then Some (catch_up_with_view r1 v)
        else do {
          r \<leftarrow> commit_up_to sm (r1\<lparr>view_number := v\<rparr>) k False;
          Some (send_prepare_ok (enter_normal r)) }) = Some r'"
    by (auto simp: on_start_view_def bind_eq_Some_conv split: if_splits)
  from inst show ?thesis
  proof (cases rule: install_segment_from_commit_cases)
    case (merged n es)
    with r' obtain r2 where c: "commit_up_to sm (r1\<lparr>view_number := v\<rparr>) k False = Some r2"
      and r': "r' = send_prepare_ok (enter_normal r2)"
      by (auto simp: bind_eq_Some_conv)
    note m = merge_commit_loose [OF loose_refl [OF inv] merged(2) c]
    have "good r (enter_normal r2)"
      by (rule enter_normal_good) (use m v in \<open>auto simp: stamp_def\<close>)
    then show ?thesis unfolding r' by (rule send_prepare_ok_good) (simp add: enter_normal_simps)
  qed (use r' catch_up_with_view_good [OF inv v] in auto)
qed

end
