(* ===== verification/VSR_TransferHandlers.thy ===== *)
theory VSR_TransferHandlers
  imports VSR_ViewHandlers
begin

text \<open>
  The handlers of state transfer, checkpoints and recovery keep the replica's invariant and
  advance its state.
\<close>

section \<open>Serving a checkpoint\<close>

lemma serving_good:
  assumes "replica_inv r" and "\<And>n k. sv = Some (n, k) \<Longrightarrow> log_start r \<le> n \<and> n \<le> applied r"
  shows "good r (r\<lparr>state_machine := s, serving := sv\<rparr>)" (is "good r ?r")
proof (rule loose_good)
  have op: "op_number ?r = op_number r" "is_primary ?r = is_primary r"
    by (simp_all add: op_number_def is_primary_def primary_id_def)
  have "log_inv ?r" using assms by (simp add: replica_inv_def log_inv_def op)
  then show "loose r ?r"
    using loose_refl [OF assms(1)]
    by (simp add: loose_def shape_inv_def mail_at_def advances_log_def clean_def op_number_def entry_def)
  show "view_inv ?r"
    using assms(1) unfolding replica_inv_def by (elim conjE, elim view_inv_upd) simp_all
  show "query_inv ?r" using assms(1) by (simp add: replica_inv_def query_inv_def rounds_inv_def op)
  show "stamp r \<le> stamp ?r" by (simp add: stamp_def op)
qed

lemma keep_checkpoint_good:
  assumes "replica_inv r" and "keep_checkpoint sm r = Some (r', n)"
  shows "good r r'" and "log_start r' = log_start r" and "n \<le> applied r" and "log_start r \<le> n"
proof -
  obtain s k0 where cp: "sm_checkpoint sm (state_machine r) = (s, k0)" by fastforce
  from assms(2) have "(\<exists>k. serving r = Some (n, k) \<and> r' = r) \<or>
      (r' = r\<lparr>state_machine := s, serving := Some (n, 0)\<rparr> \<and> log_start r \<le> n \<and> n \<le> applied r)"
    by (cases "serving r") (auto simp: keep_checkpoint_def cp split: if_splits)
  then consider (kept) k where "serving r = Some (n, k)" "r' = r"
    | (new) "r' = r\<lparr>state_machine := s, serving := Some (n, 0)\<rparr>" "log_start r \<le> n" "n \<le> applied r"
    by blast
  then have "good r r' \<and> log_start r' = log_start r \<and> n \<le> applied r \<and> log_start r \<le> n"
  proof cases
    case kept
    then show ?thesis using assms(1) by (auto simp: good_refl replica_inv_def log_inv_def)
  next
    case new
    then show ?thesis using serving_good [OF assms(1), of "Some (n, 0)"] by simp
  qed
  then show "good r r'" "log_start r' = log_start r" "n \<le> applied r" "log_start r \<le> n" by simp_all
qed

lemma segment_from_good:
  assumes "replica_inv r" and "segment_from sm r n = Some (r', seg)"
  shows "good r r'"
  using assms keep_checkpoint_good(1) [OF assms(1)]
  by (auto simp: segment_from_def good_refl bind_eq_Some_conv split: if_splits)

lemma on_get_state_good:
  assumes "replica_inv r" and "on_get_state sm r i v n = Some r'"
  shows "good r r'"
proof (cases "v \<noteq> view_number r \<or> op_number r < n \<or> \<not> settled r")
  case True
  with assms show ?thesis by (simp add: on_get_state_def good_refl)
next
  case False
  with assms(2) obtain r1 seg where "segment_from sm r n = Some (r1, seg)"
    and r': "r' = send r1 i (NewState (self_id r1) v seg (commit_number r1))"
    by (auto simp: on_get_state_def bind_eq_Some_conv)
  then have "good r r1" using assms(1) by (blast intro: segment_from_good)
  then show ?thesis unfolding r' by (rule mailed_good_trans) auto
qed

lemma on_get_chunk_good:
  assumes "replica_inv r" and "on_get_chunk sm r i n ix = Some r'"
  shows "good r r'"
proof (cases "\<exists>k. serving r = Some (n, k)")
  case False
  with assms show ?thesis by (auto simp: on_get_chunk_def good_refl split: option.splits)
next
  case True
  let ?r1 = "r\<lparr>state_machine := state_machine r, serving := Some (n, 0)\<rparr>"
  have g: "good r ?r1"
    using True assms(1) by (intro serving_good) (auto simp: replica_inv_def log_inv_def)
  from True assms(2) obtain chunk l where "r' = send ?r1 i (NewChunk (self_id r) n ix chunk l)"
    by (auto simp: on_get_chunk_def bind_eq_Some_conv Let_def)
  with g show ?thesis using mailed_good_trans [OF g mailed_send, of "backed_by (stamp ?r1)"] by simp
qed

lemma serve_on_idle_good:
  assumes "replica_inv r" and "serve_on_idle sm r = Some r'"
  shows "good r r'"
proof (cases "serving r")
  case None
  with assms show ?thesis by (simp add: serve_on_idle_def good_refl)
next
  case (Some p)
  then obtain n k where p: "serving r = Some (n, k)" by (cases p) simp
  from assms(2) p obtain s sv where r': "r' = r\<lparr>state_machine := s, serving := sv\<rparr>"
    and sv: "sv = None \<or> sv = Some (n, k + 1)"
  proof (cases "2 * cfg_primary_timeout (config r) \<le> k + 1")
    case True
    with assms(2) p obtain s where "r' = r\<lparr>serving := None, state_machine := s\<rparr>"
      by (auto simp: serve_on_idle_def bind_eq_Some_conv)
    then have "r' = r\<lparr>state_machine := s, serving := None\<rparr>" by simp
    then show ?thesis by (rule that) simp
  next
    case False
    with assms(2) p have "r' = r\<lparr>state_machine := state_machine r, serving := Some (n, k + 1)\<rparr>"
      by (simp add: serve_on_idle_def)
    then show ?thesis by (rule that) simp
  qed
  show ?thesis unfolding r'
    using assms(1) sv p by (intro serving_good) (auto simp: replica_inv_def log_inv_def)
qed

section \<open>Fetching a checkpoint\<close>

lemma resume_ok_fetch [simp]: "resume_ok (r\<lparr>fetch := f\<rparr>) x = resume_ok r x"
  by (cases x) (simp_all add: op_number_def)

lemma fetch_good:
  assumes "replica_inv r" and "\<And>ft. f = Some ft \<Longrightarrow> resume_ok r (ft_then ft)"
  shows "good r (r\<lparr>fetch := f\<rparr>)" (is "good r ?r")
proof (rule loose_good)
  have op: "op_number ?r = op_number r" "is_primary ?r = is_primary r"
    by (simp_all add: op_number_def is_primary_def primary_id_def)
  show "loose r ?r"
    using loose_refl [OF assms(1)] by (rule loose_upd)
      (use assms(1) in \<open>simp_all add: replica_inv_def shape_inv_def\<close>)
  show "view_inv ?r" using assms by (simp add: replica_inv_def view_inv_def op)
  show "query_inv ?r" using assms(1) by (simp add: replica_inv_def query_inv_def rounds_inv_def op)
  show "stamp r \<le> stamp ?r" by (simp add: stamp_def op)
qed

lemma send_get_chunk_good: "good r0 r \<Longrightarrow> good r0 (send_get_chunk r)"
  by (rule mailed_good_trans [where Q = "backed_by (stamp r)"]) auto

lemma start_fetch_good:
  assumes "replica_inv r" and "resume_ok r res"
  shows "good r (start_fetch r i res)"
  using assms
  by (auto simp: start_fetch_def begin_fetch_def good_refl Let_def
      intro!: send_get_chunk_good fetch_good split: option.splits)

lemma fetch_on_idle_good:
  assumes "replica_inv r" and "fetch_on_idle r = (r', b)"
  shows "good r r'"
proof -
  have "resume_ok r (ft_then ft)" if "fetch r = Some ft" for ft
    using assms(1) that by (simp add: replica_inv_def view_inv_def)
  then show ?thesis
    using assms by (auto simp: fetch_on_idle_def Let_def good_refl
        intro!: send_get_chunk_good fetch_good split: option.splits if_splits)
qed

lemma fetch_on_idle_same:
  assumes "fetch_on_idle r = (r', b)"
  shows "status r' = status r" "catching_up r' = catching_up r" "view_number r' = view_number r"
    "is_primary r' = is_primary r" "do_view_change_sent r' = do_view_change_sent r"
  using assms
  by (auto simp: fetch_on_idle_def Let_def send_get_chunk_def send_def is_primary_def primary_id_def
      split: option.splits if_splits)

section \<open>Installing what was fetched\<close>

lemma status_normal_good:
  assumes "replica_inv r" and "status r = StateTransfer" and "fetch r = None"
  shows "good r (r\<lparr>status := Normal\<rparr>)" (is "good r ?r")
proof (rule loose_good)
  have op: "op_number ?r = op_number r" "is_primary ?r = is_primary r"
    by (simp_all add: op_number_def is_primary_def primary_id_def)
  show "loose r ?r"
    using loose_refl [OF assms(1)] by (rule loose_upd)
      (use assms(1) in \<open>simp_all add: replica_inv_def shape_inv_def\<close>)
  show "view_inv ?r" using assms by (simp add: replica_inv_def view_inv_def op)
  show "query_inv ?r" using assms(1) by (auto simp: replica_inv_def query_inv_def rounds_inv_def op)
  show "stamp r \<le> stamp ?r" using assms(2) by (simp add: stamp_def op)
qed

lemma stop_catching_up_good:
  assumes "replica_inv r" and "fetch r = None"
  shows "good r (r\<lparr>catching_up := None\<rparr>)" (is "good r ?r")
proof (rule loose_good)
  have op: "op_number ?r = op_number r" "is_primary ?r = is_primary r"
    by (simp_all add: op_number_def is_primary_def primary_id_def)
  show "loose r ?r"
    using loose_refl [OF assms(1)] by (rule loose_upd)
      (use assms(1) in \<open>simp_all add: replica_inv_def shape_inv_def\<close>)
  show "view_inv ?r" using assms by (simp add: replica_inv_def view_inv_def op)
  show "query_inv ?r" using assms(1) by (simp add: replica_inv_def query_inv_def rounds_inv_def op)
  show "stamp r \<le> stamp ?r" by (simp add: stamp_def op)
qed

lemma new_state_installed_good:
  assumes g: "good r0 (r\<lparr>fetch := None\<rparr>)" and step: "new_state_installed sm r k = Some r'"
  shows "good r0 r'"
proof -
  let ?r1 = "r\<lparr>fetch := None\<rparr>"
  have inv1: "replica_inv ?r1" using g by (simp add: good_def)
  show ?thesis
  proof (cases "status r")
    case StateTransfer
    with step obtain r2 where c: "commit_up_to sm ?r1 k False = Some r2"
      and r': "r' = send_prepare_ok (r2\<lparr>status := Normal\<rparr>)"
      by (auto simp: new_state_installed_def Let_def bind_eq_Some_conv)
    have g2: "good r0 r2"
      using g commit_up_to_good [OF inv1 _ _ c] StateTransfer by (simp add: good_trans)
    then have "replica_inv r2" by (simp add: good_def)
    moreover note same = same_logD [OF commit_up_to_same_log [OF c]]
    ultimately have "good r2 (r2\<lparr>status := Normal\<rparr>)"
      using StateTransfer by (intro status_normal_good) simp_all
    with g2 have "good r0 (r2\<lparr>status := Normal\<rparr>)" by (rule good_trans)
    then show ?thesis unfolding r' by (rule send_prepare_ok_good) simp
  next
    case ViewChange
    let ?r2 = "?r1\<lparr>catching_up := None\<rparr>"
    have g2: "good r0 ?r2" using g stop_catching_up_good [OF inv1] by (auto intro: good_trans)
    then have inv2: "replica_inv ?r2" by (simp add: good_def)
    show ?thesis
    proof (cases "is_primary ?r2 \<and> cfg_quorum (config ?r2) \<le> length (do_view_change_from ?r2)")
      case True
      with step ViewChange have "try_start_view sm ?r2 = Some r'"
        by (simp add: new_state_installed_def Let_def)
      then show ?thesis
        using good_trans [OF g2 try_start_view_good [OF inv2]] ViewChange by simp
    next
      case False
      with step ViewChange obtain r3 where c: "commit_up_to sm ?r2 k False = Some r3"
        and r': "r' = send_prepare_ok (enter_normal r3)"
        unfolding new_state_installed_def by (auto simp: Let_def bind_eq_Some_conv)
      note same = same_logD [OF commit_up_to_same_log [OF c]]
      have "good r0 (enter_normal r3)"
        by (rule good_trans [OF g2 enter_normal_good [OF commit_up_to_loose [OF loose_refl [OF inv2] c]]])
          (simp add: same stamp_def ViewChange)
      then show ?thesis unfolding r' by (rule send_prepare_ok_good) (simp add: enter_normal_simps)
    qed
  qed (use step in \<open>simp_all add: new_state_installed_def\<close>)
qed

lemma merge_log_query_inv:
  assumes "query_inv r" and "merge_log r n es = Some r'"
  shows "query_inv r'"
  by (rule merge_log_frame [OF assms(2)])
    (use assms(1) in \<open>simp add: query_inv_def rounds_inv_def is_primary_def primary_id_def\<close>)

lemma merge_log_good:
  assumes l: "loose r0 r" and q: "query_inv r" and v: "view_inv (r\<lparr>fetch := None\<rparr>)"
    and m: "merge_log r n es = Some r1" and st: "status r \<noteq> Recovering"
    and stamp: "stamp r0 \<le> (view_number r, if status r = ViewChange then 0 else op_number r1)"
  shows "good r0 (r1\<lparr>fetch := None\<rparr>)" (is "good r0 ?r")
proof (rule loose_good)
  note same = merge_log_same [OF m]
  have l1: "loose r0 r1" using l m by (rule merge_log_loose)
  then show "loose r0 ?r"
    by (rule loose_upd) (use l1 in \<open>simp_all add: loose_def shape_inv_def\<close>)
  show "view_inv ?r" using v st by (simp add: view_inv_def same is_primary_def primary_id_def)
  show "query_inv ?r"
    using merge_log_query_inv [OF q m]
    by (simp add: query_inv_def rounds_inv_def is_primary_def primary_id_def)
  have "stamp ?r = (view_number r, if status r = ViewChange then 0 else op_number r1)"
    using st by (simp add: stamp_def same op_number_def)
  with stamp show "stamp r0 \<le> stamp ?r" by (simp only:)
qed

lemma on_new_state_good:
  assumes "replica_inv r" and "on_new_state sm r i v seg k = Some r'"
  shows "good r r'"
proof (cases "v = view_number r \<and> (status r = StateTransfer \<or> status r = ViewChange \<and> catching_up r \<noteq> None)")
  case False
  with assms show ?thesis
    by (auto simp: on_new_state_def good_refl Let_def core_good split: if_splits)
next
  case True
  let ?r1 = "r\<lparr>heard_from_primary := True\<rparr>"
  have g1: "good r ?r1" using assms(1) by (simp add: core_good)
  then have inv1: "replica_inv ?r1" by (simp add: good_def)
  have q: "query_inv ?r1" "view_inv (?r1\<lparr>fetch := None\<rparr>)"
    using inv1 by (simp_all add: replica_inv_def view_inv_def is_primary_def primary_id_def)
  have op1: "op_number ?r1 = op_number r" by (simp add: op_number_def)
  from True assms(2) obtain r2 inst where
    inst: "(if status r = StateTransfer then install_segment_in_view ?r1 seg
            else install_segment_from_commit ?r1 seg) = Some (r2, inst)"
    and r': "(case inst of ILog \<Rightarrow> new_state_installed sm r2 k | INothing \<Rightarrow> Some r2
            | ICheckpoint seg \<Rightarrow> Some (start_fetch r2 i (RNewState v seg k))) = Some r'"
    by (auto simp: on_new_state_def Let_def bind_eq_Some_conv split: if_splits)
  consider (merged) n es where "inst = ILog" "merge_log ?r1 n es = Some r2"
      "status r = StateTransfer \<longrightarrow> op_number r \<le> op_number r2"
    | (checkpoint) n where "inst = ICheckpoint seg" "r2 = ?r1" "seg_base seg = BaseCheckpoint n"
      "status r = StateTransfer \<longrightarrow> op_number r < n"
    | (nothing) "inst = INothing" "r2 = ?r1"
  proof (cases "status r = StateTransfer")
    case True
    with inst have "install_segment_in_view ?r1 seg = Some (r2, inst)" by simp
    then show ?thesis
      by (cases rule: install_segment_in_view_cases)
        (auto simp: op1 merge_log_op_number seg_start_def seg_end_def intro: that)
  next
    case False
    with inst have "install_segment_from_commit ?r1 seg = Some (r2, inst)" by simp
    then show ?thesis
      by (cases rule: install_segment_from_commit_cases) (use False in \<open>auto intro: that\<close>)
  qed
  then show ?thesis
  proof cases
    case (merged n es)
    have "good ?r1 (r2\<lparr>fetch := None\<rparr>)"
      by (rule merge_log_good [OF loose_refl [OF inv1] q merged(2)])
        (use True merged(3) in \<open>auto simp: stamp_def op1\<close>)
    with g1 have "good r (r2\<lparr>fetch := None\<rparr>)" by (rule good_trans)
    then show ?thesis by (rule new_state_installed_good) (use r' merged in simp)
  next
    case (checkpoint n)
    have "good ?r1 (start_fetch ?r1 i (RNewState v seg k))"
      by (rule start_fetch_good [OF inv1]) (use True checkpoint in \<open>auto simp: op1\<close>)
    with g1 r' checkpoint show ?thesis by (auto intro: good_trans)
  next
    case nothing
    with g1 r' show ?thesis by simp
  qed
qed

section \<open>Restoring a checkpoint\<close>

lemma restore_checkpoint_frame:
  assumes "restore_checkpoint sm r n = Some r'"
  obtains s ec k cs where "commit_number r < n" and
    "r' = r\<lparr>serving := None, commit_number := n, applied := n, reply_ranges := [], log_start := n,
            log := [], log_changed_from := lowered (log_changed_from r) (n + 1), state_machine := s,
            eviction_candidates := ec, sessions := k, clients := cs\<rparr>"
proof -
  from assms obtain s where n: "commit_number r < n" and
    reb: "rebuild_pending (load_client_table sm ((mark_log_changed (r\<lparr>serving := None, commit_number := n,
       applied := n, reply_ranges := [], log_start := n, log := []\<rparr>) (n + 1))\<lparr>state_machine := s\<rparr>)) = Some r'"
    by (auto simp: restore_checkpoint_def Let_def bind_eq_Some_conv split: if_splits)
  from rebuild_pending_frame [OF reb] obtain cs where
    "r' = (load_client_table sm ((mark_log_changed (r\<lparr>serving := None, commit_number := n,
       applied := n, reply_ranges := [], log_start := n, log := []\<rparr>) (n + 1))\<lparr>state_machine := s\<rparr>))\<lparr>clients := cs\<rparr>"
    by blast
  then have "r' = r\<lparr>serving := None, commit_number := n, applied := n, reply_ranges := [], log_start := n,
            log := [], log_changed_from := lowered (log_changed_from r) (n + 1), state_machine := s,
            eviction_candidates := [], sessions := length (sm_client_table sm s), clients := cs\<rparr>"
    by (simp add: mark_log_changed_lowered load_client_table_def Let_def)
  with n show ?thesis by (rule that)
qed

lemma restore_checkpoint_same:
  assumes "restore_checkpoint sm r n = Some r'"
  shows "status r' = status r" "view_number r' = view_number r" "fetch r' = fetch r"
    "last_normal_view r' = last_normal_view r" "config r' = config r" "self_id r' = self_id r"
    "catching_up r' = catching_up r" "commit_number r' = n" "log_start r' = n" "log r' = []"
    "applied r' = n" "op_number r' = n" "commit_number r < n" "is_primary r' = is_primary r"
  by (rule restore_checkpoint_frame [OF assms],
      simp add: op_number_def is_primary_def primary_id_def)+

lemma restore_checkpoint_loose:
  assumes l: "loose r0 r" and "restore_checkpoint sm r n = Some r'"
  shows "loose r0 r'"
  using assms(2)
proof (rule restore_checkpoint_frame)
  fix s ec k cs
  assume n: "commit_number r < n" and r':
    "r' = r\<lparr>serving := None, commit_number := n, applied := n, reply_ranges := [], log_start := n,
            log := [], log_changed_from := lowered (log_changed_from r) (n + 1), state_machine := s,
            eviction_candidates := ec, sessions := k, clients := cs\<rparr>"
  from l have li: "log_inv r" by (simp add: loose_def)
  have "1 \<le> j \<and> j \<le> n + 1" if "lowered (log_changed_from r) (n + 1) = Some j" for j
    using that by (rule lowered_bounds) (use li in \<open>auto simp: log_inv_def\<close>)
  then have "log_inv r'" using li by (simp add: log_inv_def r' op_number_def)
  moreover have "advances_log r r'"
    using n li by (auto simp: advances_log_def clean_def op_number_def r' log_inv_def)
  ultimately show ?thesis
    using l by (intro loose_trans [OF l]) (simp_all add: loose_def shape_inv_def mail_at_def r')
qed

lemma restore_checkpoint_query_inv:
  assumes "query_inv r" and "restore_checkpoint sm r n = Some r'"
  shows "query_inv r'"
  by (rule restore_checkpoint_frame [OF assms(2)], rule query_inv_raise [OF assms(1)]) simp_all

section \<open>Recovery\<close>

lemma recover_into_merged:
  assumes l: "loose r0 r" and v: "view_number r \<le> v" and st: "stamp r0 \<le> (v, commit_number r)"
    and base: "seg_start (rs_segment st) \<le> commit_number r" and step: "recover_into sm r v st = Some r'"
  shows "good r0 r'"
proof -
  from step obtain r1 inst where i: "install_segment_from_commit r (rs_segment st) = Some (r1, inst)"
    by (auto simp: recover_into_def bind_eq_Some_conv)
  from i show ?thesis
  proof (cases rule: install_segment_from_commit_cases)
    case (merged n es)
    with step i obtain r2 where
      c: "commit_up_to sm (r1\<lparr>view_number := v\<rparr>) (rs_commit_number st) False = Some r2"
      and r': "r' = enter_normal r2"
      by (auto simp: recover_into_def bind_eq_Some_conv)
    note m = merge_commit_loose [OF l merged(2) c v]
    have "commit_number r \<le> op_number r2" using merge_log_op_number [OF merged(2)] by (simp add: m(3))
    with st have "stamp r0 \<le> (view_number r2, op_number r2)" by (auto simp: m(2) intro: order_trans)
    with m(1) show ?thesis unfolding r' by (rule enter_normal_good)
  qed (use base in \<open>simp_all add: seg_start_def\<close>)
qed

lemma recover_into_good:
  assumes inv: "replica_inv r" and v: "view_number r \<le> v" and st: "status r = Recovering"
    and step: "recover_into sm r v rst = Some r'"
  shows "good r r'"
proof (cases "seg_start (rs_segment rst) \<le> commit_number r")
  case True
  have "stamp r \<le> (v, commit_number r)"
    using inv v st by (auto simp: stamp_def replica_inv_def view_inv_def op_number_def)
  from recover_into_merged [OF loose_refl [OF inv] v this True step] show ?thesis .
next
  case False
  from step obtain r1 inst where i: "install_segment_from_commit r (rs_segment rst) = Some (r1, inst)"
    by (auto simp: recover_into_def bind_eq_Some_conv)
  from i show ?thesis
  proof (cases rule: install_segment_from_commit_cases)
    case (merged n es)
    with False show ?thesis by simp
  next
    case (checkpoint n)
    with step i have "r' = start_fetch r (cfg_primary_id (config r) v) (RRecoveryResponse v
        \<lparr>rs_segment = rs_segment rst, rs_commit_number = rs_commit_number rst\<rparr>)"
      by (simp add: recover_into_def)
    then show ?thesis using start_fetch_good [OF inv] v st checkpoint by simp
  next
    case nothing
    with step i show ?thesis by (simp add: recover_into_def)
  qed
qed

lemma on_recovery_good:
  assumes "replica_inv r" and "on_recovery sm r i nonce v = Some r'"
  shows "good r r'"
proof (cases "view_number r < v \<and> status r \<noteq> Recovering \<or> status r \<noteq> Normal")
  case True
  with assms show ?thesis
    by (auto simp: on_recovery_def good_refl intro: start_view_change_good split: if_splits)
next
  case False
  with assms(2) obtain r1 st where
    r1: "(if is_primary r
          then do {
            (r, seg) \<leftarrow> segment_from sm r 0;
            Some (r, Some \<lparr>rs_segment = seg, rs_commit_number = commit_number r\<rparr>) }
          else Some (r, None)) = Some (r1, st)"
    and r': "r' = send r1 i (RecoveryResponse (view_number r1) nonce (self_id r1) st)"
    by (auto simp: on_recovery_def bind_eq_Some_conv split: if_splits)
  have "good r r1"
    using r1 assms(1) by (auto simp: good_refl bind_eq_Some_conv intro: segment_from_good split: if_splits)
  then show ?thesis unfolding r' by (rule mailed_good_trans) auto
qed

lemma on_recovery_response_good:
  assumes "replica_inv r" and "on_recovery_response sm r v nonce i st = Some r'"
  shows "good r r'"
proof (cases "status r \<noteq> Recovering \<or> nonce \<noteq> recovery_nonce r")
  case True
  with assms show ?thesis by (simp add: on_recovery_response_def good_refl)
next
  case False
  let ?rs = "bt_insert i \<lparr>rr_view_number = v, rr_state = st\<rparr> (recovery_responses r)"
  let ?r1 = "r\<lparr>recovery_responses := ?rs\<rparr>"
  let ?r2 = "?r1\<lparr>recovery_responses := []\<rparr>"
  have g: "good r ?r1" "good r ?r2" using assms(1) by (simp_all add: core_good)
  then have inv: "replica_inv ?r2" by (simp add: good_def)
  have "r' = ?r1 \<or> (\<exists>latest rst. view_number r \<le> latest \<and> recover_into sm ?r2 latest rst = Some r')"
    using assms(2) False
    by (auto simp: on_recovery_response_def Let_def not_less split: if_splits option.splits)
  with g show ?thesis
    using good_trans [OF g(2) recover_into_good [OF inv]] False by auto
qed

end
