(* ===== verification/VSR_Entry.thy ===== *)
theory VSR_Entry
  imports VSR_TransferHandlers
begin

text \<open>
  Every entry point of a replica, the ones its owner calls, keeps the invariant and makes
  progress; the constructors establish it.
\<close>

section \<open>Messages\<close>

lemma note_chunk_core: "core (note_chunk r i) = core r"
  by (simp add: note_chunk_def Let_def)

lemma chunk_installed_good:
  assumes inv: "replica_inv r" and fetch: "fetch r = None" and ok: "resume_ok r res"
    and n: "resume_checkpoint res = n" and restored: "restore_checkpoint sm r n = Some r3"
    and step: "(case res of
        RNewState v seg k \<Rightarrow>
          if v = view_number r3
          then do { r \<leftarrow> merge_log r3 n (seg_entries seg); new_state_installed sm r k }
          else Some r3
      | RRecoveryResponse v st \<Rightarrow> recover_into sm r3 v st) = Some r'"
  shows "good r r'"
proof (cases res)
  case (RNewState v seg k)
  note same = restore_checkpoint_same [OF restored]
  have l: "loose r r3" using loose_refl [OF inv] restored by (rule restore_checkpoint_loose)
  have q: "query_inv r3" using restore_checkpoint_query_inv [OF _ restored] inv by (simp add: replica_inv_def)
  from RNewState step ok obtain r4 where m: "merge_log r3 n (seg_entries seg) = Some r4"
    and inst: "new_state_installed sm r4 k = Some r'"
    by (auto simp: same bind_eq_Some_conv)
  have st: "status r = StateTransfer \<and> op_number r < n \<or> status r = ViewChange"
    using RNewState ok n by (auto simp: seg_start_def)
  have "good r (r4\<lparr>fetch := None\<rparr>)"
  proof (rule merge_log_good [OF l q _ m])
    show "view_inv (r3\<lparr>fetch := None\<rparr>)"
      using inv st by (auto simp: replica_inv_def view_inv_def same is_primary_def primary_id_def)
    show "status r3 \<noteq> Recovering" using st by (auto simp: same)
    have "n \<le> op_number r4" using merge_log_op_number [OF m] by simp
    then show "stamp r \<le> (view_number r3, if status r3 = ViewChange then 0 else op_number r4)"
      using st by (auto simp: stamp_def same)
  qed
  then show ?thesis using inst by (rule new_state_installed_good)
next
  case (RRecoveryResponse v st)
  note same = restore_checkpoint_same [OF restored]
  have "stamp r \<le> (v, n)"
    using RRecoveryResponse ok inv same(13)
    by (auto simp: stamp_def replica_inv_def view_inv_def op_number_def)
  moreover have "loose r r3" using loose_refl [OF inv] restored by (rule restore_checkpoint_loose)
  moreover have "seg_start (rs_segment st) \<le> n" using RRecoveryResponse n by (simp add: seg_start_def)
  ultimately show ?thesis
    using RRecoveryResponse ok step by (intro recover_into_merged [of r r3 v st]) (simp_all add: same)
qed

lemma on_new_chunk_good:
  assumes inv: "replica_inv r" and step: "on_new_chunk sm r i n ix chunk is_last = Some r'"
  shows "good r r'"
proof (cases "\<exists>ft. fetch r = Some ft \<and> (ft_from ft, resume_checkpoint (ft_then ft), ft_index ft) = (i, n, ix)")
  case False
  with inv step show ?thesis by (auto simp: on_new_chunk_def good_refl split: option.splits if_splits)
next
  case True
  then obtain ft where ft: "fetch r = Some ft"
    "(ft_from ft, resume_checkpoint (ft_then ft), ft_index ft) = (i, n, ix)" by blast
  let ?ft = "ft\<lparr>ft_idle_periods := 0, ft_stalled := False,
                 ft_index := (if is_last then ft_index ft else ft_index ft + 1)\<rparr>"
  from step ft obtain s where s: "sm_stage_chunk sm (state_machine r) n ix chunk = Some s"
    by (auto simp: on_new_chunk_def Let_def bind_eq_Some_conv)
  define r1 where "r1 = note_chunk (r\<lparr>fetch := Some ?ft, state_machine := s\<rparr>) i"
  let ?r2 = "r1\<lparr>fetch := None\<rparr>"
  have ok: "resume_ok r (ft_then ft)" using inv ft by (simp add: replica_inv_def view_inv_def)
  have "good r (r\<lparr>fetch := Some ?ft\<rparr>)" using inv ok by (intro fetch_good) auto
  then have "good r (r\<lparr>fetch := Some ?ft, state_machine := s\<rparr>)" by (rule core_good_trans) simp
  then have g1: "good r r1" unfolding r1_def by (rule core_good_trans) (rule note_chunk_core)
  then have inv1: "replica_inv r1" by (simp add: good_def)
  then have g2: "good r ?r2" by (intro good_trans [OF g1 fetch_good]) simp_all
  then have inv2: "replica_inv ?r2" by (simp add: good_def)
  have ok1: "resume_ok ?r2 (ft_then ft)"
  proof -
    have "resume_ok r1 (ft_then ft) = resume_ok (r\<lparr>fetch := Some ?ft, state_machine := s\<rparr>) (ft_then ft)"
      unfolding r1_def by (rule core_resume_ok) (rule note_chunk_core)
    also have "\<dots> = resume_ok r (ft_then ft)" by (cases "ft_then ft") (simp_all add: op_number_def)
    finally show ?thesis using ok by simp
  qed
  have step': "(if \<not> is_last then Some (send_get_chunk r1)
      else if n \<le> commit_number ?r2 then Some ?r2
      else do {
        r \<leftarrow> restore_checkpoint sm ?r2 n;
        case ft_then ft of
          RNewState v seg k \<Rightarrow>
            if v = view_number r
            then do { r \<leftarrow> merge_log r n (seg_entries seg); new_state_installed sm r k }
            else Some r
        | RRecoveryResponse v st \<Rightarrow> recover_into sm r v st }) = Some r'"
    using step ft s unfolding r1_def by (simp add: on_new_chunk_def Let_def cong: if_cong split del: if_split)
  show ?thesis
  proof (cases "is_last \<and> \<not> n \<le> commit_number ?r2")
    case False
    with step' g2 send_get_chunk_good [OF g1] show ?thesis by (auto split: if_splits)
  next
    case True
    with step' obtain r3 where restored: "restore_checkpoint sm ?r2 n = Some r3"
      and last: "(case ft_then ft of
          RNewState v seg k \<Rightarrow>
            if v = view_number r3
            then do { r \<leftarrow> merge_log r3 n (seg_entries seg); new_state_installed sm r k }
            else Some r3
        | RRecoveryResponse v st \<Rightarrow> recover_into sm r3 v st) = Some r'"
      by (auto simp: bind_eq_Some_conv)
    have "good ?r2 r'"
      by (rule chunk_installed_good [OF inv2 _ ok1 _ restored last]) (use ft in simp_all)
    with g2 show ?thesis by (rule good_trans)
  qed
qed

lemma on_message_good:
  assumes "replica_inv r" and "on_message sm r m = Some r'"
  shows "good r r'"
proof (cases "status r = Recovering \<and> \<not> passes_recovering m")
  case True
  with assms show ?thesis by (simp add: on_message_def good_refl)
next
  case False
  with assms show ?thesis
    by (cases m)
      (auto simp: on_message_def intro: on_register_good on_request_good on_query_good
        on_confirm_view_good on_confirm_view_ok_good on_prepare_good on_prepare_ok_good
        on_commit_good on_get_state_good on_new_state_good on_get_chunk_good on_new_chunk_good
        on_start_view_change_good on_do_view_change_good on_start_view_good on_recovery_good
        on_recovery_response_good)
qed

section \<open>Idle periods\<close>

lemma note_stable_core: "core (note_stable r) = core r"
  by (simp add: note_stable_def Let_def)

lemma wait_timed_out_core: "wait_timed_out r = (r', b) \<Longrightarrow> core r' = core r"
  by (auto simp: wait_timed_out_def Let_def)

lemma send_fold_good:
  assumes "good r0 r" and "\<And>st. backed_by st m"
  shows "good r0 (fold (\<lambda>i r. if P i r then send r i m else r) xs r)"
proof -
  have "mailed (\<lambda>m'. m' = m) r (fold (\<lambda>i r. if P i r then send r i m else r) xs r)"
    by (rule mailed_fold) auto
  with assms(1) show ?thesis by (rule mailed_good_trans) (simp add: assms(2))
qed

lemma send_to_others_good:
  "good r0 r \<Longrightarrow> backed_by (stamp r) m \<Longrightarrow> good r0 (send_to_others r m)"
  by (rule mailed_good_trans [where Q = "\<lambda>m'. m' = m"]) auto

lemma primary_on_idle_good:
  assumes "replica_inv r" and "primary_on_idle r = Some r'"
  shows "good r r'"
proof -
  let ?m = "Commit (view_number (note_stable r)) (commit_number (note_stable r))"
  let ?r1 = "send_to_others (note_stable r) ?m"
  let ?r2 = "?r1\<lparr>resend_up_to := op_number ?r1\<rparr>"
  have "good r (note_stable r)" using assms(1) by (rule core_good) (rule note_stable_core)
  then have "good r ?r1" by (rule send_to_others_good) simp
  then have g2: "good r ?r2" by (rule core_good_trans) simp
  let ?due = "min (resend_up_to ?r1) (op_number ?r1)"
  from assms(2) obtain r3 where
    r3: "(if commit_number (note_stable r) < ?due then do {
         e \<leftarrow> entry ?r2 ?due;
         ensure (replica_count (config ?r2) \<le> length (acked ?r2));
         Some (fold (\<lambda>i r'. if i \<noteq> self_id r' \<and> acked r' ! i < ?due
             then send r' i (Prepare (view_number (note_stable r)) ?due e (commit_number (note_stable r)))
             else r')
                 [0..<replica_count (config ?r2)] ?r2) }
       else Some ?r2) = Some r3" and
    r': "(if round_confirmed r3 < round r3 then do {
       ensure (replica_count (config r3) \<le> length (confirmed r3));
       Some (fold (\<lambda>i r'. if confirmed r' ! i < round r3
             then send r' i (ConfirmView (view_number (note_stable r)) (round r3)) else r')
               [0..<replica_count (config r3)] r3) }
     else Some r3) = Some r'"
    unfolding primary_on_idle_def Let_def by (subst (asm) bind_eq_Some_conv) blast
  have "good r r3"
    using r3 g2 by (auto simp: bind_eq_Some_conv intro: send_fold_good split: if_splits)
  with r' show ?thesis by (auto intro: send_fold_good split: if_splits)
qed

lemma backup_on_idle_good:
  assumes inv: "replica_inv r" and "status r = StateTransfer \<or> status r = Normal \<and> \<not> is_primary r"
    and step: "backup_on_idle sm r = Some r'"
  shows "good r r'"
proof -
  let ?r1 = "if status r = StateTransfer
      then (case fetch_on_idle r of (r, fetching) \<Rightarrow> if fetching then r else state_transfer r) else r"
  have np: "\<not> is_primary r" using assms(2) inv by (auto simp: replica_inv_def view_inv_def)
  have g1: "good r ?r1"
  proof (cases "status r = StateTransfer")
    case True
    obtain r2 b where f: "fetch_on_idle r = (r2, b)" by fastforce
    note g = fetch_on_idle_good [OF inv f] and same = fetch_on_idle_same [OF f]
    then have "good r2 (state_transfer r2)"
      using True np by (intro state_transfer_good) (simp_all add: good_def)
    then show ?thesis using True f g by (auto intro: good_trans)
  qed (simp add: good_refl inv)
  define r2 where "r2 = ?r1"
  have g2: "good r r2" using g1 by (simp add: r2_def)
  have s: "(if heard_from_primary r2
         then Some (note_stable (r2\<lparr>heard_from_primary := False, idle_periods_waiting := 0\<rparr>))
         else (case wait_timed_out (r2\<lparr>idle_periods_stable := 0\<rparr>) of (r, timed_out) \<Rightarrow>
                 if timed_out then start_view_change sm r (view_number r + 1) else Some r)) = Some r'"
    using step unfolding backup_on_idle_def Let_def r2_def [symmetric] .
  show ?thesis
  proof (cases "heard_from_primary r2")
    case True
    with s have "core r' = core r2" by (auto simp: note_stable_core)
    with g2 show ?thesis by (rule core_good_trans)
  next
    case False
    obtain r3 b where w: "wait_timed_out (r2\<lparr>idle_periods_stable := 0\<rparr>) = (r3, b)" by fastforce
    have g3: "good r r3" using g2 by (rule core_good_trans) (simp add: wait_timed_out_core [OF w])
    then have "replica_inv r3" by (simp add: good_def)
    with s False w g3 show ?thesis
      using good_trans [OF g3 start_view_change_good(1)] by (auto split: if_splits)
  qed
qed

lemma view_change_on_idle_good:
  assumes inv: "replica_inv r" and st: "status r = ViewChange" and step: "view_change_on_idle sm r = Some r'"
  shows "good r r'"
proof -
  obtain r1 b where w: "wait_timed_out r = (r1, b)" by fastforce
  have g1: "good r r1" using inv by (rule core_good) (rule wait_timed_out_core [OF w])
  then have inv1: "replica_inv r1" by (simp add: good_def)
  have st1: "status r1 = ViewChange" using wait_timed_out_core [OF w] st by (simp add: core_def)
  show ?thesis
  proof (cases b)
    case True
    with step w have "start_view_change sm r1 (view_number r1 + 1) = Some r'"
      by (simp add: view_change_on_idle_def)
    with g1 show ?thesis using good_trans start_view_change_good(1) [OF inv1] by fastforce
  next
    case False
    obtain r2 fb where f: "fetch_on_idle r1 = (r2, fb)" by fastforce
    let ?r3 = "case catching_up r1 of
        Some i \<Rightarrow> (case fetch_on_idle r1 of (r, fetching) \<Rightarrow>
          if fetching then r else send_get_state_to r i (commit_number r))
      | None \<Rightarrow> r1"
    have "good r r2" using g1 fetch_on_idle_good [OF inv1 f] by (rule good_trans)
    then have "good r (send_get_state_to r2 i (commit_number r2))" for i
      by (rule mailed_good_trans [where Q = "backed_by (stamp r2)"]) auto
    with \<open>good r r2\<close> g1 have g3: "good r ?r3" by (simp add: f split: option.split)
    have st3: "status ?r3 = ViewChange"
      using st1 fetch_on_idle_same [OF f]
      by (simp add: f send_get_state_to_def send_def split: option.split)
    define r3 where "r3 = ?r3"
    define r4 where "r4 = (if catching_up r3 = None \<or> do_view_change_sent r3
                   then send_to_others r3 (StartViewChange (view_number r3) (self_id r3)) else r3)"
    have g4: "good r r4"
      using g3 send_to_others_good [OF g3] by (simp add: r4_def r3_def)
    have "mailed (\<lambda>_. True) r3 r4" by (auto simp: r4_def)
    then have st4: "status r4 = ViewChange" using st3 by (auto elim!: mailedE simp: r3_def)
    have "(if do_view_change_sent r4 \<and> catching_up r4 = None then send_do_view_change sm r4
             else Some r4) = Some r'"
      using step w False unfolding r4_def r3_def
      by (simp add: view_change_on_idle_def Let_def split del: if_split)
    with g4 show ?thesis
      using good_trans [OF g4 send_do_view_change_good [of r4]] st4
      by (auto simp: good_def split: if_splits)
  qed
qed

lemma on_idle_good:
  assumes inv: "replica_inv r" and step: "on_idle sm r = Some r'"
  shows "good r r'"
proof -
  from step obtain r1 where s1: "serve_on_idle sm r = Some r1" by (auto simp: on_idle_def bind_eq_Some_conv)
  have g1: "good r r1" using inv s1 by (rule serve_on_idle_good)
  then have inv1: "replica_inv r1" by (simp add: good_def)
  have "good r1 r'"
  proof (cases "status r1")
    case Normal
    with step s1 inv1 show ?thesis
      by (cases "is_primary r1") (auto simp: on_idle_def intro: primary_on_idle_good backup_on_idle_good)
  next
    case StateTransfer
    with step s1 inv1 show ?thesis by (auto simp: on_idle_def intro: backup_on_idle_good)
  next
    case Recovering
    obtain r2 b where f: "fetch_on_idle r1 = (r2, b)" by fastforce
    have g2: "good r1 r2" using inv1 f by (rule fetch_on_idle_good)
    then have "good r1 (send_recovery r2)"
      by (rule mailed_good_trans [where Q = "backed_by (stamp r2)"]) auto
    with Recovering step s1 f g2 show ?thesis by (auto simp: on_idle_def split: if_splits)
  next
    case ViewChange
    with step s1 inv1 show ?thesis by (auto simp: on_idle_def intro: view_change_on_idle_good)
  qed
  with g1 show ?thesis by (rule good_trans)
qed

section \<open>Writes\<close>

lemma take_write_inv:
  assumes inv: "replica_inv r" and step: "take_write r = Some (r', w)"
  shows "replica_inv r'" and "progress r r'"
proof -
  have li: "log_inv r" using inv by (simp add: replica_inv_def)
  define d where "d = cap_changed (log_changed_from r) (durable r)"
  from step durable_op_inv [OF li] obtain wr wn os where
    r': "r' = r\<lparr>durable := d, log_changed_from := None, written := wr, writes := wn,
                outstanding := Some os, outbox := outbox_waiting r, outbox_waiting := outbox r\<rparr>"
    and os: "os_op_number os = op_number r"
    by (auto simp: take_write_def Let_def bind_eq_Some_conv d_def split: if_splits)
  have op: "op_number r' = op_number r" "is_primary r' = is_primary r" "stamp r' = stamp r"
    by (simp_all add: r' op_number_def is_primary_def primary_id_def stamp_def)
  have "d \<le> op_number r" unfolding d_def using li by (rule durable_op_le)
  then have "log_inv r'"
    using li by (auto simp: log_inv_def op) (auto simp: r' os d_def cap_changed_def)
  moreover have "view_inv r'"
    using inv unfolding replica_inv_def by (elim conjE, elim view_inv_upd) (simp_all add: r')
  moreover have "query_inv r'"
    using inv by (simp add: replica_inv_def query_inv_def rounds_inv_def op) (simp add: r')
  moreover have "mail_inv r'"
    using inv unfolding replica_inv_def mail_inv_def op mail_at_def by (auto simp: r')
  moreover have "shape_inv r'" using inv by (simp add: replica_inv_def shape_inv_def r')
  ultimately show "replica_inv r'" by (simp add: replica_inv_def)
  show "progress r r'" by (simp add: progress_def op) (simp add: r' entry_def)
qed

lemma take_write_outstanding:
  "take_write r = Some (r', w) \<Longrightarrow> outstanding r = None \<and> outstanding r' =
     Some \<lparr>os_sequence = lw_sequence w, os_op_number = op_number r, os_last_normal_view = last_normal_view r\<rparr>
     \<and> outbox_waiting r' = outbox r \<and> outbox r' = outbox_waiting r \<and> outbox_ready r' = outbox_ready r"
  by (auto simp: take_write_def Let_def bind_eq_Some_conv split: if_splits)

lemma mail_moved_inv:
  assumes "replica_inv r"
  shows "replica_inv (r\<lparr>outbox_ready := outbox_ready r @ outbox_waiting r, outbox_waiting := []\<rparr>)"
    and "progress r (r\<lparr>outbox_ready := outbox_ready r @ outbox_waiting r, outbox_waiting := []\<rparr>)"
proof -
  let ?r = "r\<lparr>outbox_ready := outbox_ready r @ outbox_waiting r, outbox_waiting := []\<rparr>"
  have op: "op_number ?r = op_number r" "is_primary ?r = is_primary r" "stamp ?r = stamp r"
    by (simp_all add: op_number_def is_primary_def primary_id_def stamp_def)
  have "view_inv ?r"
    using assms unfolding replica_inv_def by (elim conjE, elim view_inv_upd) simp_all
  moreover have "mail_inv ?r"
    using assms unfolding replica_inv_def mail_inv_def op mail_at_def by auto
  ultimately show "replica_inv ?r"
    using assms by (simp add: replica_inv_def shape_inv_def log_inv_def query_inv_def rounds_inv_def op)
  show "progress r ?r" by (simp add: progress_def op) (simp add: entry_def)
qed

lemma write_done_inv:
  assumes "replica_inv r" and "outstanding r = Some os"
  shows "replica_inv (r\<lparr>outstanding := None, durable := os_op_number os\<rparr>)"
    and "progress r (r\<lparr>outstanding := None, durable := os_op_number os\<rparr>)"
proof -
  let ?r = "r\<lparr>outstanding := None, durable := os_op_number os\<rparr>"
  have op: "op_number ?r = op_number r" "is_primary ?r = is_primary r" "stamp ?r = stamp r"
    by (simp_all add: op_number_def is_primary_def primary_id_def stamp_def)
  have "view_inv ?r"
    using assms unfolding replica_inv_def by (elim conjE, elim view_inv_upd) simp_all
  moreover have "log_inv ?r"
    using assms by (auto simp: replica_inv_def log_inv_def op cap_changed_def split: option.splits)
  moreover have "mail_inv ?r"
    using assms unfolding replica_inv_def mail_inv_def op mail_at_def by auto
  ultimately show "replica_inv ?r"
    using assms by (simp add: replica_inv_def shape_inv_def query_inv_def rounds_inv_def op)
  show "progress r ?r" by (simp add: progress_def op) (simp add: entry_def)
qed

lemma register_ack_same_log:
  "register_ack sm r i n = Some r' \<Longrightarrow> same_log r r'"
  by (auto simp: register_ack_def Let_def bind_eq_Some_conv same_log_def split: if_splits
      dest!: commit_up_to_same_log)

lemma persisted_cases:
  assumes inv: "replica_inv r" and step: "persisted sm r w = Some r'"
  obtains os r1 r2 where "outstanding r = Some os" and "os_sequence os = lw_sequence w"
    and "good (r\<lparr>outstanding := None, durable := os_op_number os\<rparr>) r1"
    and "good r1 r2"
    and "r' = r2\<lparr>outbox_ready := outbox_ready r2 @ outbox_waiting r2, outbox_waiting := []\<rparr>"
proof -
  from step obtain os where os: "outstanding r = Some os" "os_sequence os = lw_sequence w"
    by (auto simp: persisted_def Let_def bind_eq_Some_conv split: if_splits)
  let ?r0 = "r\<lparr>outstanding := None, durable := os_op_number os\<rparr>"
  have inv0: "replica_inv ?r0" using inv os(1) by (rule write_done_inv)
  then have d: "durable_op ?r0 = Some (cap_changed (log_changed_from ?r0) (durable ?r0))"
    by (intro durable_op_inv) (simp add: replica_inv_def)
  let ?d = "cap_changed (log_changed_from ?r0) (durable ?r0)"
  from step os d obtain r1 r2 where
    r1: "(if status ?r0 = Normal \<and> is_primary ?r0 \<and> os_last_normal_view os = view_number ?r0
           then register_ack sm ?r0 (self_id ?r0) ?d else Some ?r0) = Some r1"
    and r2: "apply_committed sm r1 ?d = Some r2"
    and r': "r' = r2\<lparr>outbox_ready := outbox_ready r2 @ outbox_waiting r2, outbox_waiting := []\<rparr>"
    by (auto simp: persisted_def Let_def bind_eq_Some_conv split: if_splits)
  have g1: "good ?r0 r1"
    using r1 inv0 by (auto intro: register_ack_good good_refl split: if_splits)
  then have inv1: "replica_inv r1" by (simp add: good_def)
  have "log_changed_from r1 = log_changed_from ?r0"
    using r1 register_ack_same_log [of sm ?r0] by (auto simp: same_log_def split: if_splits)
  moreover have "durable r1 = durable ?r0"
    using g1 by (simp add: good_def advances_def advances_log_def)
  ultimately have "good r1 r2"
    using executed_good [OF good_refl [OF inv1] apply_committed_executed [OF r2]] by simp
  with os g1 r' show ?thesis by (intro that)
qed

lemma persisted_inv:
  assumes inv: "replica_inv r" and step: "persisted sm r w = Some r'"
  shows "replica_inv r'" and "progress r r'"
proof -
  from assms obtain os r1 r2 where os: "outstanding r = Some os"
    and g1: "good (r\<lparr>outstanding := None, durable := os_op_number os\<rparr>) r1" and g2: "good r1 r2"
    and r': "r' = r2\<lparr>outbox_ready := outbox_ready r2 @ outbox_waiting r2, outbox_waiting := []\<rparr>"
    by (rule persisted_cases)
  from g2 have inv2: "replica_inv r2" by (simp add: good_def)
  then show "replica_inv r'" unfolding r' by (rule mail_moved_inv)
  have "progress r2 r'" using inv2 unfolding r' by (rule mail_moved_inv)
  moreover have "progress r (r\<lparr>outstanding := None, durable := os_op_number os\<rparr>)"
    using inv os by (rule write_done_inv)
  ultimately show "progress r r'"
    using g1 g2 unfolding good_def by (meson progress_trans advances_progress)
qed

section \<open>Compaction and drains\<close>

lemma compact_good:
  assumes inv: "replica_inv r" and step: "compact r n = Some r'"
  shows "good r r'"
proof -
  define m where "m = (case serving r of Some (kept, _) \<Rightarrow> min (min n (applied r)) kept | None \<Rightarrow> min n (applied r))"
  have m: "m \<le> applied r" "\<And>k i. serving r = Some (k, i) \<Longrightarrow> m \<le> k"
    by (auto simp: m_def split: option.split)
  show ?thesis
  proof (cases "m \<le> log_start r")
    case True
    with step have "r' = r" by (simp add: compact_def Let_def m_def split: option.splits)
    with inv show ?thesis by (simp add: good_refl)
  next
    case False
    with step have len: "m - log_start r \<le> length (log r)"
      and r': "r' = r\<lparr>log := drop (m - log_start r) (log r), log_start := m\<rparr>"
      by (auto simp: compact_def Let_def m_def bind_eq_Some_conv split: option.splits)
    have op: "op_number r' = op_number r" "is_primary r' = is_primary r" "stamp r' = stamp r"
      using len False by (simp_all add: r' op_number_def is_primary_def primary_id_def stamp_def)
    have "log_inv r'"
      using inv m False by (auto simp: replica_inv_def log_inv_def op) (auto simp: r')
    moreover have "advances_log r r'"
      using False len by (auto simp: advances_log_def clean_def op r' entry_def) (auto simp: op_number_def nth_chk_def)
    ultimately have l: "loose r r'"
      using inv by (simp add: loose_def replica_inv_def shape_inv_def mail_inv_def mail_at_def r')
    have "resume_ok r' x = resume_ok r x" for x by (cases x) (simp_all add: op, simp_all add: r')
    moreover have "status r \<noteq> Recovering"
      using inv False m by (auto simp: replica_inv_def view_inv_def log_inv_def op_number_def)
    ultimately have "view_inv r'" using inv by (simp add: replica_inv_def view_inv_def op) (simp add: r')
    moreover have "query_inv r'"
      using inv by (simp add: replica_inv_def query_inv_def rounds_inv_def op) (simp add: r')
    ultimately show ?thesis using l by (intro loose_good) (simp_all add: op)
  qed
qed

lemma drained_inv:
  assumes inv: "replica_inv r" and ready: "set rdy \<subseteq> set (outbox_ready r)"
  shows "replica_inv (r\<lparr>round_unsent := False, outbox_early := [], outbox_ready := rdy\<rparr>)"
    and "progress r (r\<lparr>round_unsent := False, outbox_early := [], outbox_ready := rdy\<rparr>)"
proof -
  let ?r = "r\<lparr>round_unsent := False, outbox_early := [], outbox_ready := rdy\<rparr>"
  have op: "op_number ?r = op_number r" "is_primary ?r = is_primary r" "stamp ?r = stamp r"
    by (simp_all add: op_number_def is_primary_def primary_id_def stamp_def)
  have "view_inv ?r"
    using inv unfolding replica_inv_def by (elim conjE, elim view_inv_upd) simp_all
  moreover have "mail_inv ?r"
    using inv ready unfolding replica_inv_def mail_inv_def op mail_at_def by auto
  moreover have "query_inv ?r"
    using inv by (simp add: replica_inv_def query_inv_def rounds_inv_def op)
  ultimately show "replica_inv ?r"
    using inv by (simp add: replica_inv_def shape_inv_def log_inv_def op)
  show "progress r ?r" by (simp add: progress_def op) (simp add: entry_def)
qed

section \<open>Constructors\<close>

lemma replica_new_inv:
  assumes "replica_new i cfg s = Some r" and "i < replica_count cfg"
  shows "replica_inv r"
proof -
  have q: "query_inv r"
    using assms(1) by (intro cleared_query_inv [of r "replica_count cfg"])
      (auto simp: replica_new_def split: if_splits)
  show ?thesis
    using assms q
    by (auto simp: replica_new_def replica_inv_def shape_inv_def log_inv_def op_number_def
        cap_changed_def view_inv_def mail_inv_def mail_at_def split: if_splits)
qed

text \<open>A replica before it takes part: nothing queued, nothing written, nothing under way.\<close>

definition booting :: "('s, 'op, 'q, 'out, 'chunk) replica \<Rightarrow> bool" where
  "booting r \<longleftrightarrow> shape_inv r \<and> query_inv r \<and> mail_at (view_number r, 0) r \<and> outbox_waiting r = []
     \<and> outbox_ready r = [] \<and> fetch r = None
     \<and> log_changed_from r = None \<and> outstanding r = None \<and> serving r = None
     \<and> queries r = [] \<and> waiting r = {} \<and> round r = 0 \<and> round_confirmed r = 0 \<and> \<not> round_unsent r
     \<and> (\<exists>n. confirmed r = replicate n 0)"

lemma booting_upd:
  assumes "booting r" and "shape_inv r'" and "fetch r' = fetch r" and "outstanding r' = outstanding r"
    and "log_changed_from r' = log_changed_from r" and "serving r' = serving r"
    and "queries r' = queries r" and "waiting r' = waiting r" and "round r' = round r"
    and "round_confirmed r' = round_confirmed r" and "round_unsent r' = round_unsent r"
    and "confirmed r' = confirmed r"
    and "outbox_early r' = outbox_early r" and "outbox r' = outbox r"
    and "outbox_waiting r' = outbox_waiting r" and "outbox_ready r' = outbox_ready r"
    and "view_number r' = view_number r \<or> outbox r = []"
  shows "booting r'"
proof -
  from assms(1) obtain n where "confirmed r = replicate n 0" by (auto simp: booting_def)
  then have "query_inv r'" by (intro cleared_query_inv [of _ n]) (use assms in \<open>auto simp: booting_def\<close>)
  moreover have "\<forall>x\<in>set (outbox r). backed_by (view_number r', 0) (snd x)"
    using assms(1,17) by (elim disjE) (simp_all add: booting_def mail_at_def)
  ultimately show ?thesis using assms by (simp add: booting_def mail_at_def)
qed

lemma replica_new_booting:
  assumes "replica_new i cfg s = Some r" and "i < replica_count cfg"
  shows "booting r"
proof -
  have "replica_inv r" using assms by (rule replica_new_inv)
  then show ?thesis
    using assms by (auto simp: booting_def replica_new_def replica_inv_def mail_at_def split: if_splits)
qed

lemma recover_booting:
  assumes "recover i cfg s v nonce = Some r" and "i < replica_count cfg"
  shows "booting r" and "replica_inv r" and "status r = Recovering" and "view_number r = v"
    and "config r = cfg" and "self_id r = i" and "last_normal_view r = 0" and "log r = []"
proof -
  from assms(1) obtain rn where rn: "replica_new i cfg s = Some rn"
    and r: "r = send_recovery (rn\<lparr>status := Recovering, view_number := v, recovery_nonce := nonce\<rparr>)"
    by (auto simp: recover_def bind_eq_Some_conv)
  let ?r1 = "rn\<lparr>status := Recovering, view_number := v, recovery_nonce := nonce\<rparr>"
  let ?Q = "backed_by (v, 0)"
  have m: "mailed ?Q ?r1 r" unfolding r by (rule mailed_send_recovery) simp
  have fields: "log rn = []" "log_start rn = 0" "commit_number rn = 0" "last_normal_view rn = 0"
    "config rn = cfg" "self_id rn = i"
    using rn by (auto simp: replica_new_def split: if_splits)
  have b1: "booting ?r1"
    using replica_new_booting [OF rn assms(2)] by (rule booting_upd)
      (use rn assms(2) in \<open>auto simp: shape_inv_def replica_new_def split: if_splits\<close>)
  have "view_inv ?r1" using b1 fields by (simp add: view_inv_def booting_def)
  then have inv1: "replica_inv ?r1"
    using replica_new_inv [OF rn assms(2)] b1
    by (simp add: replica_inv_def booting_def log_inv_def op_number_def mail_inv_def stamp_def)
  have "good ?r1 r" using inv1 m by (rule mailed_good) (simp add: stamp_def)
  then show "replica_inv r" by (simp add: good_def)
  from m obtain e ob where r': "r = ?r1\<lparr>outbox_early := e, outbox := ob\<rparr>"
    and e: "\<forall>x \<in> set e. x \<in> set (outbox_early ?r1) \<or> is_early (snd x) \<and> ?Q (snd x)"
    and ob: "\<forall>x \<in> set ob. x \<in> set (outbox ?r1) \<or> \<not> is_early (snd x) \<and> ?Q (snd x)"
    by (rule mailedE)
  have "mail_at (v, 0) r"
  proof -
    have "mail_at (v, 0) ?r1" using b1 by (simp add: booting_def)
    with e ob show ?thesis by (simp add: mail_at_def r' ball_Un) blast
  qed
  moreover have "query_inv r" using \<open>replica_inv r\<close> by (simp add: replica_inv_def)
  ultimately show "booting r" using b1 by (auto simp: booting_def r' shape_inv_def)
  show "status r = Recovering" "view_number r = v" "config r = cfg" "self_id r = i"
    "last_normal_view r = 0" "log r = []"
    by (simp_all add: r' fields)
qed

lemma restart_from_cases:
  fixes r :: "('s, 'op, 'q, 'out, 'chunk) replica"
  assumes "restart_from i cfg s appl p nonce = Some r"
  obtains (recovering) rr where "ps_recovering p" and "recover i cfg s (ps_view_number p) nonce = Some rr"
      and "r = rr\<lparr>log_start := appl, commit_number := appl\<rparr>"
  | (resuming) rn ls k l where "\<not> ps_recovering p" and "replica_new i cfg s = Some rn"
      and "r = rn\<lparr>view_number := ps_view_number p, last_normal_view := ps_last_normal_view p,
                   log_start := ls, commit_number := k, log := l\<rparr>"
      and "ls \<le> appl" and "appl \<le> k" and "k = max appl (ps_commit_number p)"
proof (cases "ps_recovering p")
  case True
  with assms recovering show ?thesis by (auto simp: restart_from_def bind_eq_Some_conv)
next
  case False
  with assms obtain rn :: "('s, 'op, 'q, 'out, 'chunk) replica" where rn: "replica_new i cfg s = Some rn"
    by (auto simp: restart_from_def bind_eq_Some_conv)
  let ?gone = "min (appl - ps_log_start p) (length (ps_log p))"
  show ?thesis
  proof (cases "ps_commit_number p < appl")
    case True
    with assms False rn have "r = rn\<lparr>view_number := ps_view_number p,
        last_normal_view := ps_last_normal_view p, log_start := appl, commit_number := appl,
        log := drop ?gone (ps_log p)\<rparr>"
      by (auto simp: restart_from_def Let_def checked_sub_def bind_eq_Some_conv split: if_splits)
    then show ?thesis by (rule resuming [OF False rn]) (use True in auto)
  next
    case behind: False
    with assms False rn have "r = rn\<lparr>view_number := ps_view_number p,
        last_normal_view := ps_last_normal_view p, log_start := ps_log_start p,
        commit_number := ps_commit_number p, log := ps_log p\<rparr>" and ls: "ps_log_start p \<le> appl"
      by (auto simp: restart_from_def Let_def split: if_splits)
    from this(1) show ?thesis by (rule resuming [OF False rn]) (use behind ls in auto)
  qed
qed

text \<open>What a replica has before it executes the committed part of the log it read.\<close>

lemma restart_from_booting:
  assumes "restart_from i cfg s appl p nonce = Some r" and "i < replica_count cfg"
    and lnv: "ps_last_normal_view p \<le> ps_view_number p"
  shows "booting r" and "log_start r \<le> appl" and "appl \<le> commit_number r"
    and "view_number r = ps_view_number p" and "status r = (if ps_recovering p then Recovering else Normal)"
    and "last_normal_view r \<le> view_number r"
    and "status r = Recovering \<longrightarrow> log r = [] \<and> commit_number r = log_start r \<and> last_normal_view r = 0"
    and "status r = Normal \<longrightarrow> last_normal_view r = ps_last_normal_view p"
    and "config r = cfg" and "self_id r = i"
proof -
  have "booting r \<and> log_start r \<le> appl \<and> appl \<le> commit_number r \<and> view_number r = ps_view_number p
     \<and> status r = (if ps_recovering p then Recovering else Normal) \<and> last_normal_view r \<le> view_number r
     \<and> (status r = Recovering \<longrightarrow> log r = [] \<and> commit_number r = log_start r \<and> last_normal_view r = 0)
     \<and> (status r = Normal \<longrightarrow> last_normal_view r = ps_last_normal_view p) \<and> config r = cfg \<and> self_id r = i"
    using assms(1)
  proof (cases rule: restart_from_cases)
    case (recovering rr)
    note b = recover_booting [OF recovering(2) assms(2)]
    have "booting r"
      using b(1) by (rule booting_upd)
        (use b(1) in \<open>simp_all add: recovering(3) shape_inv_def booting_def\<close>)
    then show ?thesis using recovering b by simp
  next
    case (resuming rn ls k l)
    have b: "booting rn" using resuming(2) assms(2) by (rule replica_new_booting)
    have rn: "status rn = Normal" "config rn = cfg" "self_id rn = i" "outbox rn = []"
      using resuming(2) by (auto simp: replica_new_def split: if_splits)
    from b have "booting r"
      by (rule booting_upd) (use b lnv rn in \<open>simp_all add: resuming(3) shape_inv_def booting_def\<close>)
    then show ?thesis using resuming lnv rn by simp
  qed
  then show "booting r" "log_start r \<le> appl" "appl \<le> commit_number r"
    "view_number r = ps_view_number p" "status r = (if ps_recovering p then Recovering else Normal)"
    "last_normal_view r \<le> view_number r"
    "status r = Recovering \<longrightarrow> log r = [] \<and> commit_number r = log_start r \<and> last_normal_view r = 0"
    "status r = Normal \<longrightarrow> last_normal_view r = ps_last_normal_view p" "config r = cfg" "self_id r = i"
    by blast+
qed

definition boot_state ::
  "('s, 'op, 'q, 'out, 'chunk) state_machine \<Rightarrow> ('s, 'op, 'q, 'out, 'chunk) replica \<Rightarrow> OpNumber
   \<Rightarrow> 'op persistent_state \<Rightarrow> ('s, 'op, 'q, 'out, 'chunk) replica" where
  "boot_state sm r appl p =
     (let r = load_client_table sm (r\<lparr>applied := appl,
               written := Some \<lparr>wr_view_number = ps_view_number p,
                 wr_last_normal_view = ps_last_normal_view p,
                 wr_recovering = ps_recovering p, wr_log_start = ps_log_start p\<rparr>\<rparr>)
      in r\<lparr>durable := op_number r\<rparr>)"

lemma boot_state_same:
  "status (boot_state sm r appl p) = status r" "view_number (boot_state sm r appl p) = view_number r"
  "last_normal_view (boot_state sm r appl p) = last_normal_view r" "log (boot_state sm r appl p) = log r"
  "log_start (boot_state sm r appl p) = log_start r" "config (boot_state sm r appl p) = config r"
  "self_id (boot_state sm r appl p) = self_id r" "commit_number (boot_state sm r appl p) = commit_number r"
  "op_number (boot_state sm r appl p) = op_number r" "durable (boot_state sm r appl p) = op_number r"
  "applied (boot_state sm r appl p) = appl" "fetch (boot_state sm r appl p) = fetch r"
  "is_primary (boot_state sm r appl p) = is_primary r"
  by (simp_all add: boot_state_def Let_def load_client_table_def op_number_def is_primary_def primary_id_def)

lemma boot_state_booting:
  assumes "booting r"
  shows "booting (boot_state sm r appl p)"
  using assms by (rule booting_upd)
    (use assms in \<open>simp_all add: boot_state_def Let_def load_client_table_def booting_def shape_inv_def\<close>)

text \<open>The same replica, before it has settled into its view.\<close>

definition unsettled :: "('s, 'op, 'q, 'out, 'chunk) replica \<Rightarrow> ('s, 'op, 'q, 'out, 'chunk) replica" where
  "unsettled r = r\<lparr>status := (if status r = Recovering then Recovering else ViewChange)\<rparr>"

lemma boot_state_loose:
  assumes "booting r" and "log_start r \<le> appl" and "appl \<le> commit_number r" and "commit_number r \<le> op_number r"
    and r0: "r0 = unsettled (boot_state sm r appl p)"
  shows "loose r0 (boot_state sm r appl p)"
proof -
  have b: "booting (boot_state sm r appl p)" using assms(1) by (rule boot_state_booting)
  then have "log_inv (boot_state sm r appl p)"
    using assms by (auto simp: log_inv_def boot_state_same booting_def cap_changed_def)
  then show ?thesis using b by (auto simp: loose_def booting_def advances_log_def clean_def op_number_def r0 unsettled_def stamp_def entry_def)
qed

lemma restart_cases:
  fixes r' :: "('s, 'op, 'q, 'out, 'chunk) replica"
  assumes "restart sm i cfg s appl p nonce = Some r'"
  obtains r r2 r3 where "restart_from i cfg s appl p nonce = Some r" and "commit_number r \<le> op_number r"
    and "apply_committed sm (boot_state sm r appl p) (op_number r) = Some r2"
    and "rebuild_pending r2 = Some r3"
    and "(if status r3 = Recovering then Some r3
     else if ps_last_normal_view p < ps_view_number p then start_view_change sm r3 (ps_view_number p)
     else if is_primary r3 then start_view_change sm r3 (ps_view_number p + 1)
     else Some r3) = Some r'"
proof -
  from assms obtain r :: "('s, 'op, 'q, 'out, 'chunk) replica"
    where r: "restart_from i cfg s appl p nonce = Some r"
    by (auto simp: restart_def bind_eq_Some_conv)
  let ?r1 = "load_client_table sm (r\<lparr>applied := appl,
               written := Some \<lparr>wr_view_number = ps_view_number p,
                 wr_last_normal_view = ps_last_normal_view p,
                 wr_recovering = ps_recovering p, wr_log_start = ps_log_start p\<rparr>\<rparr>)"
  have "op_number ?r1 = op_number r" "commit_number ?r1 = commit_number r"
    by (simp_all add: load_client_table_def Let_def op_number_def)
  moreover from assms r obtain r2 r3 where "commit_number ?r1 \<le> op_number ?r1"
    "apply_committed sm (boot_state sm r appl p) (durable (boot_state sm r appl p)) = Some r2"
    "rebuild_pending r2 = Some r3"
    "(if status r3 = Recovering then Some r3
     else if ps_last_normal_view p < ps_view_number p then start_view_change sm r3 (ps_view_number p)
     else if is_primary r3 then start_view_change sm r3 (ps_view_number p + 1)
     else Some r3) = Some r'"
    by (auto simp: restart_def boot_state_def Let_def bind_eq_Some_conv split: if_splits)
  ultimately show ?thesis using r by (intro that) (simp_all add: boot_state_same)
qed

text \<open>
  A restarted replica comes from what it read by a good step; and unless it was recovering or
  changing views, it is in a later view or has all of the log.
\<close>

lemma restart_good:
  fixes r' :: "('s, 'op, 'q, 'out, 'chunk) replica"
  assumes step: "restart sm i cfg s appl p nonce = Some r'" and "i < replica_count cfg"
    and lnv: "ps_last_normal_view p \<le> ps_view_number p"
  shows "\<exists>r. restart_from i cfg s appl p nonce = Some r \<and> commit_number r \<le> op_number r
     \<and> good (unsettled (boot_state sm r appl p)) r'
     \<and> (ps_recovering p \<or> ps_last_normal_view p < ps_view_number p \<or> ps_view_number p < view_number r'
        \<or> status r' = Normal \<and> op_number r' = op_number r)"
  using step
proof (cases rule: restart_cases)
  fix r r2 r3 :: "('s, 'op, 'q, 'out, 'chunk) replica"
  assume start: "restart_from i cfg s appl p nonce = Some r" and op: "commit_number r \<le> op_number r"
    and app: "apply_committed sm (boot_state sm r appl p) (op_number r) = Some r2"
    and reb: "rebuild_pending r2 = Some r3"
    and r': "(if status r3 = Recovering then Some r3
     else if ps_last_normal_view p < ps_view_number p then start_view_change sm r3 (ps_view_number p)
     else if is_primary r3 then start_view_change sm r3 (ps_view_number p + 1)
     else Some r3) = Some r'"
  let ?r1 = "boot_state sm r appl p"
  define r0 where "r0 = unsettled ?r1"
  note b = restart_from_booting [OF start assms(2) lnv]
  have b1: "booting ?r1" using b(1) by (rule boot_state_booting)
  have l1: "loose r0 ?r1" using b(1-3) op r0_def by (rule boot_state_loose)
  have ex: "executed (op_number r) ?r1 r2" using app by (rule apply_committed_executed)
  have l2: "loose r0 r2"
    using l1 ex by (rule executed_loose) (use b1 in \<open>simp add: booting_def cap_changed_def boot_state_same\<close>)
  have q2: "query_inv r2" using executed_query_inv [OF _ ex] b1 by (simp add: booting_def)
  obtain cs where r3: "r3 = r2\<lparr>clients := cs\<rparr>" using rebuild_pending_frame [OF reb] by blast
  then have c3: "core r3 = core r2" by simp
  have l3: "loose r0 r3"
    using l2 by (rule loose_upd) (use l2 in \<open>simp_all add: r3 loose_def shape_inv_def\<close>)
  have q3: "query_inv r3" using q2 by (simp add: core_inv(5) [OF c3])
  have same2: "same_log ?r1 r2" "commit_number r2 = commit_number r"
    using ex by (auto elim!: executedE simp: same_log_def boot_state_same)
  have f3: "status r3 = status r" "view_number r3 = ps_view_number p" "fetch r3 = None"
    "last_normal_view r3 = last_normal_view r" "log r3 = log r" "log_start r3 = log_start r"
    "commit_number r3 = commit_number r"
    using same_logD [OF same2(1)] same2(2) b1 b(4)
    by (simp_all add: r3 boot_state_same booting_def)
  have st0: "stamp r0 = (ps_view_number p, 0)" by (simp add: r0_def unsettled_def stamp_def boot_state_same b(4))
  have op3: "op_number r3 = op_number r" by (simp add: op_number_def f3)
  have ann: "good r0 r' \<and> view_number r' = v" if "start_view_change sm r3 v = Some r'" "last_normal_view r3 < v"
    "ps_view_number p \<le> v" for v
  proof -
    have "r' = announced r3 v"
      using start_view_change_announced [of r3 sm v] l3 that(1) by (simp add: loose_def)
    then show ?thesis
      using announced_good [OF l3 that(2)] that(3) st0 f3(2) by (auto simp: announced_fields)
  qed
  have quiet: "good r0 r3" if "view_inv r3"
    using loose_good [OF l3 that q3] st0 f3 b by (auto simp: stamp_def)
  have "good r0 r' \<and> (ps_recovering p \<or> ps_last_normal_view p < ps_view_number p
      \<or> ps_view_number p < view_number r' \<or> status r' = Normal \<and> op_number r' = op_number r)"
    using r' f3 b lnv quiet ann op3 by (auto simp: view_inv_def split: if_splits)
  with start op show ?thesis unfolding r0_def by blast
qed

end
