(* ===== verification/VSR_Node.thy ===== *)
theory VSR_Node
  imports VSR_Entry
begin

text \<open>
  A replica together with its owner's side of the contract: the disk, the write that is out,
  and the messages that have left.  \<open>node_step\<close> interleaves messages, idle periods,
  compaction, drains, writes taken and handed back, and crashes, as the owner in
  \<open>src/simulator/lib.rs\<close> and \<open>src/examples/kvstore/node.rs\<close> does; \<open>node_inv\<close> relates the
  replica's memory to what is on disk, and holds in every reachable node.
\<close>

section \<open>The disk\<close>

definition ps_op_number :: "'op persistent_state \<Rightarrow> OpNumber" where
  "ps_op_number p = ps_log_start p + length (ps_log p)"

definition ps_entry :: "'op persistent_state \<Rightarrow> OpNumber \<Rightarrow> 'op log_entry option" where
  "ps_entry p n = do { i \<leftarrow> checked_sub n (ps_log_start p + 1); nth_chk (ps_log p) i }"

text \<open>How far the state on disk has come, as \<open>stamp\<close> says it of memory.\<close>

definition disk_stamp :: "'op persistent_state \<Rightarrow> ViewNumber \<times> OpNumber" where
  "disk_stamp p = (ps_view_number p,
     if ps_recovering p \<or> ps_last_normal_view p < ps_view_number p then 0 else ps_op_number p)"

text \<open>The disk, once the writes taken have landed, holds every entry that has not changed since.\<close>

definition in_sync :: "'op persistent_state \<Rightarrow> ('s, 'op, 'q, 'out, 'chunk) replica \<Rightarrow> bool" where
  "in_sync p r \<longleftrightarrow> ps_log_start p \<le> log_start r \<and> (\<forall>n. clean r n \<longrightarrow> ps_entry p n = entry r n)"

text \<open>The disk holds the view state and the log in memory; the commit number may be behind.\<close>

definition disk_matches :: "'op persistent_state \<Rightarrow> ('s, 'op, 'q, 'out, 'chunk) replica \<Rightarrow> bool" where
  "disk_matches p r \<longleftrightarrow> ps_view_number p = view_number r \<and> ps_last_normal_view p = last_normal_view r
     \<and> ps_recovering p = is_recovering r \<and> ps_log_start p = log_start r \<and> ps_log p = log r"

text \<open>
  What the last write taken recorded is behind memory, and where it is not, and no entry
  changed, memory is what the disk holds or will hold.
\<close>

definition written_inv :: "'op persistent_state \<Rightarrow> ('s, 'op, 'q, 'out, 'chunk) replica \<Rightarrow> bool" where
  "written_inv q r \<longleftrightarrow> (\<forall>wr. written r = Some wr \<longrightarrow>
     wr_view_number wr \<le> view_number r \<and> wr_last_normal_view wr \<le> last_normal_view r
     \<and> wr_log_start wr \<le> log_start r \<and> (is_recovering r \<longrightarrow> wr_recovering wr)
     \<and> (wr = written_now r \<and> log_changed_from r = None \<longrightarrow> disk_matches q r))"

text \<open>The disk holds what the replica takes for durable.\<close>

definition holds_durable :: "'op persistent_state \<Rightarrow> ('s, 'op, 'q, 'out, 'chunk) replica \<Rightarrow> bool" where
  "holds_durable p r \<longleftrightarrow> (\<forall>n. log_start r < n \<and> n \<le> cap_changed (log_changed_from r) (durable r)
     \<longrightarrow> ps_entry p n = entry r n)"

lemma ps_entry_Some:
  "ps_entry p n = Some e \<longleftrightarrow>
     ps_log_start p < n \<and> n \<le> ps_op_number p \<and> e = ps_log p ! (n - ps_log_start p - 1)"
  by (auto simp: ps_entry_def ps_op_number_def)

text \<open>None of it reads the commit number on disk.\<close>

lemma disk_commit_number [simp]:
  "ps_op_number (p\<lparr>ps_commit_number := k\<rparr>) = ps_op_number p"
  "ps_entry (p\<lparr>ps_commit_number := k\<rparr>) n = ps_entry p n"
  "disk_stamp (p\<lparr>ps_commit_number := k\<rparr>) = disk_stamp p"
  "in_sync (p\<lparr>ps_commit_number := k\<rparr>) r = in_sync p r"
  "written_inv (p\<lparr>ps_commit_number := k\<rparr>) r = written_inv p r"
  by (simp_all add: ps_op_number_def ps_entry_def disk_stamp_def in_sync_def written_inv_def disk_matches_def)

lemma cap_clean:
  assumes "log_inv r" and "log_start r < n" and "n \<le> cap_changed (log_changed_from r) (durable r)"
  shows "clean r n"
  using assms by (auto simp: clean_def log_inv_def cap_changed_def split: option.splits)

lemma persistent_state_of_entry: "ps_entry (persistent_state_of r) n = entry r n"
  by (simp add: persistent_state_of_def ps_entry_def entry_def)

lemma disk_stamp_state: "view_inv r \<Longrightarrow> disk_stamp (persistent_state_of r) = stamp r"
  by (cases "status r") (auto simp: disk_stamp_def stamp_def persistent_state_of_def view_inv_def
      is_recovering_def ps_op_number_def op_number_def)

section \<open>A write brings the disk up to date\<close>

lemma take_drop_append: "k \<le> length xs \<Longrightarrow> k \<le> length ys \<Longrightarrow> (\<And>j. j < k \<Longrightarrow> xs ! j = ys ! j) \<Longrightarrow>
    take k xs @ drop k ys = ys"
  by (metis append_take_drop_id nth_take_lemma)

lemma in_sync_prefix:
  assumes sync: "in_sync p r" and "j < length (log r)"
    and "\<And>k. log_changed_from r = Some k \<Longrightarrow> log_start r + 1 + j < k"
  shows "j < length (ps_log p) - (log_start r - ps_log_start p)"
    and "drop (log_start r - ps_log_start p) (ps_log p) ! j = log r ! j"
proof -
  let ?n = "log_start r + 1 + j"
  have "clean r ?n" using assms(2,3) by (simp add: clean_def op_number_def)
  moreover have "entry r ?n = Some (log r ! j)" using assms(2) by (simp add: entry_Some op_number_def)
  ultimately have e: "ps_entry p ?n = Some (log r ! j)" using sync by (simp add: in_sync_def)
  have le: "ps_log_start p \<le> log_start r" using sync by (simp add: in_sync_def)
  from e have "?n \<le> ps_log_start p + length (ps_log p)"
    and v: "log r ! j = ps_log p ! (?n - ps_log_start p - 1)"
    by (simp_all add: ps_entry_Some ps_op_number_def)
  with le show "j < length (ps_log p) - (log_start r - ps_log_start p)" by linarith
  have "?n - ps_log_start p - 1 = log_start r - ps_log_start p + j" using le by linarith
  with v show "drop (log_start r - ps_log_start p) (ps_log p) ! j = log r ! j"
    using \<open>?n \<le> _\<close> le by (simp add: nth_drop)
qed

lemma take_write_applies:
  assumes li: "log_inv r" and sync: "in_sync p r" and step: "take_write r = Some (r', w)"
  shows "ps_apply p w = Some (persistent_state_of r)"
proof -
  define from' where "from' = (case log_changed_from r of None \<Rightarrow> op_number r + 1
    | Some k \<Rightarrow> max k (log_start r + 1))"
  define k where "k = from' - log_start r - 1"
  let ?l = "drop (log_start r - ps_log_start p) (ps_log p)"
  from step have w: "lw_log_start w = log_start r" "lw_entries_from w = from'"
    "lw_entries w = log_from r from'" "lw_view_number w = view_number r"
    "lw_last_normal_view w = last_normal_view r" "lw_commit_number w = commit_number r"
    "lw_recovering w = is_recovering r"
    by (auto simp: take_write_def Let_def bind_eq_Some_conv from'_def split: if_splits)
  have le: "ps_log_start p \<le> log_start r" using sync by (simp add: in_sync_def)
  have from': "log_start r + 1 \<le> from'" "from' \<le> op_number r + 1"
    using li by (auto simp: from'_def log_inv_def op_number_def split: option.splits)
  then have k: "k \<le> length (log r)" "from' = log_start r + 1 + k"
    by (simp_all add: k_def op_number_def)
  have pre: "j < length ?l" "?l ! j = log r ! j" if "j < k" for j
  proof -
    have "log_start r + 1 + j < c" if "log_changed_from r = Some c" for c
      using that \<open>j < k\<close> by (auto simp: k_def from'_def)
    with in_sync_prefix [OF sync, of j] \<open>j < k\<close> k(1)
    show "j < length ?l" "?l ! j = log r ! j" by simp_all
  qed
  have kl: "k \<le> length ?l"
  proof (cases k)
    case (Suc j)
    with pre(1) [of j] show ?thesis by simp
  qed simp
  have log: "take k ?l @ lw_entries w = log r"
    using take_drop_append [OF kl k(1) pre(2)] k(1) by (simp add: w(3) log_from_def k(2))
  let ?p1 = "if lw_log_start w > ps_log_start p
      then p\<lparr>ps_log := drop (min (lw_log_start w - ps_log_start p) (length (ps_log p))) (ps_log p),
             ps_log_start := lw_log_start w\<rparr> else p"
  have p1: "ps_log_start ?p1 = log_start r" "ps_log ?p1 = ?l"
    using le by (auto simp: w min_def)
  have "ps_apply p w = Some (?p1\<lparr>ps_log := take k ?l @ lw_entries w, ps_view_number := view_number r,
      ps_last_normal_view := last_normal_view r, ps_commit_number := commit_number r,
      ps_recovering := is_recovering r\<rparr>)"
    using kl k(2) unfolding ps_apply_def Let_def p1 w(2,4-7) by simp
  also have "\<dots> = Some (persistent_state_of r)"
    unfolding log persistent_state_of_def using p1(1)
    by (intro arg_cong [where f = Some] persistent_state.equality) (simp_all split: if_splits)
  finally show ?thesis .
qed

section \<open>Nodes\<close>

record ('s, 'op, 'q, 'out, 'chunk) node =
  nd_rep :: "('s, 'op, 'q, 'out, 'chunk) replica"
  nd_disk :: "'op persistent_state"
  nd_out :: "'op log_write option"
  nd_sent :: "('op, 'q, 'chunk) mailbox"

text \<open>
  What the owner of a running replica does.  A write that is out reaches the disk whole before
  it goes back; one that needs no sync may go back without.
\<close>

inductive run_step ::
  "('s, 'op, 'q, 'out, 'chunk) state_machine \<Rightarrow> ('s, 'op, 'q, 'out, 'chunk) node
   \<Rightarrow> ('s, 'op, 'q, 'out, 'chunk) node \<Rightarrow> bool" for sm where
  message: "on_message sm (nd_rep N) m = Some r' \<Longrightarrow> run_step sm N (N\<lparr>nd_rep := r'\<rparr>)"
| idle: "on_idle sm (nd_rep N) = Some r' \<Longrightarrow> run_step sm N (N\<lparr>nd_rep := r'\<rparr>)"
| compacted: "compact (nd_rep N) n = Some r' \<Longrightarrow> run_step sm N (N\<lparr>nd_rep := r'\<rparr>)"
| replied: "drain_replies (nd_rep N) = (r', reps) \<Longrightarrow> run_step sm N (N\<lparr>nd_rep := r'\<rparr>)"
| early: "drain_messages_before_persist (nd_rep N) = (r', ms) \<Longrightarrow>
    run_step sm N (N\<lparr>nd_rep := r', nd_sent := nd_sent N @ ms\<rparr>)"
| drain: "drain_messages (nd_rep N) = (r', ms) \<Longrightarrow>
    run_step sm N (N\<lparr>nd_rep := r', nd_sent := nd_sent N @ ms\<rparr>)"
| take: "take_write (nd_rep N) = Some (r', w) \<Longrightarrow>
    run_step sm N (N\<lparr>nd_rep := r', nd_out := Some w\<rparr>)"
| landed: "nd_out N = Some w \<Longrightarrow> ps_apply (nd_disk N) w = Some p \<Longrightarrow> persisted sm (nd_rep N) w = Some r' \<Longrightarrow>
    run_step sm N (N\<lparr>nd_rep := r', nd_disk := p, nd_out := None\<rparr>)"
| skipped: "nd_out N = Some w \<Longrightarrow> \<not> lw_sync w \<Longrightarrow> persisted sm (nd_rep N) w = Some r' \<Longrightarrow>
    run_step sm N (N\<lparr>nd_rep := r', nd_out := None\<rparr>)"

text \<open>
  A crash loses the memory and leaves the disk, with or without the write that was out; the
  owner restarts the replica with a state machine that has kept at least what was compacted.
\<close>

inductive node_step ::
  "('s, 'op, 'q, 'out, 'chunk) state_machine \<Rightarrow> ('s, 'op, 'q, 'out, 'chunk) node
   \<Rightarrow> ('s, 'op, 'q, 'out, 'chunk) node \<Rightarrow> bool" for sm where
  run: "run_step sm N N' \<Longrightarrow> node_step sm N N'"
| crash: "p = nd_disk N \<or> nd_out N = Some w \<and> ps_apply (nd_disk N) w = Some p \<Longrightarrow>
    ps_log_start p \<le> appl \<Longrightarrow>
    restart sm (self_id (nd_rep N)) (config (nd_rep N)) s appl p nonce = Some r' \<Longrightarrow>
    node_step sm N (N\<lparr>nd_rep := r', nd_disk := p, nd_out := None\<rparr>)"

text \<open>
  A replica starts new, or without its disk, on which the owner may first have written the view
  it recovers in and that it is recovering.
\<close>

inductive node_init :: "('s, 'op, 'q, 'out, 'chunk) node \<Rightarrow> bool" where
  fresh: "replica_new i cfg s = Some r \<Longrightarrow> i < replica_count cfg \<Longrightarrow>
    node_init \<lparr>nd_rep = r, nd_disk = ps_empty, nd_out = None, nd_sent = []\<rparr>"
| diskless: "recover i cfg s v nonce = Some r \<Longrightarrow> i < replica_count cfg \<Longrightarrow>
    p = ps_empty \<or> p = ps_empty\<lparr>ps_view_number := v, ps_recovering := True\<rparr> \<Longrightarrow>
    node_init \<lparr>nd_rep = r, nd_disk = p, nd_out = None, nd_sent = []\<rparr>"

inductive reachable ::
  "('s, 'op, 'q, 'out, 'chunk) state_machine \<Rightarrow> ('s, 'op, 'q, 'out, 'chunk) node \<Rightarrow> bool" for sm where
  init: "node_init N \<Longrightarrow> reachable sm N"
| step: "reachable sm N \<Longrightarrow> node_step sm N N' \<Longrightarrow> reachable sm N'"

text \<open>What the disk will hold once the write that is out has landed.\<close>

definition nd_target :: "('s, 'op, 'q, 'out, 'chunk) node \<Rightarrow> 'op persistent_state option" where
  "nd_target N = (case nd_out N of None \<Rightarrow> Some (nd_disk N) | Some w \<Rightarrow> ps_apply (nd_disk N) w)"

definition all_backed ::
  "('op, 'q, 'chunk) mailbox \<Rightarrow> ViewNumber \<times> OpNumber \<Rightarrow> bool" where
  "all_backed ms st \<longleftrightarrow> (\<forall>x \<in> set ms. backed_by st (snd x))"

definition ps_ok :: "'op persistent_state \<Rightarrow> bool" where
  "ps_ok p \<longleftrightarrow> ps_last_normal_view p \<le> ps_view_number p
     \<and> (ps_recovering p \<longrightarrow> ps_last_normal_view p = 0 \<and> ps_log p = [])"

definition writes_match :: "'op log_write option \<Rightarrow> outstanding_write option \<Rightarrow> bool" where
  "writes_match ow os \<longleftrightarrow> (case ow of None \<Rightarrow> os = None
     | Some w \<Rightarrow> \<exists>o'. os = Some o' \<and> os_sequence o' = lw_sequence w)"

definition target_inv ::
  "'op persistent_state \<Rightarrow> 'op persistent_state \<Rightarrow> ('s, 'op, 'q, 'out, 'chunk) replica \<Rightarrow> bool" where
  "target_inv p q r \<longleftrightarrow> in_sync q r \<and> written_inv q r \<and> ps_ok q \<and> disk_stamp p \<le> disk_stamp q
     \<and> disk_stamp q \<le> stamp r \<and> all_backed (outbox_waiting r) (disk_stamp q)"

definition disk_inv ::
  "'op persistent_state \<Rightarrow> ('s, 'op, 'q, 'out, 'chunk) replica \<Rightarrow> bool" where
  "disk_inv p r \<longleftrightarrow> ps_ok p \<and> holds_durable p r \<and> all_backed (outbox_ready r) (disk_stamp p)"

text \<open>A write that needs no sync changes nothing on disk but the commit number.\<close>

definition skip_inv :: "('s, 'op, 'q, 'out, 'chunk) node \<Rightarrow> bool" where
  "skip_inv N \<longleftrightarrow> (\<forall>w q. nd_out N = Some w \<and> \<not> lw_sync w \<and> nd_target N = Some q \<longrightarrow>
     q = (nd_disk N)\<lparr>ps_commit_number := ps_commit_number q\<rparr>)"

definition node_inv :: "('s, 'op, 'q, 'out, 'chunk) node \<Rightarrow> bool" where
  "node_inv N \<longleftrightarrow> replica_inv (nd_rep N) \<and> disk_inv (nd_disk N) (nd_rep N)
     \<and> (\<exists>q. nd_target N = Some q \<and> target_inv (nd_disk N) q (nd_rep N))
     \<and> all_backed (nd_sent N) (disk_stamp (nd_disk N)) \<and> skip_inv N
     \<and> writes_match (nd_out N) (outstanding (nd_rep N))"

section \<open>Every step keeps it\<close>

lemma ps_ok_commit_number [simp]: "ps_ok (p\<lparr>ps_commit_number := k\<rparr>) = ps_ok p"
  by (simp add: ps_ok_def)

lemma all_backed_mono: "all_backed ms st \<Longrightarrow> st \<le> st' \<Longrightarrow> all_backed ms st'"
  by (auto simp: all_backed_def intro: backed_by_mono)

lemma all_backed_append [simp]: "all_backed (xs @ ys) st \<longleftrightarrow> all_backed xs st \<and> all_backed ys st"
  by (auto simp: all_backed_def)

lemma all_backed_Nil [simp]: "all_backed [] st"
  by (simp add: all_backed_def)

lemma early_all_backed: "(\<forall>x \<in> set ms. is_early (snd x)) \<Longrightarrow> all_backed ms st"
  unfolding all_backed_def
proof
  fix x
  assume "\<forall>x\<in>set ms. is_early (snd x)" and "x \<in> set ms"
  then show "backed_by st (snd x)" by (cases "snd x") auto
qed

text \<open>A handler leaves the disk and the messages for it alone.\<close>

lemma good_disk_inv:
  assumes "log_inv r'" and "advances_log r r'" and "disk_inv p r"
  shows "disk_inv p r'"
proof -
  note a = advances_logD [OF assms(2)]
  have "ps_entry p n = entry r' n"
    if "log_start r' < n" "n \<le> cap_changed (log_changed_from r') (durable r')" for n
  proof -
    have c: "clean r' n" using assms(1) that by (rule cap_clean)
    then have c': "clean r n" and e: "entry r' n = entry r n" by (rule a(11), rule a(12))
    have "n \<le> durable r'" using that(2) cap_changed_le [of "log_changed_from r'" "durable r'"] by linarith
    with c' have "n \<le> cap_changed (log_changed_from r) (durable r)"
      by (auto simp: clean_def cap_changed_def a(8) split: option.split)
    with c' e show ?thesis using assms(3) by (simp add: disk_inv_def holds_durable_def clean_def)
  qed
  then show ?thesis using assms(3) by (simp add: disk_inv_def holds_durable_def a(10))
qed

lemma good_log_same:
  assumes l: "advances_log r r'" and "log_changed_from r' = None" and start: "log_start r' = log_start r"
  shows "log r' = log r"
proof (rule nth_equalityI)
  note a = advances_logD [OF l]
  have "op_number r' = op_number r" using a(15) assms(2) .
  then show len: "length (log r') = length (log r)" using start by (simp add: op_number_def)
  fix j
  assume "j < length (log r')"
  then have "clean r' (log_start r' + 1 + j)" using assms(2) by (simp add: clean_def op_number_def)
  then have "entry r' (log_start r' + 1 + j) = entry r (log_start r' + 1 + j)" by (rule a(12))
  with \<open>j < length (log r')\<close> show "log r' ! j = log r ! j" by (simp add: entry_def nth_chk_def start len)
qed

lemma good_written_inv:
  assumes l: "advances_log r r'" and w: "written_inv q r"
  shows "written_inv q r'"
  unfolding written_inv_def
proof (intro allI impI)
  fix wr
  assume wr: "written r' = Some wr"
  note a = advances_logD [OF l]
  from wr w have b: "wr_view_number wr \<le> view_number r" "wr_last_normal_view wr \<le> last_normal_view r"
    "wr_log_start wr \<le> log_start r" "is_recovering r \<longrightarrow> wr_recovering wr"
    "wr = written_now r \<and> log_changed_from r = None \<longrightarrow> disk_matches q r"
    by (simp_all add: written_inv_def a(16))
  have rec: "is_recovering r' \<Longrightarrow> is_recovering r" using a(18) by (simp add: is_recovering_def)
  have "disk_matches q r'" if m: "wr = written_now r'" and c: "log_changed_from r' = None"
  proof -
    have v: "view_number r' = view_number r" "last_normal_view r' = last_normal_view r"
      "log_start r' = log_start r" "is_recovering r' = is_recovering r"
      using b(1-4) a(3,6,17) rec m by (auto simp: written_now_def)
    then have "disk_matches q r" using b(5) m a(14) [OF c] by (simp add: written_now_def)
    with v good_log_same [OF l c] show ?thesis by (simp add: disk_matches_def)
  qed
  then show "wr_view_number wr \<le> view_number r' \<and> wr_last_normal_view wr \<le> last_normal_view r'
     \<and> wr_log_start wr \<le> log_start r' \<and> (is_recovering r' \<longrightarrow> wr_recovering wr)
     \<and> (wr = written_now r' \<and> log_changed_from r' = None \<longrightarrow> disk_matches q r')"
    using b(1-4) a(3,6,17) rec by auto
qed

lemma good_target_inv:
  assumes "advances r r'" and "target_inv p q r"
  shows "target_inv p q r'"
proof -
  note a = advances_logD [of r r']
  have l: "advances_log r r'" and st: "stamp r \<le> stamp r'" using assms(1) by (simp_all add: advances_def)
  have "in_sync q r'"
    using assms(2) a(6) [OF l] a(11,12) [OF l] by (auto simp: target_inv_def in_sync_def)
  then show ?thesis
    using assms(2) st good_written_inv [OF l] by (auto simp: target_inv_def a(9) [OF l])
qed

lemma skip_cong:
  assumes "nd_out N' = nd_out N" and "nd_disk N' = nd_disk N"
  shows "nd_target N' = nd_target N" and "skip_inv N' = skip_inv N"
proof -
  show t: "nd_target N' = nd_target N" by (simp only: nd_target_def assms)
  show "skip_inv N' = skip_inv N" by (simp only: skip_inv_def t assms)
qed

lemma good_node_inv:
  assumes "node_inv N" and "good (nd_rep N) r'"
  shows "node_inv (N\<lparr>nd_rep := r'\<rparr>)"
proof -
  have inv: "replica_inv r'" and adv: "advances (nd_rep N) r'" using assms(2) by (simp_all add: good_def)
  then have l: "advances_log (nd_rep N) r'" by (simp add: advances_def)
  have "disk_inv (nd_disk N) r'"
    using good_disk_inv [OF _ l] inv assms(1) by (simp add: replica_inv_def node_inv_def)
  moreover have "nd_target (N\<lparr>nd_rep := r'\<rparr>) = nd_target N" "skip_inv (N\<lparr>nd_rep := r'\<rparr>) = skip_inv N"
    by (rule skip_cong; simp)+
  ultimately show ?thesis
    using assms(1) inv good_target_inv [OF adv]
    by (auto simp: node_inv_def advances_logD(7) [OF l])
qed

lemma disk_cong:
  assumes "log_start r' = log_start r" and "log r' = log r" and "log_changed_from r' = log_changed_from r"
  shows "in_sync p r' = in_sync p r" and "durable r' = durable r \<Longrightarrow> holds_durable p r' = holds_durable p r"
  using assms by (simp_all add: in_sync_def holds_durable_def clean_def op_number_def entry_def)

lemma written_cong:
  assumes "log_start r' = log_start r" and "log r' = log r" and "log_changed_from r' = log_changed_from r"
    and "view_number r' = view_number r" and "last_normal_view r' = last_normal_view r"
    and "status r' = status r" and "written r' = written r"
  shows "written_inv p r' = written_inv p r"
  using assms by (simp add: written_inv_def written_now_def disk_matches_def is_recovering_def)

lemma drained_node_inv:
  assumes N: "node_inv N" and sub: "set rdy \<subseteq> set (outbox_ready (nd_rep N))"
    and ms: "all_backed ms (disk_stamp (nd_disk N))"
  shows "node_inv (N\<lparr>nd_rep := (nd_rep N)\<lparr>round_unsent := False, outbox_early := [], outbox_ready := rdy\<rparr>,
                    nd_sent := nd_sent N @ ms\<rparr>)"
proof -
  let ?r = "nd_rep N"
  let ?r' = "?r\<lparr>round_unsent := False, outbox_early := [], outbox_ready := rdy\<rparr>"
  let ?N = "N\<lparr>nd_rep := ?r', nd_sent := nd_sent N @ ms\<rparr>"
  have inv: "replica_inv ?r'" using N sub by (intro drained_inv) (simp_all add: node_inv_def)
  have [simp]: "stamp ?r' = stamp ?r" by (simp add: stamp_def op_number_def)
  have [simp]: "in_sync p ?r' = in_sync p ?r" "holds_durable p ?r' = holds_durable p ?r" for p
    by (rule disk_cong; simp)+
  have [simp]: "written_inv p ?r' = written_inv p ?r" for p by (rule written_cong) simp_all
  have "nd_target ?N = nd_target N" "skip_inv ?N = skip_inv N" by (rule skip_cong; simp)+
  moreover have "all_backed rdy (disk_stamp (nd_disk N))"
    using N sub by (auto simp: node_inv_def disk_inv_def all_backed_def)
  ultimately show ?thesis
    using N inv ms by (simp add: node_inv_def disk_inv_def target_inv_def)
qed

lemma take_node_inv:
  assumes N: "node_inv N" and step: "take_write (nd_rep N) = Some (r', w)"
  shows "node_inv (N\<lparr>nd_rep := r', nd_out := Some w\<rparr>)"
proof -
  let ?r = "nd_rep N"
  let ?q = "persistent_state_of ?r"
  note out = take_write_outstanding [OF step] and tw = take_write_inv [OF _ step]
  have inv: "replica_inv ?r" using N by (simp add: node_inv_def)
  then have li: "log_inv ?r" and vi: "view_inv ?r" by (simp_all add: replica_inv_def)
  have none: "nd_out N = None"
    using N out by (auto simp: node_inv_def writes_match_def split: option.splits)
  then have T: "target_inv (nd_disk N) (nd_disk N) ?r" using N by (simp add: node_inv_def nd_target_def)
  then have sync: "in_sync (nd_disk N) ?r" by (simp add: target_inv_def)
  have ap: "ps_apply (nd_disk N) w = Some ?q" using li sync step by (rule take_write_applies)
  from step durable_op_inv [OF li] have f: "log_start r' = log_start ?r" "log r' = log ?r"
    "log_changed_from r' = None" "durable r' = cap_changed (log_changed_from ?r) (durable ?r)"
    "stamp r' = stamp ?r"
    by (auto simp: take_write_def Let_def bind_eq_Some_conv stamp_def op_number_def split: if_splits)
  have e: "entry r' n = entry ?r n" for n by (simp add: entry_def f)
  have "in_sync ?q r'" by (simp add: in_sync_def persistent_state_of_entry e) (simp add: persistent_state_of_def f)
  moreover have "all_backed (outbox ?r) (stamp ?r)"
    using inv by (simp add: all_backed_def replica_inv_def mail_inv_def mail_at_def)
  moreover have "ps_ok ?q"
    using vi by (simp add: ps_ok_def persistent_state_of_def view_inv_def is_recovering_def)
  moreover have "written_inv ?q r'"
    using step by (auto simp: take_write_def Let_def bind_eq_Some_conv written_inv_def written_now_def
        disk_matches_def persistent_state_of_def is_recovering_def split: if_splits)
  ultimately have "target_inv (nd_disk N) ?q r'"
    using T out by (simp add: target_inv_def f disk_stamp_state [OF vi])
  moreover have "disk_inv (nd_disk N) r'"
    using N out by (simp add: node_inv_def disk_inv_def holds_durable_def f e cap_changed_def)
  moreover have skip: "skip_inv (N\<lparr>nd_rep := r', nd_out := Some w\<rparr>)"
  proof -
    have "disk_matches (nd_disk N) ?r" if "\<not> lw_sync w"
    proof -
      have "log_changed_from ?r = None \<and> written ?r = Some (written_now ?r)"
        using that step by (auto simp: take_write_def Let_def bind_eq_Some_conv split: if_splits)
      then show ?thesis using T by (simp add: target_inv_def written_inv_def)
    qed
    then show ?thesis
      by (auto simp: skip_inv_def nd_target_def ap disk_matches_def persistent_state_of_def
          intro!: persistent_state.equality)
  qed
  ultimately show ?thesis
    using N tw(1) inv out ap skip by (simp add: node_inv_def nd_target_def writes_match_def)
qed

lemma back_node_inv:
  assumes N: "node_inv N" and T: "target_inv pa p (nd_rep N)"
    and mono: "disk_stamp (nd_disk N) \<le> disk_stamp p"
    and step: "persisted sm (nd_rep N) w = Some r'"
  shows "node_inv (N\<lparr>nd_rep := r', nd_disk := p, nd_out := None\<rparr>)"
proof -
  let ?r = "nd_rep N"
  have inv: "replica_inv ?r" using N by (simp add: node_inv_def)
  from inv step obtain os r1 r2 where os: "outstanding ?r = Some os"
    and g1: "good (?r\<lparr>outstanding := None, durable := os_op_number os\<rparr>) r1" and g2: "good r1 r2"
    and r': "r' = r2\<lparr>outbox_ready := outbox_ready r2 @ outbox_waiting r2, outbox_waiting := []\<rparr>"
    by (rule persisted_cases)
  let ?ra = "?r\<lparr>outstanding := None, durable := os_op_number os\<rparr>"
  have D: "disk_inv (nd_disk N) ?r" using N by (simp add: node_inv_def)
  have inv0: "replica_inv ?ra" using inv os by (rule write_done_inv)
  have sync0: "in_sync p ?ra" using T by (simp add: target_inv_def in_sync_def clean_def op_number_def entry_def)
  have "holds_durable p ?ra"
    unfolding holds_durable_def using sync0 cap_clean [of ?ra] inv0
    by (auto simp: in_sync_def replica_inv_def)
  moreover have ready: "all_backed (outbox_ready ?r) (disk_stamp p)" "all_backed (nd_sent N) (disk_stamp p)"
    using N D mono by (auto simp: node_inv_def disk_inv_def intro: all_backed_mono)
  ultimately have D0: "disk_inv p ?ra" using T by (simp add: disk_inv_def target_inv_def)
  have [simp]: "stamp ?ra = stamp ?r" by (simp add: stamp_def op_number_def)
  have "written_inv p ?ra = written_inv p ?r" by (rule written_cong) simp_all
  with T sync0 have T0: "target_inv p p ?ra" by (simp add: target_inv_def)
  have g: "good ?ra r2" using g1 g2 by (rule good_trans)
  then have adv: "advances ?ra r2" and inv2: "replica_inv r2" by (simp_all add: good_def)
  then have l: "advances_log ?ra r2" by (simp add: advances_def)
  have D2: "disk_inv p r2" using good_disk_inv [OF _ l D0] inv2 by (simp add: replica_inv_def)
  have T2: "target_inv p p r2" using adv T0 by (rule good_target_inv)
  have [simp]: "stamp r' = stamp r2" by (simp add: r' stamp_def op_number_def)
  have "in_sync p r' = in_sync p r2" "holds_durable p r' = holds_durable p r2"
    by (rule disk_cong; simp add: r')+
  moreover have "written_inv p r' = written_inv p r2" by (rule written_cong) (simp_all add: r')
  ultimately have "disk_inv p r'" "target_inv p p r'"
    using D2 T2 by (simp_all add: disk_inv_def target_inv_def) (simp_all add: r')
  moreover have "outstanding r' = None" using advances_logD(7) [OF l] by (simp add: r')
  moreover have "replica_inv r'" using inv2 unfolding r' by (rule mail_moved_inv)
  ultimately show ?thesis using ready by (simp add: node_inv_def nd_target_def writes_match_def skip_inv_def)
qed

lemma landed_node_inv:
  assumes "node_inv N" and "nd_out N = Some w" and "ps_apply (nd_disk N) w = Some p"
    and "persisted sm (nd_rep N) w = Some r'"
  shows "node_inv (N\<lparr>nd_rep := r', nd_disk := p, nd_out := None\<rparr>)"
proof -
  have T: "target_inv (nd_disk N) p (nd_rep N)" using assms(1-3) by (simp add: node_inv_def nd_target_def)
  then have "disk_stamp (nd_disk N) \<le> disk_stamp p" by (simp add: target_inv_def)
  with assms(1) T show ?thesis using assms(4) by (rule back_node_inv)
qed

lemma skipped_node_inv:
  assumes N: "node_inv N" and w: "nd_out N = Some w" "\<not> lw_sync w"
    and step: "persisted sm (nd_rep N) w = Some r'"
  shows "node_inv (N\<lparr>nd_rep := r', nd_out := None\<rparr>)"
proof -
  from N obtain q where q: "nd_target N = Some q" "target_inv (nd_disk N) q (nd_rep N)"
    by (auto simp: node_inv_def)
  moreover have "skip_inv N" using N by (simp add: node_inv_def)
  ultimately obtain k where k: "q = (nd_disk N)\<lparr>ps_commit_number := k\<rparr>"
    using w unfolding skip_inv_def by blast
  have "target_inv (nd_disk N) (nd_disk N) (nd_rep N)"
    using q(2) by (simp add: k target_inv_def)
  from back_node_inv [OF N this order_refl step] show ?thesis by simp
qed

section \<open>Crashes\<close>

lemma restart_from_entry:
  fixes r :: "('s, 'op, 'q, 'out, 'chunk) replica"
  assumes step: "restart_from i cfg s appl p nonce = Some r" and i: "i < replica_count cfg"
    and kept: "ps_log_start p \<le> appl"
  shows "ps_log_start p \<le> log_start r"
    and "\<And>n. log_start r < n \<Longrightarrow> n \<le> op_number r \<Longrightarrow> entry r n = ps_entry p n"
    and "\<not> ps_recovering p \<Longrightarrow> ps_op_number p \<le> op_number r"
proof -
  have "ps_log_start p \<le> log_start r
    \<and> (\<forall>n. log_start r < n \<and> n \<le> op_number r \<longrightarrow> entry r n = ps_entry p n)
    \<and> (\<not> ps_recovering p \<longrightarrow> ps_op_number p \<le> op_number r)"
  proof (cases "ps_recovering p")
    case True
    then obtain rr :: "('s, 'op, 'q, 'out, 'chunk) replica"
      where rr: "recover i cfg s (ps_view_number p) nonce = Some rr"
      and r: "r = rr\<lparr>log_start := appl, commit_number := appl\<rparr>"
      using step by (auto simp: restart_from_def bind_eq_Some_conv)
    have "log rr = []" using recover_booting(8) [OF rr i] .
    with True kept show ?thesis by (auto simp: r op_number_def)
  next
    case False
    let ?gone = "min (appl - ps_log_start p) (length (ps_log p))"
    from False step have r: "log_start r = appl \<and> log r = drop ?gone (ps_log p)
        \<or> log_start r = ps_log_start p \<and> log r = ps_log p"
      by (auto simp: restart_from_def Let_def checked_sub_def bind_eq_Some_conv split: if_splits)
    then show ?thesis
    proof
      assume a: "log_start r = appl \<and> log r = drop ?gone (ps_log p)"
      have "entry r n = ps_entry p n" if n: "appl < n" "n \<le> op_number r" for n
      proof -
        have "ps_log_start p + 1 \<le> n" "n - (appl + 1) < length (log r)"
          using n a kept by (auto simp: op_number_def)
        moreover from this have "?gone = appl - ps_log_start p" using a by auto
        moreover from calculation n kept
        have "drop ?gone (ps_log p) ! (n - (appl + 1)) = ps_log p ! (n - (ps_log_start p + 1))"
          by (simp add: nth_drop)
        ultimately show ?thesis
          using n a kept by (auto simp: entry_def ps_entry_def nth_chk_def)
      qed
      with a kept show ?thesis by (auto simp: op_number_def ps_op_number_def)
    next
      assume a: "log_start r = ps_log_start p \<and> log r = ps_log p"
      then show ?thesis by (simp add: entry_def ps_entry_def op_number_def ps_op_number_def)
    qed
  qed
  then show "ps_log_start p \<le> log_start r"
    "\<And>n. log_start r < n \<Longrightarrow> n \<le> op_number r \<Longrightarrow> entry r n = ps_entry p n"
    "\<not> ps_recovering p \<Longrightarrow> ps_op_number p \<le> op_number r" by blast+
qed

lemma restart_disk_inv:
  fixes r' :: "('s, 'op, 'q, 'out, 'chunk) replica"
  assumes step: "restart sm i cfg s appl p nonce = Some r'" and i: "i < replica_count cfg"
    and views: "ps_ok p" and kept: "ps_log_start p \<le> appl"
  shows "replica_inv r'" and "disk_inv p r'" and "target_inv p p r'" and "outstanding r' = None"
proof -
  have lnv: "ps_last_normal_view p \<le> ps_view_number p" using views by (simp add: ps_ok_def)
  from restart_good [OF step i lnv] obtain r :: "('s, 'op, 'q, 'out, 'chunk) replica"
    where from': "restart_from i cfg s appl p nonce = Some r" and op: "commit_number r \<le> op_number r"
      and g: "good (unsettled (boot_state sm r appl p)) r'"
      and far: "ps_recovering p \<or> ps_last_normal_view p < ps_view_number p
        \<or> ps_view_number p < view_number r' \<or> status r' = Normal \<and> op_number r' = op_number r"
    by blast
  define ra where "ra = unsettled (boot_state sm r appl p)"
  note b = restart_from_booting [OF from' i lnv] and e = restart_from_entry [OF from' i kept]
  have boot: "booting (boot_state sm r appl p)" using b(1) by (rule boot_state_booting)
  have ra: "log_start ra = log_start r" "log ra = log r" "log_changed_from ra = None"
    "durable ra = op_number r" "op_number ra = op_number r" "stamp ra = (ps_view_number p, 0)"
    using boot b(4) by (simp_all add: ra_def unsettled_def boot_state_same booting_def op_number_def stamp_def)
  have en: "entry ra n = entry r n" for n by (simp add: entry_def ra)
  have mail: "all_backed (outbox_ready ra) st" "all_backed (outbox_waiting ra) st" for st
    using boot by (simp_all add: booting_def ra_def unsettled_def)
  have D: "disk_inv p ra"
    using views mail e(2) by (simp add: disk_inv_def holds_durable_def ra en cap_changed_def)
  have sync: "in_sync p ra" using e(1,2) by (simp add: in_sync_def clean_def ra en)
  show inv: "replica_inv r'" using g by (simp add: good_def)
  have adv: "advances ra r'" using g by (simp add: good_def ra_def unsettled_def)
  then have l: "advances_log ra r'" and st: "stamp ra \<le> stamp r'" by (simp_all add: advances_def)
  show "disk_inv p r'" using good_disk_inv [OF _ l D] inv by (simp add: replica_inv_def)
  show "outstanding r' = None"
    using advances_logD(7) [OF l] boot by (simp add: ra_def unsettled_def booting_def)
  have "written_inv p ra"
  proof -
    have wr: "written ra = Some \<lparr>wr_view_number = ps_view_number p,
        wr_last_normal_view = ps_last_normal_view p, wr_recovering = ps_recovering p,
        wr_log_start = ps_log_start p\<rparr>"
      by (simp add: ra_def unsettled_def boot_state_def Let_def load_client_table_def)
    have lnv': "last_normal_view r = ps_last_normal_view p"
      using b(5,7,8) views by (cases "ps_recovering p") (simp_all add: ps_ok_def)
    have sts: "is_recovering ra = ps_recovering p" "view_number ra = ps_view_number p"
      "last_normal_view ra = ps_last_normal_view p"
      using b(4,5) lnv' by (simp_all add: ra_def unsettled_def boot_state_same is_recovering_def)
    have "log r = ps_log p" if "log_start r = ps_log_start p" "\<not> ps_recovering p"
      using from' that kept by (auto simp: restart_from_def Let_def checked_sub_def bind_eq_Some_conv
          split: if_splits)
    moreover have "ps_log p = []" if "ps_recovering p" using that views by (simp add: ps_ok_def)
    ultimately show ?thesis
      using e(1) b(5,7) by (cases "ps_recovering p") (auto simp: written_inv_def wr written_now_def disk_matches_def ra sts)
  qed
  then have written: "written_inv p r'" by (rule good_written_inv [OF l])
  have st': "(ps_view_number p, 0) \<le> stamp r'" using st by (simp only: ra(6))
  then have view: "ps_view_number p \<le> view_number r'" by (auto simp: stamp_def)
  have "disk_stamp p \<le> stamp r'"
  proof (cases "ps_recovering p \<or> ps_last_normal_view p < ps_view_number p")
    case True
    then show ?thesis using st' by (auto simp: disk_stamp_def)
  next
    case False
    then show ?thesis using far view e(3) by (auto simp: disk_stamp_def stamp_def)
  qed
  moreover have "in_sync p r'"
    using sync advances_logD(6) [OF l] advances_logD(11,12) [OF l] by (auto simp: in_sync_def)
  ultimately show "target_inv p p r'"
    using views mail written by (simp add: target_inv_def advances_logD(9) [OF l])
qed

section \<open>Reachable nodes\<close>

lemma crash_node_inv:
  assumes N: "node_inv N" and p: "p = nd_disk N \<or> nd_out N = Some w \<and> ps_apply (nd_disk N) w = Some p"
    and kept: "ps_log_start p \<le> appl"
    and step: "restart sm (self_id (nd_rep N)) (config (nd_rep N)) s appl p nonce = Some r'"
  shows "node_inv (N\<lparr>nd_rep := r', nd_disk := p, nd_out := None\<rparr>)"
proof -
  have views: "ps_ok p" and mono: "disk_stamp (nd_disk N) \<le> disk_stamp p"
    using N p by (auto simp: node_inv_def disk_inv_def target_inv_def nd_target_def)
  have "self_id (nd_rep N) < replica_count (config (nd_rep N))"
    using N by (simp add: node_inv_def replica_inv_def shape_inv_def)
  note r = restart_disk_inv [OF step this views kept]
  have "all_backed (nd_sent N) (disk_stamp p)"
    using N mono by (auto simp: node_inv_def intro: all_backed_mono)
  with r show ?thesis by (simp add: node_inv_def nd_target_def writes_match_def skip_inv_def)
qed

lemma booting_node_inv:
  assumes "replica_inv r" and "booting r" and "log_start r = 0" and "log r = []" and "durable r = 0"
    and "written r = None"
    and "p = ps_empty \<or> p = ps_empty\<lparr>ps_view_number := view_number r, ps_recovering := True\<rparr>"
  shows "node_inv \<lparr>nd_rep = r, nd_disk = p, nd_out = None, nd_sent = []\<rparr>"
proof -
  have "all_backed (outbox_ready r) st" "all_backed (outbox_waiting r) st" for st
    using assms(2) by (simp_all add: booting_def)
  moreover have "outstanding r = None" "log_changed_from r = None" using assms(2) by (simp_all add: booting_def)
  ultimately show ?thesis
    using assms(1,3-7)
    by (auto simp: node_inv_def disk_inv_def target_inv_def nd_target_def writes_match_def ps_ok_def
        holds_durable_def in_sync_def clean_def op_number_def cap_changed_def disk_stamp_def ps_empty_def
        ps_op_number_def stamp_def written_inv_def skip_inv_def)
qed

lemma node_init_inv: "node_init N \<Longrightarrow> node_inv N"
proof (induction rule: node_init.induct)
  case (fresh i cfg s r)
  then show ?case
    by (intro booting_node_inv replica_new_inv replica_new_booting)
      (auto simp: replica_new_def split: if_splits)
next
  case (diskless i cfg s v nonce r p)
  then obtain rn where "replica_new i cfg s = Some rn"
    and "r = send_recovery (rn\<lparr>status := Recovering, view_number := v, recovery_nonce := nonce\<rparr>)"
    by (auto simp: recover_def bind_eq_Some_conv)
  then have "log_start r = 0" "durable r = 0" "written r = None" "view_number r = v"
    using mailed_send_recovery [of "\<lambda>_. True" "rn\<lparr>status := Recovering, view_number := v, recovery_nonce := nonce\<rparr>"]
    by (auto elim!: mailedE simp: replica_new_def split: if_splits)
  with diskless show ?case by (intro booting_node_inv) (auto dest: recover_booting)
qed

lemma node_invD: "node_inv N \<Longrightarrow> replica_inv (nd_rep N)"
  by (simp add: node_inv_def)

lemma run_step_inv: "run_step sm N N' \<Longrightarrow> node_inv N \<Longrightarrow> node_inv N'"
proof (induction rule: run_step.induct)
  case (replied N r' reps)
  then have "good (nd_rep N) r'"
    by (intro core_good) (auto simp: drain_replies_def dest: node_invD)
  with replied show ?case by (intro good_node_inv)
next
  case (early N r' ms)
  then have "all_backed ms (disk_stamp (nd_disk N))"
    by (intro early_all_backed)
      (auto simp: drain_messages_before_persist_def node_inv_def replica_inv_def mail_inv_def mail_at_def)
  then show ?case
    using early drained_node_inv [of N "outbox_ready (nd_rep N)" ms]
    by (auto simp: drain_messages_before_persist_def)
next
  case (drain N r' ms)
  have "all_backed (outbox_early (nd_rep N)) (disk_stamp (nd_disk N))"
    using drain by (intro early_all_backed) (auto simp: node_inv_def replica_inv_def mail_inv_def mail_at_def)
  moreover have "all_backed (outbox_ready (nd_rep N)) (disk_stamp (nd_disk N))"
    using drain by (simp add: node_inv_def disk_inv_def)
  ultimately show ?case
    using drain drained_node_inv [of N "[]" ms] by (auto simp: drain_messages_def)
qed (blast intro: good_node_inv on_message_good on_idle_good compact_good
    take_node_inv landed_node_inv skipped_node_inv node_invD)+

lemma node_step_inv: "node_step sm N N' \<Longrightarrow> node_inv N \<Longrightarrow> node_inv N'"
  by (induction rule: node_step.induct) (auto intro: run_step_inv crash_node_inv)

lemma reachable_inv: "reachable sm N \<Longrightarrow> node_inv N"
  by (induction rule: reachable.induct) (auto intro: node_init_inv node_step_inv)

end
