(* ===== verification/VSR_Run.thy ===== *)
theory VSR_Run
  imports VSR_Node
begin

text \<open>
  The owner's schedule as a program: \<open>perform\<close> is one action of the owner, executable, and
  exactly the steps of \<open>node_step\<close>.  With it a run of a node can be computed; and the runs
  between two crashes are shown to be progress.
\<close>

section \<open>Actions\<close>

datatype ('s, 'op, 'q, 'chunk) action =
    AMessage "('op, 'q, 'chunk) message"
  | AIdle
  | ACompact OpNumber
  | AReplies
  | AEarly
  | ADrain
  | ATake
  | ALand
  | ASkip
  | ACrash bool 's OpNumber nat

definition with_rep ::
  "('s, 'op, 'q, 'out, 'chunk) node \<Rightarrow> ('s, 'op, 'q, 'out, 'chunk) replica
   \<Rightarrow> ('s, 'op, 'q, 'out, 'chunk) node" where
  "with_rep N r = N\<lparr>nd_rep := r\<rparr>"

text \<open>The disk a crash leaves: without the write that was out, or with it.\<close>

definition crash_disk :: "('s, 'op, 'q, 'out, 'chunk) node \<Rightarrow> bool \<Rightarrow> 'op persistent_state option" where
  "crash_disk N whole = (if whole then Option.bind (nd_out N) (ps_apply (nd_disk N)) else Some (nd_disk N))"

fun perform ::
  "('s, 'op, 'q, 'out, 'chunk) state_machine \<Rightarrow> ('s, 'op, 'q, 'out, 'chunk) node
   \<Rightarrow> ('s, 'op, 'q, 'chunk) action \<Rightarrow> ('s, 'op, 'q, 'out, 'chunk) node option" where
  "perform sm N (AMessage m) = map_option (with_rep N) (on_message sm (nd_rep N) m)"
| "perform sm N AIdle = map_option (with_rep N) (on_idle sm (nd_rep N))"
| "perform sm N (ACompact n) = map_option (with_rep N) (compact (nd_rep N) n)"
| "perform sm N AReplies = Some (with_rep N (fst (drain_replies (nd_rep N))))"
| "perform sm N AEarly = (case drain_messages_before_persist (nd_rep N) of (r, ms) \<Rightarrow>
     Some (N\<lparr>nd_rep := r, nd_sent := nd_sent N @ ms\<rparr>))"
| "perform sm N ADrain = (case drain_messages (nd_rep N) of (r, ms) \<Rightarrow>
     Some (N\<lparr>nd_rep := r, nd_sent := nd_sent N @ ms\<rparr>))"
| "perform sm N ATake = do {
     (r, w) \<leftarrow> take_write (nd_rep N);
     Some (N\<lparr>nd_rep := r, nd_out := Some w\<rparr>) }"
| "perform sm N ALand = do {
     w \<leftarrow> nd_out N;
     p \<leftarrow> ps_apply (nd_disk N) w;
     r \<leftarrow> persisted sm (nd_rep N) w;
     Some (N\<lparr>nd_rep := r, nd_disk := p, nd_out := None\<rparr>) }"
| "perform sm N ASkip = do {
     w \<leftarrow> nd_out N;
     ensure (\<not> lw_sync w);
     r \<leftarrow> persisted sm (nd_rep N) w;
     Some (N\<lparr>nd_rep := r, nd_out := None\<rparr>) }"
| "perform sm N (ACrash whole s appl nonce) = do {
     p \<leftarrow> crash_disk N whole;
     ensure (ps_log_start p \<le> appl);
     r \<leftarrow> restart sm (self_id (nd_rep N)) (config (nd_rep N)) s appl p nonce;
     Some (N\<lparr>nd_rep := r, nd_disk := p, nd_out := None\<rparr>) }"

fun perform_all ::
  "('s, 'op, 'q, 'out, 'chunk) state_machine \<Rightarrow> ('s, 'op, 'q, 'out, 'chunk) node
   \<Rightarrow> ('s, 'op, 'q, 'chunk) action list \<Rightarrow> ('s, 'op, 'q, 'out, 'chunk) node option" where
  "perform_all sm N [] = Some N"
| "perform_all sm N (a # as) = do { N' \<leftarrow> perform sm N a; perform_all sm N' as }"

definition node_new :: "ReplicaID \<Rightarrow> config \<Rightarrow> 's \<Rightarrow> ('s, 'op, 'q, 'out, 'chunk) node option" where
  "node_new i cfg s = do {
     ensure (i < replica_count cfg);
     r \<leftarrow> replica_new i cfg s;
     Some \<lparr>nd_rep = r, nd_disk = ps_empty, nd_out = None, nd_sent = []\<rparr> }"

section \<open>Actions are the steps\<close>

fun is_crash :: "('s, 'op, 'q, 'chunk) action \<Rightarrow> bool" where
  "is_crash (ACrash whole s appl nonce) = True"
| "is_crash _ = False"

lemma perform_run_step: "perform sm N a = Some N' \<Longrightarrow> \<not> is_crash a \<Longrightarrow> run_step sm N N'"
  by (cases a) (auto simp: with_rep_def bind_eq_Some_conv drain_replies_def drain_messages_def
    drain_messages_before_persist_def split: if_splits intro: run_step.intros)

lemma perform_step: "perform sm N a = Some N' \<Longrightarrow> node_step sm N N'"
proof (cases a)
  case (ACrash whole s appl nonce)
  assume "perform sm N a = Some N'"
  with ACrash obtain p r where "crash_disk N whole = Some p" "ps_log_start p \<le> appl"
    "restart sm (self_id (nd_rep N)) (config (nd_rep N)) s appl p nonce = Some r"
    and N': "N' = N\<lparr>nd_rep := r, nd_disk := p, nd_out := None\<rparr>"
    by (auto simp: bind_eq_Some_conv split: if_splits)
  then show ?thesis unfolding N'
    by (intro node_step.crash [where w = "the (nd_out N)"])
      (auto simp: crash_disk_def bind_eq_Some_conv split: if_splits)
qed (rule node_step.run [OF perform_run_step], assumption, simp)+

lemma run_step_performs: "run_step sm N N' \<Longrightarrow> \<exists>a. perform sm N a = Some N'"
proof (induction rule: run_step.induct)
  case (message N m r')
  then show ?case by (intro exI [of _ "AMessage m"]) (simp add: with_rep_def)
next
  case (idle N r')
  then show ?case by (intro exI [of _ AIdle]) (simp add: with_rep_def)
next
  case (compacted N n r')
  then show ?case by (intro exI [of _ "ACompact n"]) (simp add: with_rep_def)
next
  case (replied N r' reps)
  then show ?case by (intro exI [of _ AReplies]) (simp add: with_rep_def)
next
  case (early N r' ms)
  then show ?case by (intro exI [of _ AEarly]) simp
next
  case (drain N r' ms)
  then show ?case by (intro exI [of _ ADrain]) simp
next
  case (take N r' w)
  then show ?case by (intro exI [of _ ATake]) simp
next
  case (landed N w p r')
  then show ?case by (intro exI [of _ ALand]) simp
next
  case (skipped N w r')
  then show ?case by (intro exI [of _ ASkip]) simp
qed

lemma node_step_performs: "node_step sm N N' \<Longrightarrow> \<exists>a. perform sm N a = Some N'"
proof (induction rule: node_step.induct)
  case (run N N')
  then show ?case by (rule run_step_performs)
next
  case (crash p N w appl s nonce r')
  then have "perform sm N (ACrash (p \<noteq> nd_disk N) s appl nonce) =
      Some (N\<lparr>nd_rep := r', nd_disk := p, nd_out := None\<rparr>)"
    by (auto simp: crash_disk_def)
  then show ?case by blast
qed

lemma reachable_perform_all: "perform_all sm N as = Some N' \<Longrightarrow> reachable sm N \<Longrightarrow> reachable sm N'"
  by (induction as arbitrary: N) (auto simp: bind_eq_Some_conv dest: perform_step intro: reachable.step)

lemma reachable_node_new:
  "Option.bind (node_new i cfg s) (\<lambda>N. perform_all sm N as) = Some N \<Longrightarrow> reachable sm N"
proof -
  assume "Option.bind (node_new i cfg s) (\<lambda>N. perform_all sm N as) = Some N"
  then obtain r where "replica_new i cfg s = Some r" and "i < replica_count cfg"
    and run: "perform_all sm \<lparr>nd_rep = r, nd_disk = ps_empty, nd_out = None, nd_sent = []\<rparr> as = Some N"
    by (auto simp: bind_eq_Some_conv node_new_def split: if_splits)
  then have "reachable sm \<lparr>nd_rep = r, nd_disk = ps_empty, nd_out = None, nd_sent = []\<rparr>"
    by (intro reachable.init node_init.fresh)
  with run show ?thesis by (rule reachable_perform_all)
qed

section \<open>Between crashes\<close>

lemma progress_refl [simp]: "progress r r"
  by (simp add: progress_def)

lemma good_progress: "good r r' \<Longrightarrow> progress r r'"
  by (simp add: good_def advances_progress)

lemma progress_same_log:
  assumes "config r' = config r" and "self_id r' = self_id r" and "stamp r \<le> stamp r'"
    and "commit_number r \<le> commit_number r'" and "applied r \<le> applied r'"
    and "log_start r' = log_start r" and "log r' = log r"
  shows "progress r r'"
  using assms by (simp add: progress_def entry_def)

lemma run_step_progress: "run_step sm N N' \<Longrightarrow> node_inv N \<Longrightarrow> progress (nd_rep N) (nd_rep N')"
proof (induction rule: run_step.induct)
  case (replied N r' reps)
  then show ?case by (auto simp: drain_replies_def stamp_def op_number_def intro!: progress_same_log)
next
  case (early N r' ms)
  then show ?case
    by (auto simp: drain_messages_before_persist_def stamp_def op_number_def intro!: progress_same_log)
next
  case (drain N r' ms)
  then show ?case by (auto simp: drain_messages_def stamp_def op_number_def intro!: progress_same_log)
qed (auto intro: good_progress [OF on_message_good] good_progress [OF on_idle_good]
    good_progress [OF compact_good] take_write_inv persisted_inv node_invD)

lemma runs_progress:
  assumes "(run_step sm)\<^sup>*\<^sup>* N N'" and "node_inv N"
  shows "progress (nd_rep N) (nd_rep N')"
proof -
  have "progress (nd_rep N) (nd_rep N') \<and> node_inv N'"
    using assms by (induction rule: rtranclp_induct) (auto intro: progress_trans run_step_progress run_step_inv)
  then show ?thesis ..
qed

lemma perform_all_runs:
  "perform_all sm N as = Some N' \<Longrightarrow> list_all (\<lambda>a. \<not> is_crash a) as \<Longrightarrow> (run_step sm)\<^sup>*\<^sup>* N N'"
  by (induction as arbitrary: N)
    (auto simp: bind_eq_Some_conv dest: perform_run_step intro: converse_rtranclp_into_rtranclp)

end
