(* ===== verification/VSR_Store.thy ===== *)
theory VSR_Store
  imports VSR_Types
begin

text \<open>
  What the trait \<open>StateMachine\<close> of \<open>src/lib.rs\<close> documents of the client table, as the
  interface between a replica and the state machine it executes on: the table is what the
  records handed to \<open>record_client\<close> left, and executing an operation, keeping a checkpoint,
  dropping it or staging a chunk does not change it.
\<close>

locale client_store =
  fixes sm :: "('s, 'op, 'q, 'out, 'chunk) state_machine"
    and store_ok :: "'s \<Rightarrow> bool"
  assumes record_ok: "store_ok s \<Longrightarrow> (\<And>rec. ro = Some rec \<Longrightarrow> rec_client_id rec = c) \<Longrightarrow>
     store_ok (sm_record_client sm s n c ro)"
    and table_record: "store_ok s \<Longrightarrow> (\<And>rec. ro = Some rec \<Longrightarrow> rec_client_id rec = c) \<Longrightarrow>
     table_of (sm_client_table sm (sm_record_client sm s n c ro)) =
       (table_of (sm_client_table sm s))(c := ro)"
    and apply_ok: "store_ok s \<Longrightarrow> sm_apply sm s n op = Some (s', out) \<Longrightarrow> store_ok s'"
    and table_apply: "store_ok s \<Longrightarrow> sm_apply sm s n op = Some (s', out) \<Longrightarrow>
     table_of (sm_client_table sm s') = table_of (sm_client_table sm s)"
    and table_distinct: "store_ok s \<Longrightarrow> distinct (map rec_client_id (sm_client_table sm s))"

end
