(* ===== verification/Sim_Accumulator.thy ===== *)
theory Sim_Accumulator
  imports VSR_Store "HOL-Library.Word" "HOL-Library.Sublist"
begin

text \<open>
  The state machine the simulator replicates, \<open>src/simulator/state_machine.rs\<close>: an
  accumulator of 64-bit integers that wraps around, records every operation it applied and
  every client record it was handed, and moves its state between replicas in chunks.
\<close>

section \<open>Operations\<close>

type_synonym i64 = "64 word"

datatype op_kind = Add i64 | Sub i64

fun kind_apply :: "op_kind \<Rightarrow> i64 \<Rightarrow> i64" where
  "kind_apply (Add v) x = x + v"
| "kind_apply (Sub v) x = x - v"

record acc_op =
  op_id :: nat
  op_kind :: op_kind

type_synonym acc_history = "(OpNumber \<times> acc_op) list"
type_synonym acc_records = "(OpNumber \<times> ClientID \<times> i64 client_record option) list"
type_synonym acc_table = "(ClientID \<times> i64 client_record) list"

section \<open>The state\<close>

record kept_checkpoint =
  kp_op_number :: OpNumber
  kp_applied :: nat
  kp_recorded :: nat
  kp_value :: i64
  kp_clients :: acc_table

record acc_chunk =
  ch_applied :: acc_history
  ch_recorded :: acc_records
  ch_last :: "(i64 \<times> acc_table) option"

record accumulator =
  acc_value :: i64
  acc_applied :: acc_history
  acc_clients :: acc_table
  acc_recorded :: acc_records
  acc_op_number :: OpNumber
  acc_kept :: "kept_checkpoint option"
  acc_staged :: "(OpNumber \<times> acc_chunk) list"

definition acc_default :: accumulator where
  "acc_default = \<lparr>acc_value = 0, acc_applied = [], acc_clients = [], acc_recorded = [],
     acc_op_number = 0, acc_kept = None, acc_staged = []\<rparr>"

definition acc_flushed :: "accumulator \<Rightarrow> accumulator" where
  "acc_flushed s = s\<lparr>acc_kept := None\<rparr>"

section \<open>The trait\<close>

definition acc_apply :: "accumulator \<Rightarrow> OpNumber \<Rightarrow> acc_op \<Rightarrow> (accumulator \<times> i64) option" where
  "acc_apply s n op = do {
     ensure (acc_applied s = [] \<or> fst (last (acc_applied s)) < n);
     let s = s\<lparr>acc_value := kind_apply (op_kind op) (acc_value s),
               acc_applied := acc_applied s @ [(n, op)], acc_op_number := n\<rparr>;
     Some (s, of_nat (length (acc_applied s))) }"

definition acc_query :: "accumulator \<Rightarrow> unit \<Rightarrow> i64" where
  "acc_query s q = of_nat (length (acc_applied s))"

definition acc_record_client ::
  "accumulator \<Rightarrow> OpNumber \<Rightarrow> ClientID \<Rightarrow> i64 client_record option \<Rightarrow> accumulator" where
  "acc_record_client s n c ro =
     s\<lparr>acc_clients := (case ro of Some rec \<Rightarrow> bt_insert c rec (acc_clients s)
                         | None \<Rightarrow> bt_remove c (acc_clients s)),
       acc_recorded := acc_recorded s @ [(n, c, ro)], acc_op_number := n\<rparr>"

definition acc_client_table :: "accumulator \<Rightarrow> i64 client_record list" where
  "acc_client_table s = map snd (acc_clients s)"

definition acc_checkpoint :: "accumulator \<Rightarrow> accumulator \<times> OpNumber" where
  "acc_checkpoint s =
     (s\<lparr>acc_kept := Some \<lparr>kp_op_number = acc_op_number s, kp_applied = length (acc_applied s),
          kp_recorded = length (acc_recorded s), kp_value = acc_value s,
          kp_clients = acc_clients s\<rparr>\<rparr>, acc_op_number s)"

text \<open>\<open>div_ceil\<close>, and a slice, which panics beyond the end.\<close>

definition div_ceil :: "nat \<Rightarrow> nat \<Rightarrow> nat" where
  "div_ceil a b = (a + b - 1) div b"

definition slice_chk :: "'a list \<Rightarrow> nat \<Rightarrow> nat \<Rightarrow> 'a list option" where
  "slice_chk xs a b = (if a \<le> b \<and> b \<le> length xs then Some (take (b - a) (drop a xs)) else None)"

definition chunk_count :: "OpNumber \<Rightarrow> nat" where
  "chunk_count n = 1 + n mod 4"

definition chunk_part :: "'a list \<Rightarrow> nat \<Rightarrow> nat \<Rightarrow> nat \<Rightarrow> 'a list option" where
  "chunk_part xs len count i =
     (let sz = div_ceil len count in slice_chk xs (min (i * sz) len) (min ((i + 1) * sz) len))"

definition acc_checkpoint_chunk :: "accumulator \<Rightarrow> nat \<Rightarrow> (acc_chunk \<times> bool) option" where
  "acc_checkpoint_chunk s i = do {
     kept \<leftarrow> acc_kept s;
     let count = chunk_count (kp_op_number kept);
     let is_last = (i + 1 = count);
     a \<leftarrow> chunk_part (acc_applied s) (kp_applied kept) count i;
     b \<leftarrow> chunk_part (acc_recorded s) (kp_recorded kept) count i;
     Some (\<lparr>ch_applied = a, ch_recorded = b,
            ch_last = (if is_last then Some (kp_value kept, kp_clients kept) else None)\<rparr>, is_last) }"

definition acc_release_checkpoint :: "accumulator \<Rightarrow> accumulator option" where
  "acc_release_checkpoint s = do { ensure (acc_kept s \<noteq> None); Some (s\<lparr>acc_kept := None\<rparr>) }"

definition acc_stage_chunk :: "accumulator \<Rightarrow> OpNumber \<Rightarrow> nat \<Rightarrow> acc_chunk \<Rightarrow> accumulator option" where
  "acc_stage_chunk s n i chunk = do {
     let s = (if i = 0 then s\<lparr>acc_staged := []\<rparr> else s);
     ensure (i = length (acc_staged s));
     Some (s\<lparr>acc_staged := acc_staged s @ [(n, chunk)]\<rparr>) }"

fun restore_chunks ::
  "OpNumber \<Rightarrow> (OpNumber \<times> acc_chunk) list \<Rightarrow> accumulator \<Rightarrow> accumulator option" where
  "restore_chunks n [] s = Some s"
| "restore_chunks n ((at, chunk) # rest) s = do {
     ensure (n = at);
     let s = s\<lparr>acc_applied := acc_applied s @ ch_applied chunk,
               acc_recorded := acc_recorded s @ ch_recorded chunk\<rparr>;
     restore_chunks n rest
       (case ch_last chunk of
          Some (v, cs) \<Rightarrow> s\<lparr>acc_value := v, acc_clients := cs\<rparr>
        | None \<Rightarrow> s) }"

definition acc_restore :: "accumulator \<Rightarrow> OpNumber \<Rightarrow> accumulator option" where
  "acc_restore s n = do {
     s \<leftarrow> restore_chunks n (acc_staged s) (s\<lparr>acc_staged := [], acc_applied := [], acc_recorded := []\<rparr>);
     ensure (acc_applied s = [] \<or> fst (last (acc_applied s)) \<le> n);
     Some (s\<lparr>acc_op_number := n\<rparr>) }"

definition acc_sm :: "(accumulator, acc_op, unit, i64, acc_chunk) state_machine" where
  "acc_sm = \<lparr>sm_apply = acc_apply, sm_query = acc_query, sm_record_client = acc_record_client,
     sm_client_table = acc_client_table, sm_checkpoint = acc_checkpoint,
     sm_checkpoint_chunk = acc_checkpoint_chunk, sm_release_checkpoint = acc_release_checkpoint,
     sm_stage_chunk = acc_stage_chunk, sm_restore = acc_restore\<rparr>"

lemma acc_sm_simps [simp]:
  "sm_apply acc_sm = acc_apply" "sm_query acc_sm = acc_query"
  "sm_record_client acc_sm = acc_record_client" "sm_client_table acc_sm = acc_client_table"
  "sm_checkpoint acc_sm = acc_checkpoint" "sm_checkpoint_chunk acc_sm = acc_checkpoint_chunk"
  "sm_release_checkpoint acc_sm = acc_release_checkpoint" "sm_stage_chunk acc_sm = acc_stage_chunk"
  "sm_restore acc_sm = acc_restore"
  by (simp_all add: acc_sm_def)

section \<open>Catching up with a later copy\<close>

fun apply_all :: "accumulator \<Rightarrow> acc_history \<Rightarrow> accumulator option" where
  "apply_all s [] = Some s"
| "apply_all s ((n, op) # rest) = do { (s, _) \<leftarrow> acc_apply s n op; apply_all s rest }"

fun record_all :: "accumulator \<Rightarrow> acc_records \<Rightarrow> accumulator" where
  "record_all s [] = s"
| "record_all s ((n, c, ro) # rest) = record_all (acc_record_client s n c ro) rest"

definition acc_catch_up :: "accumulator \<Rightarrow> accumulator \<Rightarrow> OpNumber \<Rightarrow> OpNumber \<Rightarrow> accumulator option" where
  "acc_catch_up s later from to = do {
     s \<leftarrow> apply_all s (filter (\<lambda>(n, _). from + 1 \<le> n \<and> n \<le> to) (acc_applied later));
     Some (record_all s (filter (\<lambda>(n, _, _). from + 1 \<le> n \<and> n \<le> to) (acc_recorded later))) }"

section \<open>The client table\<close>

text \<open>The table is ordered by client and files every record under its client.\<close>

definition acc_ok :: "accumulator \<Rightarrow> bool" where
  "acc_ok s \<longleftrightarrow> bt_wf (acc_clients s) \<and> (\<forall>(c, rec) \<in> set (acc_clients s). rec_client_id rec = c)"

lemma set_bt_insert_sub: "set (bt_insert k v m) \<subseteq> insert (k, v) (set m)"
  by (induction k v m rule: bt_insert.induct) auto

lemma table_of_values:
  "(\<forall>(c, rec) \<in> set m. rec_client_id rec = c) \<Longrightarrow> table_of (map snd m) = map_of m"
  by (induction m) (auto simp: table_of_def)

lemma map_rec_id:
  "(\<forall>(c, rec) \<in> set m. rec_client_id rec = c) \<Longrightarrow> map rec_client_id (map snd m) = map fst m"
  by (induction m) auto

lemma acc_record_client_ok:
  "acc_ok s \<Longrightarrow> (\<And>rec. ro = Some rec \<Longrightarrow> rec_client_id rec = c) \<Longrightarrow> acc_ok (acc_record_client s n c ro)"
  using set_bt_insert_sub [of c _ "acc_clients s"]
  by (cases ro) (auto simp: acc_ok_def acc_record_client_def bt_wf_insert bt_wf_filter bt_remove_def dest!: subsetD)

lemma acc_record_client_table:
  assumes "acc_ok s" and "\<And>rec. ro = Some rec \<Longrightarrow> rec_client_id rec = c"
  shows "table_of (acc_client_table (acc_record_client s n c ro)) = (table_of (acc_client_table s))(c := ro)"
proof -
  have "acc_ok (acc_record_client s n c ro)" using assms by (rule acc_record_client_ok)
  with assms(1) show ?thesis
    by (cases ro) (simp_all add: acc_client_table_def acc_ok_def table_of_values, simp_all add: acc_record_client_def)
qed

lemma acc_apply_clients: "acc_apply s n op = Some (s', out) \<Longrightarrow> acc_clients s' = acc_clients s"
  by (auto simp: acc_apply_def Let_def split: if_splits)

lemma acc_ok_distinct: "acc_ok s \<Longrightarrow> distinct (map rec_client_id (acc_client_table s))"
  unfolding acc_client_table_def acc_ok_def by (metis map_rec_id bt_wf_distinct)

interpretation acc: client_store acc_sm acc_ok
proof
  fix s n op s' out
  assume "acc_ok s" and "sm_apply acc_sm s n op = Some (s', out)"
  then have "acc_clients s' = acc_clients s" by (simp add: acc_apply_clients)
  with \<open>acc_ok s\<close> show "acc_ok s'"
    "table_of (sm_client_table acc_sm s') = table_of (sm_client_table acc_sm s)"
    by (simp_all add: acc_ok_def acc_client_table_def)
qed (simp_all add: acc_record_client_ok acc_record_client_table acc_ok_distinct)

section \<open>A checkpoint comes through\<close>

text \<open>The chunks a replica asks for in order, staged on another.\<close>

fun transfer :: "accumulator \<Rightarrow> OpNumber \<Rightarrow> nat list \<Rightarrow> accumulator \<Rightarrow> accumulator option" where
  "transfer from n [] to = Some to"
| "transfer from n (i # is) to = do {
     (chunk, l) \<leftarrow> acc_checkpoint_chunk from i;
     to \<leftarrow> acc_stage_chunk to n i chunk;
     transfer from n is to }"

definition part_of :: "'a list \<Rightarrow> nat \<Rightarrow> nat \<Rightarrow> nat \<Rightarrow> 'a list" where
  "part_of xs len sz i = take (min ((i + 1) * sz) len - min (i * sz) len) (drop (min (i * sz) len) xs)"

lemma chunk_part_of:
  "len \<le> length xs \<Longrightarrow> chunk_part xs len count i = Some (part_of xs len (div_ceil len count) i)"
  by (simp add: chunk_part_def slice_chk_def part_of_def Let_def min_le_iff_disj)

lemma concat_parts: "concat (map (part_of xs len sz) [0..<k]) = take (min (k * sz) len) xs"
proof (induction k)
  case (Suc k)
  let ?a = "min (k * sz) len" and ?b = "min (Suc k * sz) len"
  have "?a \<le> ?b" by (simp add: min_le_iff_disj)
  then have "take ?b xs = take ?a xs @ take (?b - ?a) (drop ?a xs)"
    by (metis le_add_diff_inverse take_add)
  with Suc show ?case by (simp add: part_of_def)
qed simp

lemma div_ceil_covers: "0 < count \<Longrightarrow> len \<le> count * div_ceil len count"
proof -
  assume "0 < count"
  then have "len + count - 1 = count * ((len + count - 1) div count) + (len + count - 1) mod count"
    and "(len + count - 1) mod count < count" by (simp_all add: mult.commute)
  then show ?thesis unfolding div_ceil_def by linarith
qed

definition kept_ok :: "accumulator \<Rightarrow> kept_checkpoint \<Rightarrow> bool" where
  "kept_ok s kept \<longleftrightarrow> acc_kept s = Some kept \<and> kp_applied kept \<le> length (acc_applied s)
     \<and> kp_recorded kept \<le> length (acc_recorded s)"

definition nth_chunk :: "accumulator \<Rightarrow> kept_checkpoint \<Rightarrow> nat \<Rightarrow> acc_chunk" where
  "nth_chunk s kept i = (let count = chunk_count (kp_op_number kept) in
     \<lparr>ch_applied = part_of (acc_applied s) (kp_applied kept) (div_ceil (kp_applied kept) count) i,
      ch_recorded = part_of (acc_recorded s) (kp_recorded kept) (div_ceil (kp_recorded kept) count) i,
      ch_last = (if i + 1 = count then Some (kp_value kept, kp_clients kept) else None)\<rparr>)"

lemma acc_checkpoint_chunk_eq:
  "kept_ok s kept \<Longrightarrow> acc_checkpoint_chunk s i =
     Some (nth_chunk s kept i, i + 1 = chunk_count (kp_op_number kept))"
  by (simp add: acc_checkpoint_chunk_def kept_ok_def nth_chunk_def chunk_part_of Let_def)

lemma transfer_chunks:
  assumes "kept_ok s kept" and "k = 0 \<or> acc_staged t = map (\<lambda>i. (n, nth_chunk s kept i)) [0..<k]"
  shows "transfer s n [k..<k + m] t = Some (if m = 0 then t else
     t\<lparr>acc_staged := map (\<lambda>i. (n, nth_chunk s kept i)) [0..<k + m]\<rparr>)"
  using assms(2)
proof (induction m arbitrary: k t)
  case (Suc m)
  let ?t = "t\<lparr>acc_staged := map (\<lambda>i. (n, nth_chunk s kept i)) [0..<Suc k]\<rparr>"
  have "acc_stage_chunk t n k (nth_chunk s kept k) = Some ?t"
    using Suc.prems by (cases "k = 0") (simp_all add: acc_stage_chunk_def Let_def)
  moreover have "[k..<k + Suc m] = k # [Suc k..<Suc k + m]" by (simp add: upt_conv_Cons)
  ultimately show ?case
    using Suc.IH [of "Suc k" ?t] assms(1) by (simp add: acc_checkpoint_chunk_eq)
qed simp

lemma restore_chunks_eq:
  "restore_chunks n (map (\<lambda>c. (n, c)) cs) s = Some (fold (\<lambda>c s.
     let s = s\<lparr>acc_applied := acc_applied s @ ch_applied c, acc_recorded := acc_recorded s @ ch_recorded c\<rparr>
     in case ch_last c of Some (v, tab) \<Rightarrow> s\<lparr>acc_value := v, acc_clients := tab\<rparr> | None \<Rightarrow> s) cs s)"
  by (induction cs arbitrary: s) (simp_all add: Let_def)

lemma restore_chunks_concat:
  assumes "\<forall>c \<in> set cs. ch_last c = None" and "ch_last l = Some (v, tab)"
  shows "restore_chunks n (map (\<lambda>c. (n, c)) (cs @ [l])) s = Some (s\<lparr>
     acc_applied := acc_applied s @ concat (map ch_applied (cs @ [l])),
     acc_recorded := acc_recorded s @ concat (map ch_recorded (cs @ [l])),
     acc_value := v, acc_clients := tab\<rparr>)"
  using assms(1)
proof (induction cs arbitrary: s)
  case (Cons c cs)
  then show ?case by (simp add: Let_def)
qed (simp add: assms(2) Let_def)

lemma nth_chunks_concat:
  assumes "kept_ok s kept" and "count = chunk_count (kp_op_number kept)"
  shows "concat (map (\<lambda>i. ch_applied (nth_chunk s kept i)) [0..<count]) = take (kp_applied kept) (acc_applied s)"
    and "concat (map (\<lambda>i. ch_recorded (nth_chunk s kept i)) [0..<count]) = take (kp_recorded kept) (acc_recorded s)"
proof -
  have pos: "0 < count" by (simp add: assms(2) chunk_count_def)
  show "concat (map (\<lambda>i. ch_applied (nth_chunk s kept i)) [0..<count]) = take (kp_applied kept) (acc_applied s)"
    using concat_parts [of "acc_applied s" "kp_applied kept" _ count] div_ceil_covers [OF pos, of "kp_applied kept"]
    by (simp add: nth_chunk_def Let_def assms(2) min_absorb2)
  show "concat (map (\<lambda>i. ch_recorded (nth_chunk s kept i)) [0..<count]) = take (kp_recorded kept) (acc_recorded s)"
    using concat_parts [of "acc_recorded s" "kp_recorded kept" _ count] div_ceil_covers [OF pos, of "kp_recorded kept"]
    by (simp add: nth_chunk_def Let_def assms(2) min_absorb2)
qed

text \<open>Operations executed and records kept while the checkpoint is.\<close>

inductive acc_runs :: "accumulator \<Rightarrow> accumulator \<Rightarrow> bool" where
  start: "acc_runs s s"
| applied: "acc_runs s t \<Longrightarrow> acc_apply t n op = Some (u, out) \<Longrightarrow> acc_runs s u"
| recorded: "acc_runs s t \<Longrightarrow> acc_runs s (acc_record_client t n c ro)"

definition acc_inv :: "accumulator \<Rightarrow> bool" where
  "acc_inv s \<longleftrightarrow> (\<forall>(n, _) \<in> set (acc_applied s). n \<le> acc_op_number s)"

lemma acc_runs_extends:
  "acc_runs s t \<Longrightarrow> acc_kept t = acc_kept s \<and> prefix (acc_applied s) (acc_applied t)
     \<and> prefix (acc_recorded s) (acc_recorded t)"
proof (induction rule: acc_runs.induct)
  case (applied s t n op u out)
  then show ?case by (auto simp: acc_apply_def Let_def prefix_def split: if_splits)
next
  case (recorded s t n c ro)
  then show ?case by (auto simp: acc_record_client_def prefix_def)
qed simp

lemma kept_restores:
  assumes kept: "kept_ok s kept" and le: "\<forall>(m, _) \<in> set (take (kp_applied kept) (acc_applied s)). m \<le> n"
    and n: "n = kp_op_number kept"
  shows "do { t' \<leftarrow> transfer s n [0..<chunk_count n] t; acc_restore t' n } =
     Some (t\<lparr>acc_value := kp_value kept, acc_applied := take (kp_applied kept) (acc_applied s),
       acc_clients := kp_clients kept, acc_recorded := take (kp_recorded kept) (acc_recorded s),
       acc_op_number := n, acc_staged := []\<rparr>)"
proof -
  let ?c = "nth_chunk s kept" and ?k = "n mod 4"
  have k: "[0..<chunk_count n] = [0..<?k] @ [?k]" by (simp add: chunk_count_def)
  let ?t = "t\<lparr>acc_staged := map (\<lambda>i. (n, ?c i)) [0..<chunk_count n]\<rparr>"
  have tr: "transfer s n [0..<chunk_count n] t = Some ?t"
    using transfer_chunks [OF kept, of 0 t n "chunk_count n"] by (simp add: chunk_count_def)
  have st: "map (\<lambda>i. (n, ?c i)) [0..<chunk_count n] = map (\<lambda>c. (n, c)) (map ?c [0..<?k] @ [?c ?k])"
    by (simp add: k)
  have l: "\<forall>c \<in> set (map ?c [0..<?k]). ch_last c = None" "ch_last (?c ?k) = Some (kp_value kept, kp_clients kept)"
    by (auto simp: nth_chunk_def Let_def chunk_count_def n)
  have parts: "concat (map ch_applied (map ?c [0..<?k] @ [?c ?k])) = take (kp_applied kept) (acc_applied s)"
    "concat (map ch_recorded (map ?c [0..<?k] @ [?c ?k])) = take (kp_recorded kept) (acc_recorded s)"
    using nth_chunks_concat [OF kept refl] by (simp_all add: k comp_def flip: n)
  have "xs = [] \<or> fst (last xs) \<le> n" if "\<forall>(m, _) \<in> set xs. m \<le> n" for xs :: acc_history
    using that last_in_set [of xs] by (cases "last xs") auto
  from this [OF le] show ?thesis
    unfolding tr acc_restore_def by (simp add: st restore_chunks_concat [OF l] parts del: map_append map_map)
qed

text \<open>
  C26: a checkpoint the accumulator keeps comes through whole, whatever it executes meanwhile: the
  chunks asked for in order, staged on another replica and installed there, restore the value,
  the history and the client table as of the checkpoint.
\<close>

theorem checkpoint_restores:
  assumes inv: "acc_inv s" and cp: "acc_checkpoint s = (s', n)" and run: "acc_runs s' s''"
  shows "do { t' \<leftarrow> transfer s'' n [0..<chunk_count n] t; acc_restore t' n } =
     Some (s\<lparr>acc_kept := acc_kept t, acc_staged := []\<rparr>)"
proof -
  define kept where "kept = \<lparr>kp_op_number = acc_op_number s, kp_applied = length (acc_applied s),
    kp_recorded = length (acc_recorded s), kp_value = acc_value s, kp_clients = acc_clients s\<rparr>"
  have s': "s' = s\<lparr>acc_kept := Some kept\<rparr>" and n: "n = acc_op_number s"
    using cp by (auto simp: acc_checkpoint_def kept_def)
  from acc_runs_extends [OF run] obtain xs ys
    where s'': "acc_kept s'' = Some kept" "acc_applied s'' = acc_applied s @ xs"
      "acc_recorded s'' = acc_recorded s @ ys"
    by (auto simp: prefix_def s')
  then have "kept_ok s'' kept" by (simp add: kept_ok_def kept_def)
  then show ?thesis
    using kept_restores [of s'' kept n t] inv s'' by (simp add: kept_def acc_inv_def n)
qed

definition sample_acc :: accumulator where
  "sample_acc = acc_default\<lparr>acc_value := 5, acc_applied := [(2, \<lparr>op_id = 1, op_kind = Add 5\<rparr>)], acc_op_number := 2\<rparr>"

theorem checkpoint_restores_witness:
  "do { t \<leftarrow> transfer (fst (acc_checkpoint sample_acc)) 2 [0..<chunk_count 2] acc_default; acc_restore t 2 }
     = Some sample_acc"
  using checkpoint_restores [of sample_acc "fst (acc_checkpoint sample_acc)" 2
      "fst (acc_checkpoint sample_acc)" acc_default]
  by (simp add: sample_acc_def acc_inv_def acc_checkpoint_def acc_default_def acc_runs.start)

section \<open>Catching up comes through\<close>

text \<open>What a history does to a value, and a list of records to a table.\<close>

definition replay_value :: "acc_history \<Rightarrow> i64 \<Rightarrow> i64" where
  "replay_value = fold (\<lambda>(_, op). kind_apply (op_kind op))"

definition replay_table :: "acc_records \<Rightarrow> acc_table \<Rightarrow> acc_table" where
  "replay_table = fold (\<lambda>(_, c, ro) t. case ro of Some rec \<Rightarrow> bt_insert c rec t | None \<Rightarrow> bt_remove c t)"

definition history_sorted :: "acc_history \<Rightarrow> bool" where
  "history_sorted h \<longleftrightarrow> sorted_wrt (<) (map fst h)"

lemma apply_all_eq:
  assumes "history_sorted (acc_applied s @ h)"
  shows "\<exists>n. apply_all s h = Some (s\<lparr>acc_value := replay_value h (acc_value s), acc_applied := acc_applied s @ h,
     acc_op_number := n\<rparr>)"
  using assms
proof (induction h arbitrary: s)
  case Nil
  show ?case by (rule exI [of _ "acc_op_number s"]) (simp add: replay_value_def)
next
  case (Cons x h)
  obtain n op where x: "x = (n, op)" by (cases x)
  let ?s = "s\<lparr>acc_value := kind_apply (op_kind op) (acc_value s), acc_applied := acc_applied s @ [(n, op)], acc_op_number := n\<rparr>"
  have "\<forall>y \<in> set (acc_applied s). fst y < n" using Cons.prems by (auto simp: history_sorted_def sorted_wrt_append x)
  then have "acc_apply s n op = Some (?s, of_nat (Suc (length (acc_applied s))))"
    using last_in_set [of "acc_applied s"] by (cases "acc_applied s = []") (auto simp: acc_apply_def Let_def)
  moreover have "history_sorted (acc_applied ?s @ h)" using Cons.prems by (simp add: x)
  ultimately show ?case using Cons.IH [of ?s] by (auto simp: x replay_value_def)
qed

lemma record_all_eq:
  "\<exists>n. record_all s rs = s\<lparr>acc_clients := replay_table rs (acc_clients s), acc_recorded := acc_recorded s @ rs, acc_op_number := n\<rparr>"
proof (induction rs arbitrary: s)
  case Nil
  show ?case by (rule exI [of _ "acc_op_number s"]) (simp add: replay_table_def)
next
  case (Cons x rs)
  obtain n c ro where x: "x = (n, c, ro)" by (cases x)
  from Cons.IH [of "acc_record_client s n c ro"] show ?case
    by (auto simp: x acc_record_client_def replay_table_def split: option.splits)
qed

text \<open>What a state machine executed and recorded after operation \<open>m\<close>.\<close>

inductive acc_runs_after :: "OpNumber \<Rightarrow> accumulator \<Rightarrow> accumulator \<Rightarrow> bool" for m where
  start: "acc_runs_after m s s"
| applied: "acc_runs_after m s t \<Longrightarrow> m < n \<Longrightarrow> acc_apply t n op = Some (u, out) \<Longrightarrow> acc_runs_after m s u"
| recorded: "acc_runs_after m s t \<Longrightarrow> m < n \<Longrightarrow> acc_runs_after m s (acc_record_client t n c ro)"

lemma acc_runs_after_replay:
  assumes "acc_runs_after m s t" and "history_sorted (acc_applied s)"
  shows "\<exists>h rs. acc_applied t = acc_applied s @ h \<and> acc_recorded t = acc_recorded s @ rs
     \<and> acc_value t = replay_value h (acc_value s) \<and> acc_clients t = replay_table rs (acc_clients s)
     \<and> (\<forall>x \<in> set h. m < fst x) \<and> (\<forall>x \<in> set rs. m < fst x) \<and> history_sorted (acc_applied t)"
  using assms
proof (induction rule: acc_runs_after.induct)
  case (start s)
  then show ?case by (simp add: replay_value_def replay_table_def)
next
  case (applied s t n op u out)
  then obtain h rs where t: "acc_applied t = acc_applied s @ h" "acc_recorded t = acc_recorded s @ rs"
    "acc_value t = replay_value h (acc_value s)" "acc_clients t = replay_table rs (acc_clients s)"
    "\<forall>x \<in> set h. m < fst x" "\<forall>x \<in> set rs. m < fst x" "history_sorted (acc_applied t)" by blast
  have u: "u = t\<lparr>acc_value := kind_apply (op_kind op) (acc_value t), acc_applied := acc_applied t @ [(n, op)], acc_op_number := n\<rparr>"
    and l: "acc_applied t = [] \<or> fst (last (acc_applied t)) < n"
    using applied(3) by (auto simp: acc_apply_def Let_def split: if_splits)
  have "\<forall>x \<in> set (acc_applied t). fst x < n"
  proof (cases "acc_applied t" rule: rev_cases)
    case (snoc ys y)
    then show ?thesis using l t(7) by (auto simp: history_sorted_def sorted_wrt_append)
  qed simp
  then have "history_sorted (acc_applied u)" using t(7) by (auto simp: u history_sorted_def sorted_wrt_append)
  with t applied(2) show ?case
    by (intro exI [of _ "h @ [(n, op)]"] exI [of _ rs]) (auto simp: u replay_value_def)
next
  case (recorded s t n c ro)
  then obtain h rs where "acc_applied t = acc_applied s @ h" "acc_recorded t = acc_recorded s @ rs"
    "acc_value t = replay_value h (acc_value s)" "acc_clients t = replay_table rs (acc_clients s)"
    "\<forall>x \<in> set h. m < fst x" "\<forall>x \<in> set rs. m < fst x" "history_sorted (acc_applied t)" by blast
  with recorded(2) show ?case
    by (intro exI [of _ h] exI [of _ "rs @ [(n, c, ro)]"]) (auto simp: acc_record_client_def replay_table_def split: option.split)
qed

lemma filter_later: "(\<And>x. x \<in> set xs \<Longrightarrow> \<not> P x) \<Longrightarrow> (\<And>x. x \<in> set ys \<Longrightarrow> P x) \<Longrightarrow> filter P (xs @ ys) = ys"
  by (auto simp: filter_id_conv filter_empty_conv)

definition behind :: "accumulator \<Rightarrow> OpNumber \<Rightarrow> bool" where
  "behind s m \<longleftrightarrow> history_sorted (acc_applied s) \<and> (\<forall>x \<in> set (acc_applied s). fst x \<le> m)
     \<and> (\<forall>x \<in> set (acc_recorded s). fst x \<le> m)"

text \<open>
  A flushed state machine that catches up with a later one reaches its value, its history and
  its client table, with what the later one did up to the operation asked for.
\<close>

lemma catch_up_reaches:
  assumes s: "behind s m" and run: "acc_runs_after m s t" and n: "\<forall>x \<in> set (acc_applied t). fst x \<le> n"
    "\<forall>x \<in> set (acc_recorded t). fst x \<le> n"
  shows "\<exists>u. acc_catch_up s t m n = Some u \<and> acc_value u = acc_value t \<and> acc_applied u = acc_applied t
     \<and> acc_clients u = acc_clients t \<and> acc_recorded u = acc_recorded t"
proof -
  from s have "history_sorted (acc_applied s)" by (simp add: behind_def)
  from acc_runs_after_replay [OF run this] obtain h rs where t: "acc_applied t = acc_applied s @ h"
    "acc_recorded t = acc_recorded s @ rs" "acc_value t = replay_value h (acc_value s)"
    "acc_clients t = replay_table rs (acc_clients s)" "\<forall>x \<in> set h. m < fst x" "\<forall>x \<in> set rs. m < fst x"
    "history_sorted (acc_applied t)" by blast
  have old: "x \<in> set (acc_applied s) \<Longrightarrow> fst x \<le> m" "y \<in> set (acc_recorded s) \<Longrightarrow> fst y \<le> m" for x y
    using s by (simp_all add: behind_def)
  have new: "x \<in> set h \<Longrightarrow> m < fst x \<and> fst x \<le> n" "y \<in> set rs \<Longrightarrow> m < fst y \<and> fst y \<le> n" for x y
    using t(5,6) n by (simp_all add: t(1,2))
  have "filter (\<lambda>(k, _). m + 1 \<le> k \<and> k \<le> n) (acc_applied t) = h"
    unfolding t(1) split_beta by (rule filter_later) (use old(1) new(1) in force)+
  moreover have "filter (\<lambda>(k, _, _). m + 1 \<le> k \<and> k \<le> n) (acc_recorded t) = rs"
    unfolding t(2) split_beta by (rule filter_later) (use old(2) new(2) in force)+
  moreover obtain a where "apply_all s h = Some (s\<lparr>acc_value := replay_value h (acc_value s),
      acc_applied := acc_applied s @ h, acc_op_number := a\<rparr>)" (is "_ = Some ?s")
    using apply_all_eq [of s h] t(1,7) by auto
  moreover obtain b where "record_all ?s rs = ?s\<lparr>acc_clients := replay_table rs (acc_clients ?s),
      acc_recorded := acc_recorded ?s @ rs, acc_op_number := b\<rparr>"
    using record_all_eq [of ?s rs] by blast
  ultimately show ?thesis using t by (simp add: acc_catch_up_def)
qed

end
