(* ===== verification/VSR_Samples.thy ===== *)
theory VSR_Samples
  imports VSR_Run Sim_Accumulator
begin

text \<open>
  Three moments of one run of a backup of three replicas, on the simulator's state machine: it
  has registered a client; it has executed a request and compacted its log; it has crashed
  with a write out and come back.
\<close>

definition three :: config where
  "three = add_replicas 3 config_new"

definition sample_op :: acc_op where
  "sample_op = \<lparr>op_id = 1, op_kind = Add 5\<rparr>"

definition run_registered :: "(accumulator, acc_op, unit, acc_chunk) action list" where
  "run_registered = [AMessage (Prepare 0 1 (ERegister 7) 0), ATake, ALand, ADrain]"

definition run_executed :: "(accumulator, acc_op, unit, acc_chunk) action list" where
  "run_executed = [AMessage (Prepare 0 2 (ERequest 7 1 1 0 sample_op) 1), ATake, ALand, ADrain,
     AMessage (Commit 0 2), ACompact 1]"

definition at_registered :: "(accumulator, acc_op, unit, i64, acc_chunk) node option" where
  "at_registered = Option.bind (node_new 1 three acc_default) (\<lambda>N. perform_all acc_sm N run_registered)"

definition at_executed :: "(accumulator, acc_op, unit, i64, acc_chunk) node option" where
  "at_executed = Option.bind at_registered (\<lambda>N. perform_all acc_sm N run_executed)"

text \<open>The state machine kept the registration, which was compacted.\<close>

definition kept_machine :: accumulator where
  "kept_machine = acc_record_client acc_default 1 7 (Some \<lparr>rec_client_id = 7, rec_session = 1,
     rec_request_number = 0, rec_replies = [], rec_op_number = 1\<rparr>)"

definition at_crashed :: "(accumulator, acc_op, unit, i64, acc_chunk) node option" where
  "at_crashed = Option.bind at_executed (\<lambda>N. perform_all acc_sm N [ATake, ACrash True kept_machine 1 5])"

definition nd_registered :: "(accumulator, acc_op, unit, i64, acc_chunk) node" where
  "nd_registered = the at_registered"

definition nd_executed :: "(accumulator, acc_op, unit, i64, acc_chunk) node" where
  "nd_executed = the at_executed"

definition nd_crashed :: "(accumulator, acc_op, unit, i64, acc_chunk) node" where
  "nd_crashed = the at_crashed"

text \<open>What the witnesses use of the three moments, each computed once.\<close>

definition registered_ok :: "(accumulator, acc_op, unit, i64, acc_chunk) node \<Rightarrow> bool" where
  "registered_ok N \<longleftrightarrow> entry (nd_rep N) 1 = Some (ERegister 7) \<and> commit_number (nd_rep N) = 0"

definition executed_ok :: "(accumulator, acc_op, unit, i64, acc_chunk) node \<Rightarrow> bool" where
  "executed_ok N \<longleftrightarrow> (0, PrepareOk 0 2 1) \<in> set (nd_sent N)
     \<and> log_start (nd_rep N) = 1 \<and> applied (nd_rep N) = 2 \<and> commit_number (nd_rep N) = 2
     \<and> nd_out N = None \<and> entry (nd_rep N) 2 = Some (ERequest 7 1 1 0 sample_op)
     \<and> ps_log_start (nd_disk N) = 0
     \<and> (case take_write (nd_rep N) of None \<Rightarrow> False | Some (r, w) \<Rightarrow> lw_sync w)"

definition crashed_ok :: "(accumulator, acc_op, unit, i64, acc_chunk) node \<Rightarrow> bool" where
  "crashed_ok N \<longleftrightarrow> (0, PrepareOk 0 2 1) \<in> set (nd_sent N) \<and> nd_out N = None
     \<and> (case take_write (nd_rep N) of None \<Rightarrow> False | Some (r, w) \<Rightarrow> \<not> lw_sync w)"

definition holds_at :: "('a \<Rightarrow> bool) \<Rightarrow> 'a option \<Rightarrow> bool" where
  "holds_at P x = (case x of None \<Rightarrow> False | Some y \<Rightarrow> P y)"

lemma holds_atD: "holds_at P x \<Longrightarrow> P (the x) \<and> x = Some (the x)"
  by (simp add: holds_at_def split: option.splits)

lemma registered_computed: "holds_at registered_ok at_registered"
  by code_simp

lemma executed_computed: "holds_at executed_ok at_executed"
  by code_simp

lemma crashed_computed: "holds_at crashed_ok at_crashed"
  by code_simp

lemma registered_facts: "registered_ok nd_registered" "at_registered = Some nd_registered"
  using holds_atD [OF registered_computed] by (simp_all add: nd_registered_def)

lemma executed_facts: "executed_ok nd_executed" "at_executed = Some nd_executed"
  using holds_atD [OF executed_computed] by (simp_all add: nd_executed_def)

lemma crashed_facts: "crashed_ok nd_crashed" "at_crashed = Some nd_crashed"
  using holds_atD [OF crashed_computed] by (simp_all add: nd_crashed_def)

lemma registered_reachable: "reachable acc_sm nd_registered"
  using registered_facts(2) unfolding at_registered_def
  by (intro reachable_node_new [of 1 three acc_default acc_sm run_registered])

lemma executed_run: "perform_all acc_sm nd_registered run_executed = Some nd_executed"
  using executed_facts(2) by (simp add: at_executed_def registered_facts(2))

lemma executed_reachable: "reachable acc_sm nd_executed"
  using executed_run registered_reachable by (rule reachable_perform_all)

lemma executed_runs: "(run_step acc_sm)\<^sup>*\<^sup>* nd_registered nd_executed"
  using executed_run by (rule perform_all_runs) (simp add: run_executed_def)

lemma crashed_reachable: "reachable acc_sm nd_crashed"
proof (rule reachable_perform_all [OF _ executed_reachable])
  show "perform_all acc_sm nd_executed [ATake, ACrash True kept_machine 1 5] = Some nd_crashed"
    using crashed_facts(2) by (simp add: at_crashed_def executed_facts(2) del: perform_all.simps)
qed

end
