(* ===== verification/VSR_Safety.thy ===== *)
theory VSR_Safety
  imports VSR_Samples
begin

text \<open>
  What every schedule of an owner keeps of a replica and its disk.  The properties are stated
  of the nodes reachable by messages, idle periods, compaction, drains, writes and crashes in
  any order, and follow from the invariant \<open>node_inv\<close>.
\<close>

section \<open>What the invariant gives\<close>

lemma node_inv_target:
  assumes "node_inv N"
  obtains q where "nd_target N = Some q" and "target_inv (nd_disk N) q (nd_rep N)"
  using assms by (auto simp: node_inv_def)

lemma node_inv_stamp: "node_inv N \<Longrightarrow> disk_stamp (nd_disk N) \<le> stamp (nd_rep N)"
  by (auto elim!: node_inv_target simp: target_inv_def intro: order_trans)

lemma node_inv_sent: "node_inv N \<Longrightarrow> x \<in> set (nd_sent N) \<Longrightarrow> backed_by (disk_stamp (nd_disk N)) (snd x)"
  by (simp add: node_inv_def all_backed_def)

lemma node_inv_entry:
  assumes "node_inv N" and "log_start (nd_rep N) < n" and "n \<le> applied (nd_rep N)"
  shows "ps_entry (nd_disk N) n = entry (nd_rep N) n"
proof -
  have "log_inv (nd_rep N)" using node_invD [OF assms(1)] by (simp add: replica_inv_def)
  then have "n \<le> cap_changed (log_changed_from (nd_rep N)) (durable (nd_rep N))"
    using assms(2,3) unfolding log_inv_def by linarith
  with assms show ?thesis by (simp add: node_inv_def disk_inv_def holds_durable_def)
qed

lemma take_write_free: "node_inv N \<Longrightarrow> take_write (nd_rep N) = Some (r', w) \<Longrightarrow> nd_out N = None"
  using take_write_outstanding [of "nd_rep N" r' w]
  by (auto simp: node_inv_def writes_match_def split: option.splits)

lemma take_write_target:
  assumes "node_inv N" and "take_write (nd_rep N) = Some (r', w)"
  shows "in_sync (nd_disk N) (nd_rep N)" and "written_inv (nd_disk N) (nd_rep N)"
  using assms(1) take_write_free [OF assms]
  by (auto elim!: node_inv_target simp: nd_target_def target_inv_def)

lemma take_write_unsynced:
  assumes "take_write r = Some (r', w)" and "\<not> lw_sync w"
  shows "written r = Some (written_now r)" and "log_changed_from r = None"
  using assms by (auto simp: take_write_def Let_def bind_eq_Some_conv split: if_splits)

lemma take_write_panics: "log_inv r \<Longrightarrow> take_write r = None \<longleftrightarrow> outstanding r \<noteq> None"
  by (simp add: take_write_def durable_op_inv Let_def)

section \<open>Promises\<close>

text \<open>
  C1: whatever a replica has sent that promises something about its durable state is backed
  by its disk at that moment and ever after, crashes included: the disk has reached the view
  the message speaks of, and for a \<open>PrepareOk\<close> of that view the log on disk reaches the
  operation acknowledged.
\<close>

theorem promises_on_disk:
  assumes "reachable sm N" and "(j, m) \<in> set (nd_sent N)"
  shows "backed_by (disk_stamp (nd_disk N)) m"
  using node_inv_sent [OF reachable_inv [OF assms(1)] assms(2)] by simp

theorem promises_on_disk_witness: "backed_by (disk_stamp (nd_disk nd_crashed)) (PrepareOk 0 2 1)"
  using promises_on_disk [OF crashed_reachable, of 0 "PrepareOk 0 2 1"] crashed_facts(1) by (simp add: crashed_ok_def)

text \<open>
  C2: a replica never forgets a promise: its memory, also after a crash and a restart from
  the disk, has come at least as far as every message it ever sent says.
\<close>

theorem promises_remembered:
  assumes "reachable sm N" and "(j, m) \<in> set (nd_sent N)"
  shows "backed_by (stamp (nd_rep N)) m"
  using node_inv_sent [OF reachable_inv [OF assms(1)] assms(2)] node_inv_stamp [OF reachable_inv [OF assms(1)]]
  by (auto intro: backed_by_mono)

theorem promises_remembered_witness: "backed_by (stamp (nd_rep nd_crashed)) (PrepareOk 0 2 1)"
  using promises_remembered [OF crashed_reachable, of 0 "PrepareOk 0 2 1"] crashed_facts(1) by (simp add: crashed_ok_def)

section \<open>Execution\<close>

text \<open>
  C3: a replica executes nothing that is not on its disk: every operation it has applied and
  not compacted is on disk, and is the entry its log holds.
\<close>

theorem applied_on_disk:
  assumes "reachable sm N" and "log_start (nd_rep N) < n" and "n \<le> applied (nd_rep N)"
  shows "ps_entry (nd_disk N) n = entry (nd_rep N) n \<and> entry (nd_rep N) n \<noteq> None"
proof -
  have "applied (nd_rep N) \<le> op_number (nd_rep N)"
    using reachable_inv [OF assms(1)] by (simp add: node_inv_def replica_inv_def log_inv_def)
  then have "entry (nd_rep N) n \<noteq> None" using assms(2,3) by (auto simp: entry_def op_number_def nth_chk_def)
  with node_inv_entry [OF reachable_inv [OF assms(1)] assms(2,3)] show ?thesis by simp
qed

theorem applied_on_disk_witness:
  "ps_entry (nd_disk nd_executed) 2 = Some (ERequest 7 1 1 0 sample_op)"
  using applied_on_disk [OF executed_reachable, of 2] executed_facts(1) by (simp add: executed_ok_def)

text \<open>
  C7: in every reachable state a replica has compacted only what it applied, applied only what
  is committed and in its log, keeps for others only a checkpoint of what it applied, and is in
  a status that fits its views.
\<close>

theorem reachable_log_bounds:
  assumes "reachable sm N" and "r = nd_rep N"
  shows "log_start r \<le> applied r \<and> applied r \<le> min (commit_number r) (op_number r)
     \<and> (\<forall>n k. serving r = Some (n, k) \<longrightarrow> log_start r \<le> n \<and> n \<le> applied r)
     \<and> last_normal_view r \<le> view_number r
     \<and> (status r = Normal \<or> status r = StateTransfer \<longrightarrow> last_normal_view r = view_number r)
     \<and> (status r = ViewChange \<longrightarrow> last_normal_view r < view_number r)"
  using reachable_inv [OF assms(1)] unfolding assms(2) node_inv_def replica_inv_def log_inv_def view_inv_def
  by simp

theorem reachable_log_bounds_witness:
  "log_start (nd_rep nd_executed) \<le> applied (nd_rep nd_executed)"
  using reachable_log_bounds [OF executed_reachable refl] by simp

text \<open>
  C4: between crashes a replica only advances, whatever it is handed: its view and, within the
  view, its log; its commit number; what it applied and compacted; and an entry that is
  committed is never replaced.
\<close>

theorem runs_only_advance:
  assumes "reachable sm N" and "(run_step sm)\<^sup>*\<^sup>* N N'" and "r = nd_rep N" and "r' = nd_rep N'"
  shows "stamp r \<le> stamp r' \<and> commit_number r \<le> commit_number r' \<and> applied r \<le> applied r'
     \<and> log_start r \<le> log_start r'
     \<and> (\<forall>n e. n \<le> commit_number r \<and> log_start r' < n \<and> entry r n = Some e \<longrightarrow> entry r' n = Some e)"
  using runs_progress [OF assms(2) reachable_inv [OF assms(1)]] by (simp add: assms(3,4) progress_def)

theorem runs_only_advance_witness:
  "stamp (nd_rep nd_registered) \<le> stamp (nd_rep nd_executed)
     \<and> commit_number (nd_rep nd_registered) \<le> commit_number (nd_rep nd_executed)"
  using runs_only_advance [OF registered_reachable executed_runs refl refl] by simp

section \<open>Writes\<close>

text \<open>
  C8: the write a replica hands its owner, applied to what is on disk, leaves on disk the
  state the replica had in memory when it was taken.
\<close>

theorem write_brings_disk_up_to_date:
  assumes "reachable sm N" and "take_write (nd_rep N) = Some (r', w)"
  shows "ps_apply (nd_disk N) w = Some (persistent_state_of (nd_rep N))"
  by (rule take_write_applies [OF _ take_write_target(1) [OF reachable_inv [OF assms(1)] assms(2)] assms(2)])
    (use reachable_inv [OF assms(1)] in \<open>simp add: node_inv_def replica_inv_def\<close>)

theorem write_brings_disk_up_to_date_witness:
  "\<exists>w. ps_apply (nd_disk nd_executed) w = Some (persistent_state_of (nd_rep nd_executed))"
proof -
  obtain r w where "take_write (nd_rep nd_executed) = Some (r, w)"
    using executed_facts(1) by (auto simp: executed_ok_def split: option.splits)
  from write_brings_disk_up_to_date [OF executed_reachable this] show ?thesis by blast
qed

text \<open>
  C9: a write that asks for no sync may be left out: the disk already holds the views, the
  status and the log that are in memory.
\<close>

theorem unsynced_write_redundant:
  assumes "reachable sm N" and "take_write (nd_rep N) = Some (r', w)" and "\<not> lw_sync w"
  shows "disk_matches (nd_disk N) (nd_rep N)"
  using take_write_target(2) [OF reachable_inv [OF assms(1)] assms(2)] take_write_unsynced [OF assms(2,3)]
  by (simp add: written_inv_def)

theorem unsynced_write_redundant_witness: "disk_matches (nd_disk nd_crashed) (nd_rep nd_crashed)"
proof -
  obtain r w where "take_write (nd_rep nd_crashed) = Some (r, w)" "\<not> lw_sync w"
    using crashed_facts(1) by (auto simp: crashed_ok_def split: option.splits)
  from unsynced_write_redundant [OF crashed_reachable this] show ?thesis .
qed

text \<open>
  C10: taking a write panics exactly while another one is out, and handing back any write but
  the one that is out panics.
\<close>

theorem one_write_at_a_time:
  assumes "reachable sm N"
  shows "(take_write (nd_rep N) = None \<longleftrightarrow> nd_out N \<noteq> None)
     \<and> (\<forall>w. map_option lw_sequence (nd_out N) \<noteq> Some (lw_sequence w) \<longrightarrow> persisted sm (nd_rep N) w = None)"
proof -
  let ?r = "nd_rep N"
  have "log_inv ?r" and m: "writes_match (nd_out N) (outstanding ?r)"
    using reachable_inv [OF assms] by (simp_all add: node_inv_def replica_inv_def)
  then have "take_write ?r = None \<longleftrightarrow> nd_out N \<noteq> None"
    by (auto simp: take_write_panics writes_match_def split: option.splits)
  moreover have "persisted sm ?r w = None"
    if "map_option lw_sequence (nd_out N) \<noteq> Some (lw_sequence w)" for w
    using m that by (auto simp: writes_match_def persisted_def Let_def split: option.splits)
  ultimately show ?thesis by blast
qed

theorem one_write_at_a_time_witness: "take_write (nd_rep nd_executed) \<noteq> None"
  using one_write_at_a_time [OF executed_reachable] executed_facts(1) by (simp add: executed_ok_def)

end
