(* ===== verification/VSR_Sessions.thy ===== *)
theory VSR_Sessions
  imports VSR_Frames VSR_Store
begin

text \<open>
  The client table: how execution keeps it within its size, evicts the session whose latest
  entry executed earliest, and keeps the replies a client may still ask for.  The invariant
  \<open>sess_inv\<close> relates the table, the count of its sessions and the candidates for eviction
  that a scan found earlier.
\<close>

section \<open>The invariant\<close>

text \<open>
  The candidates are in the order their sessions executed, and a session that is not among
  them executed later than all of them.
\<close>

definition cands_ok :: "(ClientID \<times> 'out client_state) list \<Rightarrow> (OpNumber \<times> ClientID) list \<Rightarrow> bool" where
  "cands_ok cs cands \<longleftrightarrow> sorted_wrt (\<lambda>x y. fst x < fst y) cands
     \<and> (\<forall>c rec. record_of cs c = Some rec \<longrightarrow>
          (rec_op_number rec, c) \<in> set cands \<or> (\<forall>x \<in> set cands. fst x < rec_op_number rec))"

definition records_ok :: "config \<Rightarrow> OpNumber \<Rightarrow> (ClientID \<times> 'out client_state) list \<Rightarrow> bool" where
  "records_ok cfg n cs \<longleftrightarrow> bt_wf cs
     \<and> (\<forall>c rec. record_of cs c = Some rec \<longrightarrow> rec_client_id rec = c \<and> rec_session rec \<le> rec_op_number rec
          \<and> rec_op_number rec \<le> n \<and> length (rec_replies rec) \<le> cfg_in_flight_max cfg)
     \<and> (\<forall>c d x y. record_of cs c = Some x \<and> record_of cs d = Some y
          \<and> rec_op_number x = rec_op_number y \<longrightarrow> c = d)"

definition sess_inv ::
  "config \<Rightarrow> OpNumber \<Rightarrow> (ClientID \<times> 'out client_state) list \<Rightarrow> nat \<Rightarrow> (OpNumber \<times> ClientID) list \<Rightarrow> bool" where
  "sess_inv cfg n cs k cands \<longleftrightarrow> 1 \<le> cfg_clients_max cfg \<and> 1 \<le> cfg_in_flight_max cfg
     \<and> records_ok cfg n cs \<and> cands_ok cs cands
     \<and> (\<forall>x \<in> set cands. fst x \<le> n) \<and> k = card (dom (record_of cs)) \<and> k \<le> cfg_clients_max cfg"

definition sessions_inv :: "('s, 'op, 'q, 'out, 'chunk) replica \<Rightarrow> bool" where
  "sessions_inv r \<longleftrightarrow> sess_inv (config r) (applied r) (clients r) (sessions r) (eviction_candidates r)"

section \<open>Records\<close>

lemma record_of_Nil [simp]: "record_of [] = (\<lambda>c. None)"
  by (simp add: record_of_def fun_eq_iff)

lemma record_of_insert: "record_of (bt_insert c st cs) = (record_of cs)(c := cs_record st)"
  by (simp add: record_of_def fun_eq_iff)

lemma record_of_remove: "record_of (bt_remove c cs) = (record_of cs)(c := None)"
  by (simp add: record_of_def fun_eq_iff)

lemma record_of_client: "cs_record (client_of cs c) = record_of cs c"
  by (simp add: client_of_def record_of_def client_state_default_def split: option.split)

lemma record_of_forget: "record_of (forget_record cs c) = (record_of cs)(c := None)"
  by (auto simp: forget_record_def record_of_insert record_of_remove record_of_def fun_eq_iff split: option.split)

lemma forget_record_wf: "bt_wf cs \<Longrightarrow> bt_wf (forget_record cs c)"
  by (simp add: forget_record_def bt_wf_insert bt_wf_remove split: option.split)

lemma settle_record [simp]: "cs_record (settle_pending st key) = cs_record st"
  by (simp add: settle_pending_def)

lemma finite_records [simp]: "finite (dom (record_of cs))"
  by (rule finite_subset [of _ "dom (map_of cs)"]) (auto simp: record_of_def bind_eq_Some_conv finite_dom_map_of)

lemma holds_session_record:
  "holds_session cs latest c \<longleftrightarrow> (\<exists>rec. record_of cs c = Some rec \<and> rec_op_number rec = latest)"
  by (auto simp: holds_session_def record_of_def split: option.splits)

lemma set_sessions_of:
  assumes "records_ok cfg n cs"
  shows "set (sessions_of cs) = {(rec_op_number rec, c) |c rec. record_of cs c = Some rec}"
proof -
  have wf: "distinct (map fst cs)" using assms by (simp add: records_ok_def bt_wf_distinct)
  have "(\<exists>c st. (c, st) \<in> set cs \<and> cs_record st = Some rec) \<longleftrightarrow> record_of cs (rec_client_id rec) = Some rec" for rec
  proof
    assume "\<exists>c st. (c, st) \<in> set cs \<and> cs_record st = Some rec"
    then obtain c st where "map_of cs c = Some st" "cs_record st = Some rec" using wf by auto
    then have "record_of cs c = Some rec" by (simp add: record_of_def)
    moreover from this have "rec_client_id rec = c" using assms by (simp add: records_ok_def)
    ultimately show "record_of cs (rec_client_id rec) = Some rec" by simp
  qed (auto simp: record_of_def bind_eq_Some_conv dest: map_of_SomeD)
  then have "set (sessions_of cs) = {(rec_op_number rec, rec_client_id rec) |rec.
      record_of cs (rec_client_id rec) = Some rec}"
    by (auto simp: sessions_of_def map_filter_def image_iff split_beta) (metis fst_conv snd_conv option.sel)+
  also have "\<dots> = {(rec_op_number rec, c) |c rec. record_of cs c = Some rec}"
    using assms unfolding records_ok_def by blast
  finally show ?thesis .
qed

lemma distinct_sessions_of:
  assumes "records_ok cfg n cs"
  shows "distinct (map snd (sessions_of cs))"
proof -
  have id: "rec_client_id rec = c" if "(c, st) \<in> set cs" "cs_record st = Some rec" for c st rec
  proof -
    have "map_of cs c = Some st" using that(1) assms by (simp add: records_ok_def bt_wf_distinct)
    then show ?thesis using that(2) assms by (auto simp: records_ok_def record_of_def)
  qed
  have "map snd (sessions_of xs) = map fst (filter (\<lambda>b. cs_record (snd b) \<noteq> None) xs)" if "set xs \<subseteq> set cs" for xs
    using that by (induction xs) (auto simp: sessions_of_def map_filter_def dest: id)
  then have "map snd (sessions_of cs) = map fst (filter (\<lambda>b. cs_record (snd b) \<noteq> None) cs)" by simp
  moreover have "distinct (map fst cs)" using assms by (simp add: records_ok_def bt_wf_distinct)
  ultimately show ?thesis by (simp add: distinct_map_filter)
qed

lemma length_sessions_of: "records_ok cfg n cs \<Longrightarrow> length (sessions_of cs) = card (dom (record_of cs))"
proof -
  assume ok: "records_ok cfg n cs"
  have "snd ` set (sessions_of cs) = dom (record_of cs)" by (force simp: set_sessions_of [OF ok])
  moreover have "length (sessions_of cs) = card (snd ` set (sessions_of cs))"
    using distinct_card [OF distinct_sessions_of [OF ok]] by simp
  ultimately show ?thesis by simp
qed

section \<open>Candidates\<close>

lemma sort_sessions_strict:
  assumes ok: "records_ok cfg n cs"
  shows "sorted_wrt (\<lambda>x y. fst x < fst y) (sort (sessions_of cs))"
proof -
  have d: "distinct (sessions_of cs)" using distinct_sessions_of [OF ok] by (simp add: distinct_map)
  have inj: "x = y" if "x \<in> set (sessions_of cs)" "y \<in> set (sessions_of cs)" "fst x = fst y" for x y
    using that ok unfolding set_sessions_of [OF ok] by (auto simp: records_ok_def)
  have "sorted_wrt (<) (sort (sessions_of cs))" using d by (simp add: strict_sorted_iff)
  then show ?thesis
  proof (rule sorted_wrt_mono_rel [rotated])
    fix x y
    assume "x \<in> set (sort (sessions_of cs))" "y \<in> set (sort (sessions_of cs))" "x < y"
    with inj [of x y] show "fst x < fst y" by (cases x; cases y) (auto simp: le_less)
  qed
qed

lemma cands_ok_take:
  assumes ok: "records_ok cfg n cs"
  shows "cands_ok cs (take k (sort (sessions_of cs)))"
proof -
  let ?s = "sort (sessions_of cs)"
  have s: "sorted_wrt (\<lambda>x y. fst x < fst y) (take k ?s @ drop k ?s)"
    using sort_sessions_strict [OF ok] by simp
  have "(rec_op_number rec, c) \<in> set (take k ?s) \<union> set (drop k ?s)" if "record_of cs c = Some rec" for c rec
    using that set_sessions_of [OF ok] by (auto simp flip: set_append)
  with s show ?thesis unfolding sorted_wrt_append cands_ok_def by fastforce
qed

lemma find_eviction_candidates_ok:
  assumes ok: "records_ok cfg n cs" and some: "record_of cs c = Some rec"
  obtains x cands where "find_eviction_candidates cs = Some (x # cands)" and "cands_ok cs (x # cands)"
    and "set (x # cands) \<subseteq> set (sessions_of cs)"
proof -
  define k where "k = max (length (sessions_of cs) div 16) 1"
  have ne: "sessions_of cs \<noteq> []" using some set_sessions_of [OF ok] by fastforce
  have "find_eviction_candidates cs = Some (take k (sort (sessions_of cs)))"
    unfolding find_eviction_candidates_def Let_def k_def [symmetric] using ne by simp
  moreover have "0 < k" "sort (sessions_of cs) \<noteq> []" using ne by (auto simp: k_def dest: arg_cong [where f = set])
  then have "take k (sort (sessions_of cs)) \<noteq> []" by simp
  ultimately show ?thesis
    using that cands_ok_take [OF ok, of k] set_take_subset [of k "sort (sessions_of cs)"]
    by (cases "take k (sort (sessions_of cs))") auto
qed

text \<open>The next candidate that still holds its session is the oldest of all sessions.\<close>

definition oldest :: "(ClientID \<times> 'out client_state) list \<Rightarrow> ClientID \<Rightarrow> bool" where
  "oldest cs c \<longleftrightarrow> (\<exists>rec. record_of cs c = Some rec
     \<and> (\<forall>d rec'. record_of cs d = Some rec' \<longrightarrow> rec_op_number rec \<le> rec_op_number rec'))"

lemma cands_ok_tail: "cands_ok cs (x # cands) \<Longrightarrow> \<not> holds_session cs (fst x) (snd x) \<Longrightarrow> cands_ok cs cands"
  by (fastforce simp: cands_ok_def holds_session_record)

lemma cands_ok_hit:
  assumes "cands_ok cs ((n, c) # cands)" and "holds_session cs n c"
  shows "oldest cs c" and "cands_ok (forget_record cs c) cands"
  using assms by (fastforce simp: cands_ok_def holds_session_record oldest_def record_of_forget)+

lemma evict_loop_hit:
  assumes "cands_ok cs cands" and "x \<in> set cands" and "holds_session cs (fst x) (snd x)"
  shows "\<exists>c rest. evict_loop cs cands = Some (c, rest) \<and> oldest cs c \<and> cands_ok (forget_record cs c) rest
     \<and> set rest \<subseteq> set cands"
  using assms
proof (induction cands)
  case (Cons y cands)
  obtain n c where y: "y = (n, c)" by (cases y)
  show ?case
  proof (cases "holds_session cs n c")
    case True
    then show ?thesis
      using cands_ok_hit [of cs n c cands] Cons.prems(1) by (auto simp: y evict_loop.simps [of _ "_ # _"])
  next
    case False
    then show ?thesis
      using Cons cands_ok_tail [of cs y cands] by (auto simp: y evict_loop.simps [of _ "_ # _"])
  qed
qed simp

text \<open>The loop comes to an end: once no candidate is left, a scan finds one that holds.\<close>

lemma evict_loop_total:
  assumes ok: "records_ok cfg n cs" and cands: "cands_ok cs cands" and some: "record_of cs d = Some rec"
  shows "\<exists>c rest. evict_loop cs cands = Some (c, rest) \<and> oldest cs c \<and> cands_ok (forget_record cs c) rest
     \<and> set rest \<subseteq> set cands \<union> set (sessions_of cs)"
proof (cases "\<exists>x \<in> set cands. holds_session cs (fst x) (snd x)")
  case True
  then show ?thesis using evict_loop_hit [OF cands] by blast
next
  case False
  obtain x found where f: "find_eviction_candidates cs = Some (x # found)" "cands_ok cs (x # found)"
    "set (x # found) \<subseteq> set (sessions_of cs)"
    using ok some by (rule find_eviction_candidates_ok)
  then have "holds_session cs (fst x) (snd x)"
    using set_sessions_of [OF ok] by (auto simp: holds_session_record)
  with evict_loop_hit [OF f(2), of x] f(3) obtain c rest
    where h: "evict_loop cs (x # found) = Some (c, rest)" "oldest cs c" "cands_ok (forget_record cs c) rest"
      "set rest \<subseteq> set (sessions_of cs)" by auto
  have "evict_loop cs cands = evict_loop cs []"
    using False by (induction cands) (simp_all add: evict_loop.simps [of _ "_ # _"])
  also have "\<dots> = Some (c, rest)" by (simp add: evict_loop.simps [of _ "[]"] f(1) h(1))
  finally show ?thesis using h by blast
qed

section \<open>Execution keeps the invariant\<close>

lemma oldestD: "oldest cs c \<Longrightarrow> record_of cs c \<noteq> None"
  by (auto simp: oldest_def)

lemma sess_inv_forget:
  assumes inv: "sess_inv cfg n cs k cands" and c: "record_of cs c \<noteq> None"
    and rest: "cands_ok (forget_record cs c) rest" "set rest \<subseteq> set cands \<union> set (sessions_of cs)"
  shows "sess_inv cfg n (forget_record cs c) (k - 1) rest" and "1 \<le> k"
proof -
  have ok: "records_ok cfg n cs" using inv by (simp add: sess_inv_def)
  then have "records_ok cfg n (forget_record cs c)"
    by (auto simp: records_ok_def forget_record_wf record_of_forget split: if_splits)
  moreover have "fst x \<le> n" if "x \<in> set rest" for x
    using that rest(2) inv ok by (auto simp: sess_inv_def set_sessions_of [OF ok] records_ok_def dest!: subsetD)
  moreover have "dom (record_of (forget_record cs c)) = dom (record_of cs) - {c}"
    by (auto simp: record_of_forget)
  moreover have "c \<in> dom (record_of cs)" using c by blast
  moreover from this have "1 \<le> card (dom (record_of cs))" by (metis One_nat_def Suc_leI card_gt_0_iff empty_iff finite_records)
  ultimately show "sess_inv cfg n (forget_record cs c) (k - 1) rest" "1 \<le> k"
    using inv rest(1) by (auto simp: sess_inv_def)
qed

lemma evict_oldest:
  assumes inv: "sess_inv cfg n (clients r) (sessions r) (eviction_candidates r)" and full: "1 \<le> sessions r"
  obtains c rest where "evict sm r m = Some (r\<lparr>eviction_candidates := rest,
      clients := forget_record (clients r) c, sessions := sessions r - 1,
      state_machine := sm_record_client sm (state_machine r) m c None\<rparr>)"
    and "oldest (clients r) c"
    and "sess_inv cfg n (forget_record (clients r) c) (sessions r - 1) rest"
proof -
  have ok: "records_ok cfg n (clients r)" "cands_ok (clients r) (eviction_candidates r)"
    and k: "sessions r = card (dom (record_of (clients r)))" using inv by (simp_all add: sess_inv_def)
  then have "dom (record_of (clients r)) \<noteq> {}" using full by force
  then obtain d rec where "record_of (clients r) d = Some rec" by (auto simp: dom_def)
  from evict_loop_total [OF ok this] obtain c rest where
    e: "evict_loop (clients r) (eviction_candidates r) = Some (c, rest)" and old: "oldest (clients r) c"
    and rest: "cands_ok (forget_record (clients r) c) rest"
      "set rest \<subseteq> set (eviction_candidates r) \<union> set (sessions_of (clients r))" by blast
  show ?thesis
  proof (rule that)
    show "evict sm r m = Some (r\<lparr>eviction_candidates := rest, clients := forget_record (clients r) c,
        sessions := sessions r - 1, state_machine := sm_record_client sm (state_machine r) m c None\<rparr>)"
      using full by (simp add: evict_def e)
    show "sess_inv cfg n (forget_record (clients r) c) (sessions r - 1) rest"
      using inv oldestD [OF old] rest by (rule sess_inv_forget)
  qed (rule old)
qed

text \<open>A record that executes at the next operation is newer than all others.\<close>

lemma sess_inv_update:
  assumes inv: "sess_inv cfg n cs k cands" and rec: "rec_client_id rec = c" "rec_op_number rec = Suc n"
    "rec_session rec \<le> Suc n" "length (rec_replies rec) \<le> cfg_in_flight_max cfg"
    and wf: "bt_wf cs'" and cs': "record_of cs' = (record_of cs)(c := Some rec)"
    and k': "k' = (if record_of cs c = None then Suc k else k)" "k' \<le> cfg_clients_max cfg"
  shows "sess_inv cfg (Suc n) cs' k' cands"
proof -
  have ok: "rec_op_number x \<le> n" if "record_of cs d = Some x" for d x
    using that inv by (auto simp: sess_inv_def records_ok_def)
  then have new: "rec_op_number x \<noteq> Suc n" if "record_of cs d = Some x" for d x
    using ok [OF that] by linarith
  have old: "records_ok cfg n cs" using inv by (simp add: sess_inv_def)
  then have inj: "d = e" if "record_of cs d = Some x" "record_of cs e = Some y" "rec_op_number x = rec_op_number y" for d e x y
    using that unfolding records_ok_def by blast
  have "d = e" if "record_of cs' d = Some x" "record_of cs' e = Some y" "rec_op_number x = rec_op_number y" for d e x y
    using that new [of d x] new [of e y] rec(2) inj [of d x e y]
    by (cases "d = c"; cases "e = c") (auto simp: cs')
  moreover have "rec_client_id x = d \<and> rec_session x \<le> rec_op_number x \<and> rec_op_number x \<le> Suc n
      \<and> length (rec_replies x) \<le> cfg_in_flight_max cfg" if "record_of cs' d = Some x" for d x
    using that rec old by (cases "d = c") (auto simp: cs' records_ok_def le_Suc_eq)
  ultimately have "records_ok cfg (Suc n) cs'"
    using wf unfolding records_ok_def by blast
  moreover have "cands_ok cs' cands"
    using inv rec(2) by (auto simp: sess_inv_def cands_ok_def cs' less_Suc_eq_le split: if_splits)
  moreover have "k' = card (dom (record_of cs'))"
    using inv by (auto simp: k'(1) cs' sess_inv_def card_insert_if domIff)
  ultimately show ?thesis using inv k'(2) by (auto simp: sess_inv_def)
qed

text \<open>Nothing but the pending entries of the table changes.\<close>

lemma sess_inv_same:
  assumes "sess_inv cfg n cs k cands" and "bt_wf cs'" and "record_of cs' = record_of cs" and "n \<le> m"
  shows "sess_inv cfg m cs' k cands"
  using assms by (auto simp: sess_inv_def records_ok_def cands_ok_def intro: order_trans)

lemma sess_inv_wf: "sess_inv cfg n cs k cands \<Longrightarrow> bt_wf cs"
  by (simp add: sess_inv_def records_ok_def)

definition new_record :: "ClientID \<Rightarrow> OpNumber \<Rightarrow> 'out client_record" where
  "new_record c n = \<lparr>rec_client_id = c, rec_session = n, rec_request_number = 0, rec_replies = [], rec_op_number = n\<rparr>"

definition open_session ::
  "('s, 'op, 'q, 'out, 'chunk) state_machine \<Rightarrow> ('s, 'op, 'q, 'out, 'chunk) replica \<Rightarrow> OpNumber
   \<Rightarrow> ClientID \<Rightarrow> ('s, 'op, 'q, 'out, 'chunk) replica" where
  "open_session sm r n c = r\<lparr>state_machine := sm_record_client sm (state_machine r) n c (Some (new_record c n)),
     clients := bt_insert c ((client_of (clients r) c)\<lparr>cs_record := Some (new_record c n)\<rparr>) (clients r),
     sessions := sessions r + 1\<rparr>"

abbreviation settled_table :: "('s, 'op, 'q, 'out, 'chunk) replica \<Rightarrow> ClientID \<Rightarrow> OpNumber \<times> RequestNumber
   \<Rightarrow> (ClientID \<times> 'out client_state) list" where
  "settled_table r c key \<equiv> bt_insert c (settle_pending (client_of (clients r) c) key) (clients r)"

lemma record_of_settled [simp]: "record_of (settled_table r c key) = record_of (clients r)"
  by (auto simp: record_of_insert record_of_client)

lemma register_known:
  assumes "record_of (clients r) c = Some rec"
  shows "register sm r n c = Some (r\<lparr>clients := settled_table r c (n, 0),
      state_machine := sm_record_client sm (state_machine r) n c (Some rec)\<rparr>,
    Registered (view_number r) c (rec_session rec))"
  using assms by (simp add: register_def Let_def record_of_client)

lemma register_new:
  assumes "record_of (clients r) c = None" and "ra = r\<lparr>clients := settled_table r c (n, 0)\<rparr>"
  shows "register sm r n c = Option.bind
     (if cfg_clients_max (config r) \<le> sessions r then evict sm ra n else Some ra)
     (\<lambda>r. Some (open_session sm r n c, Registered (view_number r) c n))"
  using assms(1) unfolding assms(2)
  by (simp add: register_def Let_def record_of_client open_session_def new_record_def)

lemma open_session_inv:
  assumes "sess_inv (config r) n (clients r) (sessions r) (eviction_candidates r)"
    and "record_of (clients r) c = None" and "sessions r < cfg_clients_max (config r)" and "r' = open_session sm r (Suc n) c"
  shows "sess_inv (config r') (Suc n) (clients r') (sessions r') (eviction_candidates r')"
proof -
  have "sess_inv (config r) (Suc n) (clients r') (Suc (sessions r)) (eviction_candidates r)"
    using assms by (intro sess_inv_update [where rec = "new_record c (Suc n)" and c = c and k = "sessions r"])
      (auto simp: new_record_def record_of_insert open_session_def intro: bt_wf_insert sess_inv_wf)
  then show ?thesis by (simp add: assms(4) open_session_def)
qed

lemma sessions_settled:
  assumes "sessions_inv r" and "applied r \<le> m"
  shows "sess_inv (config r) m (settled_table r c key) (sessions r) (eviction_candidates r)"
  using assms unfolding sessions_inv_def by (intro sess_inv_same [OF _ bt_wf_insert]) (auto intro: sess_inv_wf)

lemma register_sessions:
  assumes inv: "sessions_inv r"
  shows "\<exists>r' rep. register sm r (Suc (applied r)) c = Some (r', rep)
     \<and> sess_inv (config r') (Suc (applied r)) (clients r') (sessions r') (eviction_candidates r')"
proof (cases "record_of (clients r) c")
  case (Some rec)
  then show ?thesis using sessions_settled [OF inv, of "Suc (applied r)"] by (simp add: register_known)
next
  case None
  define ra where "ra = r\<lparr>clients := settled_table r c (Suc (applied r), 0)\<rparr>"
  have i: "sess_inv (config ra) (applied r) (clients ra) (sessions ra) (eviction_candidates ra)"
    using sessions_settled [OF inv order_refl] by (simp add: ra_def)
  have n: "record_of (clients ra) c = None" using None by (simp add: ra_def)
  show ?thesis
  proof (cases "cfg_clients_max (config r) \<le> sessions r")
    case True
    then have "1 \<le> sessions ra" using i by (simp add: ra_def sess_inv_def)
    with i obtain d rest where e: "evict sm ra (Suc (applied r)) = Some (ra\<lparr>eviction_candidates := rest,
        clients := forget_record (clients ra) d, sessions := sessions ra - 1,
        state_machine := sm_record_client sm (state_machine ra) (Suc (applied r)) d None\<rparr>)"
        (is "_ = Some ?rb")
      and s: "sess_inv (config ra) (applied r) (forget_record (clients ra) d) (sessions ra - 1) rest"
      by (rule evict_oldest)
    have "sessions ra - 1 < cfg_clients_max (config ra)" 
    proof -
      have "sessions ra \<le> cfg_clients_max (config ra)" using i by (simp add: sess_inv_def)
      with \<open>1 \<le> sessions ra\<close> show ?thesis by linarith
    qed
    with open_session_inv [of ?rb "applied r" c _ sm] s n True show ?thesis
      by (simp add: register_new [OF None ra_def] e record_of_forget)
  next
    case False
    then show ?thesis
      using open_session_inv [OF i n _ refl, of sm] by (simp add: register_new [OF None ra_def]) (simp add: ra_def)
  qed
qed

lemma record_result_eq:
  "record_result cfg rec n q a result = (if 1 \<le> cfg_in_flight_max cfg then
     Some (rec\<lparr>rec_request_number := q, rec_replies := drop (length (rec_replies rec) + 1
       - max 1 (min (cfg_in_flight_max cfg) (q - a))) (rec_replies rec @ [result]), rec_op_number := n\<rparr>) else None)"
  by (simp add: record_result_def Let_def clamp_chk_def)

lemma record_result_replies:
  "record_result cfg rec n q a result = Some rec' \<Longrightarrow> length (rec_replies rec') \<le> cfg_in_flight_max cfg
     \<and> rec_replies rec' \<noteq> [] \<and> last (rec_replies rec') = result"
  by (auto simp: record_result_def Let_def bind_eq_Some_conv)

text \<open>A request outside its client's session leaves the table as it is.\<close>

lemma execute_request_foreign:
  assumes "\<And>rec. record_of (clients r) c = Some rec \<Longrightarrow> rec_session rec \<noteq> session"
  obtains cs where "execute_request sm r n c session q a op = Some (r\<lparr>clients := cs,
      state_machine := sm_record_client sm (state_machine r) n c (record_of (clients r) c)\<rparr>,
      Evicted (view_number r) c session)"
    and "record_of cs = record_of (clients r)" and "bt_wf (clients r) \<Longrightarrow> bt_wf cs"
proof -
  let ?st = "settle_pending (client_of (clients r) c) (session, q)"
  have no: "\<not> in_session ?st session"
    using assms by (auto simp: in_session_def record_of_client split: option.splits)
  let ?cs = "if cs_record ?st = None \<and> cs_pending ?st = None then bt_remove c (clients r)
     else bt_insert c ?st (clients r)"
  have "record_of ?cs = record_of (clients r)"
    by (auto simp: record_of_remove record_of_insert record_of_client)
  moreover have "execute_request sm r n c session q a op = Some (r\<lparr>clients := ?cs,
      state_machine := sm_record_client sm (state_machine r) n c (record_of (clients r) c)\<rparr>,
      Evicted (view_number r) c session)"
    using no by (simp add: execute_request_def Let_def record_of_client)
  ultimately show ?thesis using that [of ?cs] by (simp add: bt_wf_insert bt_wf_remove)
qed

lemma execute_request_own:
  assumes "record_of (clients r) c = Some rec" and "rec_session rec = session"
  shows "execute_request sm r n c session q a op = do {
     ensure (rec_request_number rec + 1 = q);
     (s, result) \<leftarrow> sm_apply sm (state_machine r) n op;
     rec' \<leftarrow> record_result (config r) rec n q a result;
     Some (r\<lparr>clients := bt_insert c ((settle_pending (client_of (clients r) c) (session, q))\<lparr>cs_record := Some rec'\<rparr>) (clients r),
             state_machine := sm_record_client sm s n c (Some rec')\<rparr>,
           Executed (view_number r) c session q result) }"
  using assms by (simp add: execute_request_def Let_def record_of_client in_session_def)

lemma execute_request_sessions:
  assumes inv: "sessions_inv r" and step: "execute_request sm r (Suc (applied r)) c session q a op = Some (r', rep)"
  shows "sess_inv (config r') (Suc (applied r)) (clients r') (sessions r') (eviction_candidates r')"
proof (cases "\<exists>rec. record_of (clients r) c = Some rec \<and> rec_session rec = session")
  case False
  then obtain cs where "r' = r\<lparr>clients := cs,
      state_machine := sm_record_client sm (state_machine r) (Suc (applied r)) c (record_of (clients r) c)\<rparr>"
    "record_of cs = record_of (clients r)" "bt_wf (clients r) \<Longrightarrow> bt_wf cs"
    using step execute_request_foreign [of r c session sm "Suc (applied r)" q a op] by (metis Pair_inject option.inject)
  moreover have "sess_inv (config r) (applied r) (clients r) (sessions r) (eviction_candidates r)"
    using inv by (simp add: sessions_inv_def)
  ultimately show ?thesis by (simp add: sess_inv_same [OF _ _ _ le_SucI] sess_inv_wf)
next
  case True
  then obtain rec where rec: "record_of (clients r) c = Some rec" "rec_session rec = session" by blast
  with step obtain s result rec' where
    new: "record_result (config r) rec (Suc (applied r)) q a result = Some rec'"
    and r': "r' = r\<lparr>clients := bt_insert c ((settle_pending (client_of (clients r) c) (session, q))\<lparr>cs_record := Some rec'\<rparr>)
      (clients r), state_machine := sm_record_client sm s (Suc (applied r)) c (Some rec')\<rparr>"
    unfolding execute_request_own [OF rec] by (auto simp: bind_eq_Some_conv split: if_splits)
  have old: "rec_client_id rec = c" "rec_session rec \<le> applied r"
    using inv rec(1) by (auto simp: sessions_inv_def sess_inv_def records_ok_def intro: order_trans)
  have "sess_inv (config r) (Suc (applied r)) (clients r') (sessions r) (eviction_candidates r)"
  proof (rule sess_inv_update [where rec = rec' and c = c])
    show "sess_inv (config r) (applied r) (clients r) (sessions r) (eviction_candidates r)"
      using inv by (simp add: sessions_inv_def)
    then show "bt_wf (clients r')" "sessions r \<le> cfg_clients_max (config r)"
      by (auto simp: r' sess_inv_def records_ok_def intro: bt_wf_insert)
    show "length (rec_replies rec') \<le> cfg_in_flight_max (config r)" using record_result_replies [OF new] by simp
  qed (use new old rec in \<open>auto simp: r' record_of_insert record_result_def Let_def bind_eq_Some_conv\<close>)
  then show ?thesis by (simp add: r')
qed

lemma execute_sessions:
  assumes "sessions_inv r" and "execute sm r (Suc (applied r)) = Some (r', rep)"
  shows "sess_inv (config r') (Suc (applied r)) (clients r') (sessions r') (eviction_candidates r')"
proof -
  from assms(2) obtain e where e: "entry r (Suc (applied r)) = Some e" by (auto simp: execute_def bind_eq_Some_conv)
  show ?thesis
  proof (cases e)
    case (ERegister c)
    then have "register sm r (Suc (applied r)) c = Some (r', rep)" using assms(2) e by (simp add: execute_def)
    with register_sessions [OF assms(1), of sm c] show ?thesis by auto
  next
    case (ERequest c session q a op)
    then show ?thesis using assms e by (simp add: execute_def execute_request_sessions)
  qed
qed

lemma apply_next_cases:
  assumes "apply_next sm r = Some r'"
  obtains r1 rep where "execute sm r (Suc (applied r)) = Some (r1, rep)"
    and "r' = r1\<lparr>applied := Suc (applied r),
      replies := if replies_to r1 (Suc (applied r)) then replies r1 @ [rep] else replies r1\<rparr>"
proof -
  from assms obtain r1 rep where e: "execute sm r (Suc (applied r)) = Some (r1, rep)"
    and r': "r' = (let r2 = r1\<lparr>applied := Suc (applied r)\<rparr> in
      if replies_to r2 (Suc (applied r)) then r2\<lparr>replies := replies r2 @ [rep]\<rparr> else r2)"
    by (auto simp: apply_next_def Let_def bind_eq_Some_conv)
  show ?thesis
    by (rule that [OF e]) (simp_all add: r' Let_def replies_to_def)
qed

lemma apply_next_sessions:
  assumes "sessions_inv r" and "apply_next sm r = Some r'"
  shows "sessions_inv r'"
proof -
  from assms(2) obtain r1 rep where "execute sm r (Suc (applied r)) = Some (r1, rep)"
    and "r' = r1\<lparr>applied := Suc (applied r),
      replies := if replies_to r1 (Suc (applied r)) then replies r1 @ [rep] else replies r1\<rparr>"
    by (rule apply_next_cases)
  with execute_sessions [OF assms(1)] show ?thesis by (simp add: sessions_inv_def)
qed

lemma apply_loop_sessions: "apply_loop sm r n = Some r' \<Longrightarrow> sessions_inv r \<Longrightarrow> sessions_inv r'"
proof (induction sm r n rule: apply_loop.induct)
  case (1 sm r n)
  show ?case
    using 1 apply_loop.simps [of sm r n]
    by (cases "applied r < min (commit_number r) n") (auto simp: bind_eq_Some_conv dest: apply_next_sessions)
qed

end
