(* ===== verification/Sim_Model.thy ===== *)
theory Sim_Model
  imports VSR_Sessions Sim_Accumulator
begin

text \<open>
  \<open>Model\<close> of \<open>src/simulator/properties.rs\<close>: what the committed log does, fed to it in
  order, as the simulator computes it beside the replicas.  It is the specification of
  execution: a replica on the simulator's state machine refines it, entry by entry.
\<close>

section \<open>The model\<close>

record model =
  md_fed :: nat
  md_value :: i64
  md_table :: acc_table
  md_evicted :: "(ClientID \<times> OpNumber) set"
  md_sessions :: "(ClientID \<times> OpNumber) set"
  md_executed :: acc_history
  md_results :: "((ClientID \<times> OpNumber \<times> RequestNumber) \<times> i64) list"

definition model_default :: model where
  "model_default = \<lparr>md_fed = 0, md_value = 0, md_table = [], md_evicted = {}, md_sessions = {},
     md_executed = [], md_results = []\<rparr>"

text \<open>\<open>Iterator::min_by_key\<close>: the first of the elements whose key is the least.\<close>

fun min_by_key :: "('a \<Rightarrow> 'k::linorder) \<Rightarrow> 'a list \<Rightarrow> 'a option" where
  "min_by_key f [] = None"
| "min_by_key f (x # xs) =
     (case min_by_key f xs of
        None \<Rightarrow> Some x
      | Some y \<Rightarrow> if f x \<le> f y then Some x else Some y)"

definition model_evict :: "model \<Rightarrow> model option" where
  "model_evict m = do {
     (evicted, rec) \<leftarrow> min_by_key (\<lambda>b. rec_op_number (snd b)) (md_table m);
     Some (m\<lparr>md_evicted := insert (evicted, rec_session rec) (md_evicted m),
             md_table := bt_remove evicted (md_table m)\<rparr>) }"

definition model_register :: "config \<Rightarrow> model \<Rightarrow> OpNumber \<Rightarrow> ClientID \<Rightarrow> (model \<times> OpNumber) option" where
  "model_register cfg m n c =
     (case map_of (md_table m) c of
        Some rec \<Rightarrow> Some (m, rec_session rec)
      | None \<Rightarrow> do {
          m \<leftarrow> (if cfg_clients_max cfg \<le> length (md_table m) then model_evict m else Some m);
          let rec = \<lparr>rec_client_id = c, rec_session = n, rec_request_number = 0, rec_replies = [],
                     rec_op_number = n\<rparr>;
          Some (m\<lparr>md_table := bt_insert c rec (md_table m)\<rparr>, n) })"

text \<open>The replies the loop of \<open>pop_front\<close> leaves.\<close>

fun pop_to :: "nat \<Rightarrow> 'a list \<Rightarrow> 'a list" where
  "pop_to kept [] = []"
| "pop_to kept (x # xs) = (if kept < length (x # xs) then pop_to kept xs else x # xs)"

text \<open>One entry; \<open>None\<close> is a property violated, or a panic.\<close>

definition model_entry :: "config \<Rightarrow> model \<Rightarrow> acc_op log_entry \<Rightarrow> model option" where
  "model_entry cfg m e = do {
     let m = m\<lparr>md_fed := md_fed m + 1\<rparr>;
     let n = md_fed m;
     case e of
       ERegister c \<Rightarrow> do {
         (m, session) \<leftarrow> model_register cfg m n c;
         Some (m\<lparr>md_sessions := insert (c, session) (md_sessions m)\<rparr>) }
     | ERequest c session q answered op \<Rightarrow>
         (case map_of (md_table m) c of
            None \<Rightarrow> Some m
          | Some rec \<Rightarrow>
              if rec_session rec \<noteq> session then Some m
              else do {
                ensure (q = rec_request_number rec + 1);
                let m = m\<lparr>md_value := kind_apply (op_kind op) (md_value m),
                          md_executed := md_executed m @ [(n, op)]\<rparr>;
                let position = of_nat (length (md_executed m));
                kept \<leftarrow> clamp_chk 1 (cfg_in_flight_max cfg) (q - answered);
                let rec = rec\<lparr>rec_request_number := q,
                              rec_replies := pop_to kept (rec_replies rec @ [position]),
                              rec_op_number := n\<rparr>;
                Some (m\<lparr>md_table := bt_insert c rec (md_table m),
                        md_results := bt_insert (c, session, q) position (md_results m)\<rparr>) }) }"

fun model_entries :: "config \<Rightarrow> model \<Rightarrow> acc_op log_entry list \<Rightarrow> model option" where
  "model_entries cfg m [] = Some m"
| "model_entries cfg m (e # es) = do { m \<leftarrow> model_entry cfg m e; model_entries cfg m es }"

definition feed :: "config \<Rightarrow> model \<Rightarrow> acc_op log_entry list \<Rightarrow> model option" where
  "feed cfg m committed = do {
     es \<leftarrow> drop_chk (md_fed m) committed;
     model_entries cfg m es }"

section \<open>What the model picks and keeps\<close>

lemma min_by_key_None [simp]: "min_by_key f xs = None \<longleftrightarrow> xs = []"
  by (induction xs) (auto split: option.splits)

lemma min_by_key_Some: "min_by_key f xs = Some y \<Longrightarrow> y \<in> set xs \<and> (\<forall>x \<in> set xs. f y \<le> f x)"
proof (induction xs arbitrary: y)
  case (Cons x xs)
  then show ?case by (fastforce split: option.splits if_splits)
qed simp

lemma pop_to_drop: "pop_to k xs = drop (length xs - k) xs"
  by (induction xs) (auto simp: Suc_diff_le not_less)

lemma bt_wf_Cons: "bt_wf (x # m) \<longleftrightarrow> bt_wf m \<and> (\<forall>y \<in> set m. fst x < fst y)"
  by (auto simp: bt_wf_def)

text \<open>An ordered map is determined by its lookups.\<close>

lemma bt_wf_values: "bt_wf m \<Longrightarrow> m = map (\<lambda>k. (k, the (map_of m k))) (map fst m)"
  using bt_wf_distinct [of m] by (simp add: comp_def) (rule map_idI [symmetric], auto)

lemma bt_wf_ext:
  assumes wf: "bt_wf m" "bt_wf m'" and eq: "map_of m = map_of m'"
  shows "m = m'"
proof -
  have "set (map fst m) = set (map fst m')"
    using arg_cong [OF eq, of dom] by (simp add: dom_map_of_conv_image_fst)
  then have "map fst m = map fst m'"
    using wf by (intro sorted_distinct_set_unique) (auto simp: bt_wf_def strict_sorted_iff)
  with bt_wf_values [OF wf(1)] bt_wf_values [OF wf(2)] eq show ?thesis by simp
qed

lemma length_table: "bt_wf m \<Longrightarrow> length m = card (dom (map_of m))"
  using distinct_card [OF bt_wf_distinct [of m]] by (simp add: dom_map_of_conv_image_fst)

section \<open>Refinement\<close>

type_synonym acc_replica = "(accumulator, acc_op, unit, i64, acc_chunk) replica"

definition refines :: "acc_replica \<Rightarrow> model \<Rightarrow> bool" where
  "refines r m \<longleftrightarrow> sessions_inv r \<and> md_fed m = applied r \<and> bt_wf (md_table m)
     \<and> map_of (md_table m) = record_of (clients r) \<and> acc_clients (state_machine r) = md_table m
     \<and> acc_value (state_machine r) = md_value m \<and> acc_applied (state_machine r) = md_executed m
     \<and> (\<forall>x \<in> set (md_executed m). fst x \<le> applied r)"

text \<open>What a reply says of the committed log.\<close>

fun reply_ok :: "model \<Rightarrow> i64 reply \<Rightarrow> bool" where
  "reply_ok m (Registered v c session) \<longleftrightarrow> (c, session) \<in> md_sessions m"
| "reply_ok m (Executed v c session q result) \<longleftrightarrow> map_of (md_results m) (c, session, q) = Some result"
| "reply_ok m (Evicted v c session) \<longleftrightarrow> (\<forall>rec. map_of (md_table m) c = Some rec \<longrightarrow> rec_session rec \<noteq> session)"
| "reply_ok m (Queried v c q result) \<longleftrightarrow> True"

lemma refines_record:
  assumes "bt_wf t" and "map_of t c = Some rec"
  shows "bt_insert c rec t = t"
  using assms by (intro bt_wf_ext) (auto simp: bt_wf_insert)

lemma oldest_min:
  assumes ok: "records_ok cfg n cs" and t: "bt_wf t" "map_of t = record_of cs"
    and c: "oldest cs c" and m: "min_by_key (\<lambda>b. rec_op_number (snd b)) t = Some (d, rec)"
  shows "d = c"
proof -
  obtain x where x: "record_of cs c = Some x" "\<And>e y. record_of cs e = Some y \<Longrightarrow> rec_op_number x \<le> rec_op_number y"
    using c by (auto simp: oldest_def)
  have "(d, rec) \<in> set t" and le: "\<And>b. b \<in> set t \<Longrightarrow> rec_op_number rec \<le> rec_op_number (snd b)"
    using min_by_key_Some [OF m] by auto
  then have d: "record_of cs d = Some rec" using bt_wf_distinct [OF t(1)] by (simp flip: t(2))
  have "(c, x) \<in> set t" using x(1) by (simp flip: t(2) add: map_of_SomeD)
  from le [OF this] x(2) [OF d] have "rec_op_number rec = rec_op_number x" by simp
  with d x(1) ok show ?thesis unfolding records_ok_def by blast
qed

lemma acc_record_fields [simp]:
  "acc_clients (acc_record_client s n c ro) = (case ro of Some rec \<Rightarrow> bt_insert c rec (acc_clients s)
     | None \<Rightarrow> bt_remove c (acc_clients s))"
  "acc_value (acc_record_client s n c ro) = acc_value s"
  "acc_applied (acc_record_client s n c ro) = acc_applied s"
  by (simp_all add: acc_record_client_def)

lemma refinesD:
  assumes "refines r m"
  shows "sess_inv (config r) (applied r) (clients r) (sessions r) (eviction_candidates r)"
    "md_fed m = applied r" "bt_wf (md_table m)" "map_of (md_table m) = record_of (clients r)"
    "length (md_table m) = sessions r" "records_ok (config r) (applied r) (clients r)"
    "acc_clients (state_machine r) = md_table m" "acc_value (state_machine r) = md_value m"
    "acc_applied (state_machine r) = md_executed m"
  using assms by (simp_all add: refines_def sessions_inv_def sess_inv_def length_table)

text \<open>Opening a session, on a replica and in the model.\<close>

lemma refines_open:
  assumes "sess_inv (config r) n (clients r) (sessions r) (eviction_candidates r)"
    and "record_of (clients r) c = None" and "sessions r < cfg_clients_max (config r)"
    and "bt_wf t" and "map_of t = record_of (clients r)" and "acc_clients (state_machine r) = t"
    and "acc_value (state_machine r) = md_value m" and "acc_applied (state_machine r) = md_executed m"
    and "\<forall>x \<in> set (md_executed m). fst x \<le> n"
  shows "refines ((open_session acc_sm r (Suc n) c)\<lparr>applied := Suc n\<rparr>)
     (m\<lparr>md_fed := Suc n, md_table := bt_insert c (new_record c (Suc n)) t, md_sessions := x\<rparr>)"
  using open_session_inv [OF assms(1-3) refl, of acc_sm] assms(4-9)
  unfolding refines_def sessions_inv_def
  by (auto simp: open_session_def bt_wf_insert record_of_insert)

lemma register_refines:
  assumes ref: "refines r m" and n: "n = Suc (applied r)"
  shows "\<exists>m' session r'. model_register (config r) (m\<lparr>md_fed := n\<rparr>) n c = Some (m', session)
     \<and> register acc_sm r n c = Some (r', Registered (view_number r) c session)
     \<and> (\<forall>x. refines (r'\<lparr>applied := n\<rparr>) (m'\<lparr>md_sessions := x\<rparr>))"
proof (cases "record_of (clients r) c")
  case (Some rec)
  note D = refinesD [OF ref]
  have "sess_inv (config r) n (settled_table r c (n, 0)) (sessions r) (eviction_candidates r)"
    using ref by (intro sessions_settled) (simp_all add: refines_def n)
  then have "refines (r\<lparr>clients := settled_table r c (n, 0), state_machine :=
      acc_record_client (state_machine r) n c (Some rec), applied := n\<rparr>) (m\<lparr>md_fed := n, md_sessions := x\<rparr>)" for x
    using ref Some refines_record [of "md_table m" c rec]
    by (auto simp: refines_def sessions_inv_def n le_Suc_eq)
  then show ?thesis using Some by (simp add: register_known model_register_def D(4))
next
  case None
  note D = refinesD [OF ref]
  define ra where "ra = r\<lparr>clients := settled_table r c (n, 0)\<rparr>"
  have i: "sess_inv (config ra) (applied r) (clients ra) (sessions ra) (eviction_candidates ra)"
    using sessions_settled [of r "applied r" c "(n, 0)"] ref by (simp add: ra_def refines_def)
  have ra: "record_of (clients ra) = record_of (clients r)" "config ra = config r" "sessions ra = sessions r"
    "state_machine ra = state_machine r" "view_number ra = view_number r" by (simp_all add: ra_def)
  have ex: "\<forall>x \<in> set (md_executed m). fst x \<le> applied r" using ref by (simp add: refines_def)
  show ?thesis
  proof (cases "cfg_clients_max (config r) \<le> sessions r")
    case False
    then have "refines ((open_session acc_sm ra n c)\<lparr>applied := n\<rparr>)
        (m\<lparr>md_fed := n, md_table := bt_insert c (new_record c n) (md_table m), md_sessions := x\<rparr>)" for x
      unfolding n using i None D ex by (intro refines_open) (simp_all add: ra)
    with False show ?thesis
      by (simp add: register_new [OF None ra_def] model_register_def D(4,5) None ra(5) new_record_def)
  next
    case True
    then have k: "1 \<le> sessions ra" "sessions r = cfg_clients_max (config r)"
      using i by (auto simp: ra sess_inv_def)
    from i k(1) obtain d rest where e: "evict acc_sm ra n = Some (ra\<lparr>eviction_candidates := rest,
        clients := forget_record (clients ra) d, sessions := sessions ra - 1,
        state_machine := acc_record_client (state_machine ra) n d None\<rparr>)" (is "_ = Some ?rb")
      and old: "oldest (clients ra) d"
      and s: "sess_inv (config ra) (applied r) (forget_record (clients ra) d) (sessions ra - 1) rest"
      by (rule evict_oldest [where sm = acc_sm and m = n]) simp
    have "md_table m \<noteq> []" using D(5) k(1) by (auto simp: ra)
    then obtain d' rec where mk: "min_by_key (\<lambda>b. rec_op_number (snd b)) (md_table m) = Some (d', rec)"
      by (metis min_by_key_None not_None_eq prod.exhaust)
    have ok: "records_ok (config r) (applied r) (clients ra)" using i by (simp add: ra sess_inv_def)
    have d': "d' = d" by (rule oldest_min [OF ok D(3) _ old mk]) (simp add: D(4) ra)
    let ?m = "m\<lparr>md_fed := n, md_evicted := insert (d, rec_session rec) (md_evicted m)\<rparr>"
    have "refines ((open_session acc_sm ?rb n c)\<lparr>applied := n\<rparr>)
        (?m\<lparr>md_fed := Suc (applied r), md_table := bt_insert c (new_record c (Suc (applied r))) (bt_remove d (md_table m)), md_sessions := x\<rparr>)" for x
      unfolding n using s None D ex k
      by (intro refines_open) (simp_all add: ra record_of_forget bt_wf_remove)
    moreover have "register acc_sm r n c = Some (open_session acc_sm ?rb n c, Registered (view_number r) c n)"
      using True by (simp add: register_new [OF None ra_def] e ra(5))
    moreover have "model_register (config r) (m\<lparr>md_fed := n\<rparr>) n c =
        Some (?m\<lparr>md_table := bt_insert c (new_record c n) (bt_remove d (md_table m))\<rparr>, n)"
      using True by (simp add: model_register_def model_evict_def D(4,5) None mk d' new_record_def)
    ultimately show ?thesis by (simp add: n refines_def)
  qed
qed

lemma acc_apply_next:
  assumes "\<forall>x \<in> set (acc_applied s). fst x < n"
  shows "acc_apply s n op = Some (s\<lparr>acc_value := kind_apply (op_kind op) (acc_value s),
     acc_applied := acc_applied s @ [(n, op)], acc_op_number := n\<rparr>, of_nat (Suc (length (acc_applied s))))"
  using assms last_in_set [of "acc_applied s"] by (cases "acc_applied s = []") (auto simp: acc_apply_def Let_def)

text \<open>Executing one entry does what feeding it does, and panics exactly when feeding it fails.\<close>

lemma execute_refines:
  assumes ref: "refines r m" and e: "entry r (Suc (applied r)) = Some e"
  shows "case model_entry (config r) m e of
     None \<Rightarrow> execute acc_sm r (Suc (applied r)) = None
   | Some m' \<Rightarrow> \<exists>r' rep. execute acc_sm r (Suc (applied r)) = Some (r', rep)
       \<and> refines (r'\<lparr>applied := Suc (applied r)\<rparr>) m' \<and> reply_ok m' rep"
proof (cases e)
  case (ERegister c)
  from register_refines [OF ref refl, of c] obtain m' session r' where
    "model_register (config r) (m\<lparr>md_fed := Suc (applied r)\<rparr>) (Suc (applied r)) c = Some (m', session)"
    "register acc_sm r (Suc (applied r)) c = Some (r', Registered (view_number r) c session)"
    "\<And>x. refines (r'\<lparr>applied := Suc (applied r)\<rparr>) (m'\<lparr>md_sessions := x\<rparr>)" by blast
  with e ERegister show ?thesis
    by (simp add: model_entry_def execute_def refinesD(2) [OF ref])
next
  case (ERequest c session q a op)
  note D = refinesD [OF ref]
  let ?n = "Suc (applied r)"
  have ex: "execute acc_sm r ?n = execute_request acc_sm r ?n c session q a op"
    using e ERequest by (simp add: execute_def)
  show ?thesis
  proof (cases "\<exists>rec. record_of (clients r) c = Some rec \<and> rec_session rec = session")
    case False
    then have m': "model_entry (config r) m e = Some (m\<lparr>md_fed := ?n\<rparr>)"
      using ERequest by (cases "record_of (clients r) c") (auto simp: model_entry_def D(2,4) Let_def)
    from False obtain cs where x: "execute_request acc_sm r ?n c session q a op = Some (r\<lparr>clients := cs,
        state_machine := acc_record_client (state_machine r) ?n c (record_of (clients r) c)\<rparr>,
        Evicted (view_number r) c session)" (is "_ = Some (?r, _)")
      and cs: "record_of cs = record_of (clients r)"
      using execute_request_foreign [of r c session acc_sm ?n q a op] by auto
    have i: "sess_inv (config r) ?n cs (sessions r) (eviction_candidates r)"
      using execute_request_sessions [OF _ x] ref by (simp add: refines_def)
    have "acc_clients (acc_record_client (state_machine r) ?n c (record_of (clients r) c)) = md_table m"
    proof (cases "record_of (clients r) c")
      case None
      then show ?thesis using D(3,4,7) by (auto intro!: bt_wf_ext simp: bt_wf_remove)
    next
      case (Some rec)
      then show ?thesis using D(3,4,7) by (simp add: refines_record)
    qed
    then have "refines (?r\<lparr>applied := ?n\<rparr>) (m\<lparr>md_fed := ?n\<rparr>)"
      using ref i cs by (auto simp: refines_def sessions_inv_def le_Suc_eq)
    with False show ?thesis by (auto simp: m' ex x D(4))
  next
    case True
    then obtain rec where rec: "record_of (clients r) c = Some rec" "rec_session rec = session" by blast
    have fl: "1 \<le> cfg_in_flight_max (config r)" using D(1) by (simp add: sess_inv_def)
    show ?thesis
    proof (cases "q = rec_request_number rec + 1")
      case False
      then show ?thesis
        using ERequest rec by (simp add: model_entry_def D(2,4) ex execute_request_own [OF rec] Let_def)
    next
      case True
      have "\<forall>x \<in> set (acc_applied (state_machine r)). fst x < ?n"
        using ref by (auto simp: refines_def less_Suc_eq_le)
      note ap = acc_apply_next [OF this, of op]
      define res :: i64 where "res = of_nat (Suc (length (acc_applied (state_machine r))))"
      define rec' where "rec' = rec\<lparr>rec_request_number := q, rec_replies := drop (length (rec_replies rec) + 1
         - max 1 (min (cfg_in_flight_max (config r)) (q - a))) (rec_replies rec @ [res]), rec_op_number := ?n\<rparr>"
      obtain r' where x: "execute_request acc_sm r ?n c session q a op
            = Some (r', Executed (view_number r) c session q res)"
        and r': "r' = r\<lparr>clients := bt_insert c ((settle_pending (client_of (clients r) c) (session, q))\<lparr>cs_record := Some rec'\<rparr>) (clients r),
          state_machine := acc_record_client ((state_machine r)\<lparr>acc_value := kind_apply (op_kind op) (acc_value (state_machine r)),
            acc_applied := acc_applied (state_machine r) @ [(?n, op)], acc_op_number := ?n\<rparr>) ?n c (Some rec')\<rparr>"
        using True fl by (simp add: execute_request_own [OF rec] ap record_result_eq rec'_def res_def)
      have m': "model_entry (config r) m e = Some (m\<lparr>md_fed := ?n, md_value := kind_apply (op_kind op) (md_value m),
          md_executed := md_executed m @ [(?n, op)], md_table := bt_insert c rec' (md_table m),
          md_results := bt_insert (c, session, q) res (md_results m)\<rparr>)"
        using True fl rec ERequest
        by (simp add: model_entry_def D(2,4) Let_def clamp_chk_def pop_to_drop rec'_def res_def D(9))
      have i: "sess_inv (config r') ?n (clients r') (sessions r') (eviction_candidates r')"
        using execute_request_sessions [OF _ x] ref by (simp add: refines_def)
      have "refines (r'\<lparr>applied := ?n\<rparr>) (m\<lparr>md_fed := ?n, md_value := kind_apply (op_kind op) (md_value m),
          md_executed := md_executed m @ [(?n, op)], md_table := bt_insert c rec' (md_table m),
          md_results := bt_insert (c, session, q) res (md_results m)\<rparr>)"
        using ref i unfolding refines_def sessions_inv_def
        by (auto simp: r' bt_wf_insert record_of_insert le_Suc_eq)
      with x show ?thesis by (simp add: m' ex)
    qed
  qed
qed

section \<open>The committed log\<close>

lemma exec_frame_entry: "exec_frame r r' \<Longrightarrow> entry r' n = entry r n"
  by (auto simp: entry_def elim!: exec_frameE)

lemma apply_next_refines:
  assumes ref: "refines r m" and step: "apply_next acc_sm r = Some r'"
  obtains e m' where "entry r (Suc (applied r)) = Some e" and "model_entry (config r) m e = Some m'"
    and "refines r' m'" and "applied r' = Suc (applied r)" and "config r' = config r" and "entry r' = entry r"
proof -
  from step obtain r1 rep where ex: "execute acc_sm r (Suc (applied r)) = Some (r1, rep)"
    and r': "r' = r1\<lparr>applied := Suc (applied r),
      replies := if replies_to r1 (Suc (applied r)) then replies r1 @ [rep] else replies r1\<rparr>"
    by (rule apply_next_cases)
  from ex obtain e where e: "entry r (Suc (applied r)) = Some e" by (auto simp: execute_def bind_eq_Some_conv)
  from execute_refines [OF ref e] ex obtain m' where m': "model_entry (config r) m e = Some m'"
    and "refines (r1\<lparr>applied := Suc (applied r)\<rparr>) m'" by (auto split: option.splits)
  then have "refines r' m'" by (simp add: r' refines_def sessions_inv_def)
  moreover have "config r' = config r" "entry r' = entry r"
    using execute_frame [OF ex] by (auto simp: r' entry_def fun_eq_iff elim!: exec_frameE)
  moreover have "applied r' = Suc (applied r)" by (simp add: r')
  ultimately show ?thesis using e m' that by blast
qed

text \<open>The entries from \<open>a + 1\<close> to \<open>b\<close>.\<close>

definition entries_between :: "('s, 'op, 'q, 'out, 'chunk) replica \<Rightarrow> OpNumber \<Rightarrow> OpNumber \<Rightarrow> 'op log_entry list" where
  "entries_between r a b = List.map_filter (entry r) [Suc a..<Suc b]"

lemma entries_between_Cons:
  "a < b \<Longrightarrow> entry r (Suc a) = Some e \<Longrightarrow> entries_between r a b = e # entries_between r (Suc a) b"
  by (simp add: entries_between_def upt_conv_Cons map_filter_simps del: upt_Suc)

lemma entries_between_cong: "entry r' = entry r \<Longrightarrow> entries_between r' a b = entries_between r a b"
  by (simp add: entries_between_def map_filter_def)

lemma apply_loop_refines:
  assumes "refines r m" and "apply_loop acc_sm r n = Some r'"
  shows "\<exists>m'. model_entries (config r) m (entries_between r (applied r) (applied r')) = Some m' \<and> refines r' m'
     \<and> applied r \<le> applied r'"
  using assms
proof (induction "acc_sm" r n arbitrary: m rule: apply_loop.induct)
  case (1 r n)
  show ?case
  proof (cases "applied r < min (commit_number r) n")
    case False
    then have "r' = r" using "1.prems"(2) by (simp add: apply_loop.simps [of acc_sm r n] split: if_splits)
    then show ?thesis using "1.prems"(1) by (simp add: entries_between_def map_filter_def)
  next
    case True
    with "1.prems"(2) obtain r1
      where r1: "apply_next acc_sm r = Some r1" and rest: "apply_loop acc_sm r1 n = Some r'"
      by (auto simp: apply_loop.simps [of acc_sm r n] bind_eq_Some_conv)
    from "1.prems"(1) r1 obtain e m1 where e: "entry r (Suc (applied r)) = Some e"
      "model_entry (config r) m e = Some m1" "refines r1 m1" "applied r1 = Suc (applied r)"
      "config r1 = config r" "entry r1 = entry r" by (rule apply_next_refines)
    from "1.hyps" [OF True _ e(3) rest] r1 obtain m' where
      "model_entries (config r) m1 (entries_between r (Suc (applied r)) (applied r')) = Some m'"
      "refines r' m'" "Suc (applied r) \<le> applied r'"
      by (auto simp: e(4,5) entries_between_cong [OF e(6)])
    then show ?thesis using e(1,2) by (simp add: entries_between_Cons)
  qed
qed

section \<open>The client table of a replica and of its state machine\<close>

definition record_table :: "(ClientID \<times> 'out client_state) list \<Rightarrow> (ClientID \<times> 'out client_record) list" where
  "record_table cs = List.map_filter (\<lambda>b. map_option (Pair (fst b)) (cs_record (snd b))) cs"

lemma record_table_keys: "set (map fst (record_table cs)) \<subseteq> fst ` set cs"
  by (force simp: record_table_def map_filter_def)

lemma record_table_wf: "bt_wf cs \<Longrightarrow> bt_wf (record_table cs)"
proof (induction cs)
  case (Cons b cs)
  then show ?case
    using record_table_keys [of cs]
    by (fastforce simp: record_table_def map_filter_simps bt_wf_Cons split: option.split)
qed (simp add: record_table_def map_filter_def)

lemma map_of_record_table: "bt_wf cs \<Longrightarrow> map_of (record_table cs) = record_of cs"
proof (induction cs)
  case (Cons b cs)
  have "map_of cs (fst b) = None" using Cons.prems by (auto simp: bt_wf_Cons map_of_eq_None_iff)
  with Cons show ?case
    by (cases "cs_record (snd b)") (auto simp: record_table_def map_filter_simps bt_wf_Cons record_of_def fun_eq_iff)
qed (simp add: record_table_def map_filter_def)

lemma client_table_records:
  assumes "records_ok cfg n (clients r)"
  shows "client_table r = map snd (record_table (clients r))"
proof -
  have wf: "bt_wf (clients r)" using assms by (simp add: records_ok_def)
  have v: "List.map_filter (\<lambda>b. cs_record (snd b)) (clients r) = map snd (record_table (clients r))"
    by (auto simp: record_table_def map_filter_def)
  have "rec_client_id (snd b) = fst b" if "b \<in> set (record_table (clients r))" for b
  proof -
    have "record_of (clients r) (fst b) = Some (snd b)"
      using that map_of_record_table [OF wf] bt_wf_distinct [OF record_table_wf [OF wf]] by (metis map_of_is_SomeI prod.collapse)
    then show ?thesis using assms by (simp add: records_ok_def)
  qed
  then have "map rec_client_id (map snd (record_table (clients r))) = map fst (record_table (clients r))" by simp
  then have "sorted (map rec_client_id (map snd (record_table (clients r))))"
    using record_table_wf [OF wf] by (simp only: bt_wf_def strict_sorted_iff)
  then show ?thesis unfolding client_table_def v by (rule sort_key_id_if_sorted)
qed

lemma refines_client_table:
  assumes "refines r m"
  shows "client_table r = acc_client_table (state_machine r)"
proof -
  note D = refinesD [OF assms]
  have wf: "bt_wf (clients r)" using D(6) by (simp add: records_ok_def)
  have "record_table (clients r) = md_table m"
    by (rule bt_wf_ext) (simp_all add: record_table_wf [OF wf] map_of_record_table [OF wf] D(3,4))
  then show ?thesis using client_table_records [OF D(6)] by (simp add: acc_client_table_def D(7))
qed

section \<open>A new replica\<close>

lemma sessions_inv_new:
  assumes "replica_new i cfg s = Some r" and "config_wf cfg"
  shows "sessions_inv r"
  using assms by (auto simp: replica_new_def config_wf_def sessions_inv_def sess_inv_def records_ok_def cands_ok_def
      split: if_splits)

lemma refines_new:
  assumes "replica_new i cfg acc_default = Some r" and "config_wf cfg"
  shows "refines r model_default"
  using sessions_inv_new [OF assms] assms(1)
  by (auto simp: replica_new_def refines_def model_default_def acc_default_def split: if_splits)

end
