(* ===== verification/VSR_Protocol.thy ===== *)
theory VSR_Protocol
  imports VSR_Samples
begin

text \<open>
  The decisions of the protocol: what a quorum of acknowledgements commits, when a query may
  be answered, which log a new view starts with, when recovery ends, and the timers.
\<close>

section \<open>Watermarks\<close>

lemma sorted_rev_above:
  fixes xs :: "nat list"
  assumes "sorted xs" and "k < length xs"
  shows "m \<le> rev xs ! k \<longleftrightarrow> k < length (filter (\<lambda>x. m \<le> x) xs)"
proof -
  let ?i = "length xs - Suc k"
  have i: "rev xs ! k = xs ! ?i" "?i < length xs" using assms(2) by (simp_all add: rev_nth)
  have split: "filter (\<lambda>x. m \<le> x) xs = filter (\<lambda>x. m \<le> x) (take ?i xs) @ filter (\<lambda>x. m \<le> x) (drop ?i xs)"
    by (metis append_take_drop_id filter_append)
  show ?thesis
  proof
    assume "m \<le> rev xs ! k"
    then have "\<forall>x \<in> set (drop ?i xs). m \<le> x"
      using assms(1) i by (auto simp: in_set_conv_nth sorted_iff_nth_mono) (metis add_diff_inverse_nat le_add1 le_trans less_diff_conv add.commute not_less)
    then have "filter (\<lambda>x. m \<le> x) (drop ?i xs) = drop ?i xs" by (simp add: filter_id_conv)
    then have "length (drop ?i xs) \<le> length (filter (\<lambda>x. m \<le> x) xs)" unfolding split by simp
    then show "k < length (filter (\<lambda>x. m \<le> x) xs)" using assms(2) by simp
  next
    assume k: "k < length (filter (\<lambda>x. m \<le> x) xs)"
    show "m \<le> rev xs ! k"
    proof (rule ccontr)
      assume "\<not> m \<le> rev xs ! k"
      then have "\<forall>x \<in> set (take (Suc ?i) xs). \<not> m \<le> x"
        using assms(1) i by (auto simp: in_set_conv_nth sorted_iff_nth_mono less_Suc_eq_le) (meson le_trans)
      then have "filter (\<lambda>x. m \<le> x) (take (Suc ?i) xs) = []" by (simp add: filter_empty_conv)
      then have "length (filter (\<lambda>x. m \<le> x) xs) \<le> length (drop (Suc ?i) xs)"
        by (metis append_Nil append_take_drop_id filter_append length_filter_le)
      then show False using k assms(2) by simp
    qed
  qed
qed

lemma quorum_mark_iff:
  "0 < q \<Longrightarrow> 0 < m \<Longrightarrow> m \<le> quorum_mark q xs \<longleftrightarrow> q \<le> length (filter (\<lambda>x. m \<le> x) xs)"
  using quorum_mark_reached quorum_mark_ge by blast

text \<open>
  C12: the watermark a primary commits to and confirms rounds up to is the \<open>q\<close>-th greatest
  of the replicas' counters, as sorting them would find it.
\<close>

theorem quorum_mark_is_qth_greatest:
  assumes "0 < q" and "q \<le> length xs"
  shows "quorum_mark q xs = rev (sort xs) ! (q - 1)"
proof -
  have "m \<le> quorum_mark q xs \<longleftrightarrow> m \<le> rev (sort xs) ! (q - 1)" if "0 < m" for m
  proof -
    have "m \<le> rev (sort xs) ! (q - 1) \<longleftrightarrow> q - 1 < length (filter (\<lambda>x. m \<le> x) (sort xs))"
      using assms by (intro sorted_rev_above) auto
    also have "\<dots> \<longleftrightarrow> q \<le> length (filter (\<lambda>x. m \<le> x) xs)"
      using assms by (simp add: filter_sort Suc_le_eq) linarith
    finally show ?thesis using quorum_mark_iff [OF assms(1) that, of xs] by blast
  qed
  from this [of "quorum_mark q xs"] this [of "rev (sort xs) ! (q - 1)"] show ?thesis
    by (cases "quorum_mark q xs"; cases "rev (sort xs) ! (q - 1)") auto
qed

theorem quorum_mark_is_qth_greatest_witness: "quorum_mark 2 [5, 0, 3] = rev (sort [5, 0, 3]) ! 1"
  using quorum_mark_is_qth_greatest [of 2 "[5, 0, 3]"] by simp

section \<open>Commits\<close>

lemma commit_up_to_commit:
  "commit_up_to sm r k rep = Some r' \<Longrightarrow> commit_number r' = max (commit_number r) k \<and> acked r' = acked r"
  by (erule commit_up_to_cases) (auto elim!: executedE)


text \<open>A primary that has appended a registration and written it.\<close>

definition acking :: "(accumulator, acc_op, unit, i64, acc_chunk) replica" where
  "acking = (the (replica_new 0 three acc_default))\<lparr>log := [ERegister 7], durable := 1, acked := [1, 0, 0]\<rparr>"


section \<open>Queries\<close>

definition query_ready :: "('s, 'op, 'q, 'out, 'chunk) replica \<Rightarrow> 'q waiting_query \<Rightarrow> bool" where
  "query_ready r q \<longleftrightarrow> wq_round q \<le> round_confirmed r \<and> wq_op_number q \<le> applied r"

definition query_answer ::
  "('s, 'op, 'q, 'out, 'chunk) state_machine \<Rightarrow> ('s, 'op, 'q, 'out, 'chunk) replica \<Rightarrow> 'q waiting_query \<Rightarrow> 'out reply" where
  "query_answer sm r q = Queried (view_number r) (wq_client_id q) (wq_query_number q)
     (sm_query sm (state_machine r) (wq_query q))"

lemma run_queries_eq:
  "run_queries sm r qs = r\<lparr>queries := dropWhile (query_ready r) qs,
     replies := replies r @ map (query_answer sm r) (takeWhile (query_ready r) qs),
     waiting := waiting r - (\<lambda>q. (wq_client_id q, wq_query_number q)) ` set (takeWhile (query_ready r) qs)\<rparr>"
proof (induction qs arbitrary: r)
  case (Cons q qs)
  let ?r = "r\<lparr>waiting := waiting r - {(wq_client_id q, wq_query_number q)},
    replies := replies r @ [query_answer sm r q]\<rparr>"
  have "query_ready ?r = query_ready r" "query_answer sm ?r = query_answer sm r"
    by (simp_all add: query_ready_def query_answer_def fun_eq_iff)
  with Cons.IH [of ?r] show ?case
    by (cases "query_ready r q")
      (simp_all add: query_ready_def [of r q] not_less query_answer_def [of sm r q] Diff_insert2 [symmetric], linarith)
qed simp

lemma start_round_fields:
  assumes "start_round r = Some r'"
  shows "queries r' = queries r" "replies r' = replies r" "applied r' = applied r" "view_number r' = view_number r"
    "round_confirmed r' = round_confirmed r" "state_machine r' = state_machine r" "config r' = config r"
    "confirmed r' = (confirmed r)[self_id r := round r + 1]" "status r' = status r" "is_primary r' = is_primary r"
  using assms mailed_send_to_others [of "\<lambda>_. True" "ConfirmView (view_number r) (round r + 1)"
      "r\<lparr>round := round r + 1, round_unsent := True, confirmed := (confirmed r)[self_id r := round r + 1]\<rparr>"]
  by (auto simp: start_round_def Let_def bind_eq_Some_conv is_primary_def primary_id_def elim!: mailedE)

lemma filter_update_mono:
  fixes xs :: "nat list"
  assumes "i < length xs \<Longrightarrow> xs ! i \<le> y"
  shows "length (filter (\<lambda>x. m \<le> x) xs) \<le> length (filter (\<lambda>x. m \<le> x) (xs[i := y]))"
proof (cases "i < length xs")
  case True
  have "length (filter (\<lambda>x. m \<le> x) (take i xs @ xs ! i # drop (Suc i) xs))
      \<le> length (filter (\<lambda>x. m \<le> x) (take i xs @ y # drop (Suc i) xs))"
    using assms [OF True] by auto
  with True show ?thesis by (simp add: id_take_nth_drop [symmetric] upd_conv_take_nth_drop)
qed (simp add: list_update_beyond)


text \<open>A primary with a query waiting.\<close>

definition querying :: "(accumulator, acc_op, unit, i64, acc_chunk) replica" where
  "querying = the (Option.bind (replica_new 0 three acc_default) (\<lambda>r. on_message acc_sm r (Query 7 1 ())))"

lemma querying_inv: "replica_inv querying"
proof -
  have "Option.bind (replica_new 0 three acc_default) (\<lambda>r. on_message acc_sm r (Query 7 1 ())) \<noteq> None" by code_simp
  then obtain r where r: "replica_new 0 three acc_default = Some r"
    and q: "on_message acc_sm r (Query 7 1 ()) = Some querying"
    unfolding querying_def by (auto simp: bind_eq_None_conv)
  have "0 < replica_count three" by code_simp
  with r have "replica_inv r" by (rule replica_new_inv)
  from on_message_good [OF this q] show ?thesis by (simp add: good_def)
qed


section \<open>View changes\<close>

text \<open>The entry a segment has at an operation.\<close>

definition seg_entry :: "'op log_segment \<Rightarrow> OpNumber \<Rightarrow> 'op log_entry option" where
  "seg_entry seg n = do { i \<leftarrow> checked_sub n (seg_start seg + 1); nth_chk (seg_entries seg) i }"

lemma merge_log_from_commit:
  assumes "merge_log r start es = Some r'" and "start \<le> commit_number r"
  obtains cs c where "r' = r\<lparr>log := take (commit_number r - log_start r) (log r) @ drop (commit_number r - start) es,
      log_changed_from := c, clients := cs\<rparr>"
    and "log_start r \<le> commit_number r" and "commit_number r \<le> op_number r"
proof -
  have "max start (commit_number r) = commit_number r" using assms(2) by (rule max_absorb2)
  from merge_log_frame [OF assms(1), unfolded this] that show ?thesis by blast
qed

lemma merge_log_entries:
  assumes step: "merge_log r (seg_start seg) (seg_entries seg) = Some r'" and start: "seg_start seg \<le> commit_number r"
  shows "n \<le> commit_number r \<Longrightarrow> entry r' n = entry r n"
    and "commit_number r < n \<Longrightarrow> entry r' n = seg_entry seg n"
proof -
  from step start obtain cs c where r': "r' = r\<lparr>log := take (commit_number r - log_start r) (log r)
      @ drop (commit_number r - seg_start seg) (seg_entries seg), log_changed_from := c, clients := cs\<rparr>"
    and le: "log_start r \<le> commit_number r" "commit_number r \<le> op_number r"
    by (rule merge_log_from_commit)
  let ?k = "commit_number r - log_start r" and ?s = "seg_start seg"
  have k: "?k \<le> length (log r)" using le by (simp add: op_number_def)
  show "entry r' n = entry r n" if "n \<le> commit_number r"
    using that k by (auto simp: r' entry_def nth_chk_def checked_sub_def nth_append)
  show "entry r' n = seg_entry seg n" if "commit_number r < n"
  proof -
    obtain d where n: "n = Suc (commit_number r + d)" using \<open>commit_number r < n\<close> less_imp_Suc_add by blast
    have i: "commit_number r + d - log_start r = ?k + d" "commit_number r + d - ?s = commit_number r - ?s + d"
      "log_start r \<le> commit_number r + d" "?s \<le> commit_number r + d"
      using le(1) start by linarith+
    have j: "d < length (seg_entries seg) - (commit_number r - ?s) \<longleftrightarrow> commit_number r - ?s + d < length (seg_entries seg)"
      by linarith
    show ?thesis
      using k i(3,4) by (simp add: r' n entry_def seg_entry_def nth_chk_def checked_sub_def nth_append i(1,2) j)
  qed
qed

lemma install_from_commit_log:
  assumes "install_segment_from_commit r seg = Some (r', ILog)"
  shows "merge_log r (seg_start seg) (seg_entries seg) = Some r'" and "seg_start seg \<le> commit_number r"
  using assms by (auto simp: install_segment_from_commit_def seg_start_def bind_eq_Some_conv split: log_base.splits if_splits)

lemma executed_entry: "executed d r r' \<Longrightarrow> entry r' n = entry r n"
  by (auto simp: entry_def elim!: executedE)

lemma commit_up_to_keeps:
  assumes "commit_up_to sm r k rep = Some r'"
  shows "entry r' n = entry r n" "view_number r' = view_number r" "status r' = status r"
    "commit_number r' = max (commit_number r) k" "do_view_change_from r' = do_view_change_from r"
  using assms by (cases rule: commit_up_to_cases; auto elim!: executedE simp: entry_def)+

lemma try_start_view_log:
  assumes "try_start_view sm r = Some r'" and "status r = ViewChange" and "status r' = Normal"
  shows "\<exists>best \<in> set (do_view_change_from r).
     (\<forall>x \<in> set (do_view_change_from r).
        (dvc_last_normal_view (snd x), seg_end (dvc_segment (snd x)))
          \<le> (dvc_last_normal_view (snd best), seg_end (dvc_segment (snd best)))
        \<and> dvc_commit_number (snd x) \<le> commit_number r')
     \<and> (\<forall>n \<le> commit_number r. entry r' n = entry r n)
     \<and> (\<forall>n > commit_number r. entry r' n = seg_entry (dvc_segment (snd best)) n)
     \<and> view_number r' = view_number r \<and> last_normal_view r' = view_number r"
proof -
  from assms(1) obtain i best ra inst where best: "best_log (do_view_change_from r) = Some (i, best)"
    and ins: "install_segment_from_commit r (dvc_segment best) = Some (ra, inst)"
    and rest: "(if inst \<noteq> ILog
       then Some (send_get_state_to (ra\<lparr>catching_up := Some i\<rparr>) i (commit_number ra))
       else do {
         let k = max_or_0 (map (\<lambda>b. dvc_commit_number (snd b)) (do_view_change_from ra));
         rb \<leftarrow> commit_up_to sm ra k True;
         let rb = enter_normal rb;
         Some (fold (\<lambda>i r. if i \<noteq> self_id r then send_start_view r i else r) [0..<replica_count (config rb)] rb) })
       = Some r'"
    by (auto simp: try_start_view_def bind_eq_Some_conv)
  have "inst = ILog"
  proof (rule ccontr)
    assume no: "inst \<noteq> ILog"
    then have "ra = r" using ins
      by (auto simp: install_segment_from_commit_def bind_eq_Some_conv split: log_base.splits if_splits)
    with no rest assms(2,3) show False by (auto simp: send_get_state_to_def send_def)
  qed
  note ml = install_from_commit_log [OF ins [unfolded this]]
  from ml obtain cs c l where "ra = r\<lparr>log := l, log_changed_from := c, clients := cs\<rparr>"
    by (rule merge_log_from_commit)
  then have ra: "do_view_change_from ra = do_view_change_from r" "view_number ra = view_number r"
    "commit_number ra = commit_number r" by simp_all
  from rest \<open>inst = ILog\<close> obtain rb where
    rb: "commit_up_to sm ra (max_or_0 (map (\<lambda>b. dvc_commit_number (snd b)) (do_view_change_from r))) True = Some rb"
    and r': "mailed (\<lambda>_. True) (enter_normal rb) r'"
    unfolding Let_def ra(1) by (auto simp: bind_eq_Some_conv intro: mailed_start_views)
  note c = commit_up_to_keeps [OF rb]
  have f: "entry r' n = entry rb n" "view_number r' = view_number rb" "last_normal_view r' = view_number rb"
    "commit_number r' = commit_number rb" for n
    using r' by (auto simp: entry_def enter_normal_def clear_view_change_state_def elim!: mailedE)
  from best have "(i, best) \<in> set (do_view_change_from r)" and "\<forall>x \<in> set (do_view_change_from r).
      (dvc_last_normal_view (snd x), seg_end (dvc_segment (snd x))) \<le> (dvc_last_normal_view best, seg_end (dvc_segment best))"
    using max_by_key_Some [of "\<lambda>b. (dvc_last_normal_view (snd b), seg_end (dvc_segment (snd b)))"]
    by (fastforce simp: best_log_def)+
  moreover have "dvc_commit_number (snd x) \<le> commit_number r'" if "x \<in> set (do_view_change_from r)" for x
    using that max_or_0_ge [of "dvc_commit_number (snd x)" "map (\<lambda>b. dvc_commit_number (snd b)) (do_view_change_from r)"]
    by (simp add: f c le_max_iff_disj)
  moreover have "entry r' n = entry r n" if "n \<le> commit_number r" for n
    using merge_log_entries(1) [OF ml that] by (simp add: f c)
  moreover have "entry r' n = seg_entry (dvc_segment best) n" if "commit_number r < n" for n
    using merge_log_entries(2) [OF ml that] by (simp add: f c)
  ultimately show ?thesis using f(2,3) c(2) ra(2) by (intro bexI [of _ "(i, best)"]) auto
qed


definition empty_report :: "acc_op do_view_change" where
  "empty_report = \<lparr>dvc_last_normal_view = 0, dvc_segment = \<lparr>seg_base = BaseOp 0, seg_entries = []\<rparr>, dvc_commit_number = 0\<rparr>"

definition longer_report :: "acc_op do_view_change" where
  "longer_report = empty_report\<lparr>dvc_segment := \<lparr>seg_base = BaseOp 0, seg_entries = [ERegister 7]\<rparr>\<rparr>"

definition changing :: "(accumulator, acc_op, unit, i64, acc_chunk) replica" where
  "changing = (the (replica_new 1 three acc_default))\<lparr>status := ViewChange, view_number := 1,
     do_view_change_from := [(1, empty_report)]\<rparr>"


section \<open>Recovery\<close>

lemma start_fetch_status: "status (start_fetch r i res) = status r"
  by (simp add: start_fetch_def begin_fetch_def send_get_chunk_def send_def split: option.split)

lemma recover_into_log:
  assumes "recover_into sm r v st = Some r'" and "status r = Recovering" and "status r' \<noteq> Recovering"
  shows "status r' = Normal" "view_number r' = v" "rs_commit_number st \<le> commit_number r'"
    "\<And>n. n \<le> commit_number r \<Longrightarrow> entry r' n = entry r n"
    "\<And>n. commit_number r < n \<Longrightarrow> entry r' n = seg_entry (rs_segment st) n"
proof -
  from assms(1) obtain ra inst where ins: "install_segment_from_commit r (rs_segment st) = Some (ra, inst)"
    and rest: "(case inst of
       ILog \<Rightarrow> do { rb \<leftarrow> commit_up_to sm (ra\<lparr>view_number := v\<rparr>) (rs_commit_number st) False; Some (enter_normal rb) }
     | ICheckpoint seg \<Rightarrow> Some (start_fetch ra (cfg_primary_id (config ra) v)
                 (RRecoveryResponse v \<lparr>rs_segment = seg, rs_commit_number = rs_commit_number st\<rparr>))
     | INothing \<Rightarrow> None) = Some r'"
    by (auto simp: recover_into_def bind_eq_Some_conv)
  have "inst = ILog"
  proof (cases inst)
    case (ICheckpoint seg)
    then have "ra = r" using ins
      by (auto simp: install_segment_from_commit_def bind_eq_Some_conv split: log_base.splits if_splits)
    with ICheckpoint rest assms(2,3) show ?thesis by (auto simp: start_fetch_status)
  qed (use rest in simp_all)
  note ml = install_from_commit_log [OF ins [unfolded this]]
  from rest \<open>inst = ILog\<close> obtain rb where rb: "commit_up_to sm (ra\<lparr>view_number := v\<rparr>) (rs_commit_number st) False = Some rb"
    and r': "r' = enter_normal rb" by (auto simp: bind_eq_Some_conv)
  note c = commit_up_to_keeps [OF rb]
  have e: "entry r' n = entry ra n" for n
    using c(1) [of n] by (simp add: r' entry_def enter_normal_def clear_view_change_state_def)
  show "status r' = Normal" "view_number r' = v" "rs_commit_number st \<le> commit_number r'"
    using c by (simp_all add: r' enter_normal_def clear_view_change_state_def)
  show "n \<le> commit_number r \<Longrightarrow> entry r' n = entry r n" "commit_number r < n \<Longrightarrow> entry r' n = seg_entry (rs_segment st) n" for n
    using merge_log_entries [OF ml, of n] by (simp_all add: e)
qed


definition recovering :: "(accumulator, acc_op, unit, i64, acc_chunk) replica" where
  "recovering = (the (recover 2 three acc_default 1 5))\<lparr>recovery_responses :=
     [(0, \<lparr>rr_view_number = 1, rr_state = None\<rparr>)]\<rparr>"

definition answer_state :: "acc_op recovery_state" where
  "answer_state = \<lparr>rs_segment = \<lparr>seg_base = BaseOp 0, seg_entries = [ERegister 7]\<rparr>, rs_commit_number = 0\<rparr>"


section \<open>Timers\<close>

text \<open>Idle periods one after the other, with no message between them.\<close>

fun idle_times ::
  "('s, 'op, 'q, 'out, 'chunk) state_machine \<Rightarrow> nat \<Rightarrow> ('s, 'op, 'q, 'out, 'chunk) replica
   \<Rightarrow> ('s, 'op, 'q, 'out, 'chunk) replica option" where
  "idle_times sm 0 r = Some r"
| "idle_times sm (Suc k) r = do { r \<leftarrow> on_idle sm r; idle_times sm k r }"

lemma fold_send_late:
  assumes "\<not> is_early m"
  shows "fold (\<lambda>i r. if i \<noteq> self_id r then send r i m else r) xs r =
     r\<lparr>outbox := outbox r @ map (\<lambda>i. (i, m)) (filter (\<lambda>i. i \<noteq> self_id r) xs)\<rparr>"
  using assms by (induction xs arbitrary: r) (simp_all add: send_def)

lemma start_view_change_sends:
  assumes "2 \<le> replica_count (config r)"
  shows "\<exists>r'. start_view_change sm r v = Some r' \<and> status r' = ViewChange \<and> view_number r' = v
     \<and> outbox r' = outbox r @ map (\<lambda>i. (i, StartViewChange v (self_id r)))
         (filter (\<lambda>i. i \<noteq> self_id r) [0..<replica_count (config r)])"
proof -
  have "0 < replica_count (config r) div 2" using assms by simp
  then show ?thesis
    by (simp add: start_view_change_def Let_def send_to_others_def fold_send_late clear_view_change_state_def
        maybe_send_do_view_change_def)
qed

lemma silent_idle:
  assumes "status r = Normal" and "\<not> is_primary r" and "serving r = None" and "\<not> heard_from_primary r"
    and "ra = r\<lparr>idle_periods_stable := 0, idle_periods_waiting := idle_periods_waiting r + 1\<rparr>"
  shows "on_idle sm r = (if wait_limit r \<le> idle_periods_waiting r + 1
     then start_view_change sm ra (view_number r + 1) else Some ra)"
  using assms by (simp add: on_idle_def serve_on_idle_def backup_on_idle_def wait_timed_out_def wait_limit_def Let_def)


definition waiting_backup :: "(accumulator, acc_op, unit, i64, acc_chunk) replica" where
  "waiting_backup = (the (replica_new 1 three acc_default))\<lparr>heard_from_primary := False\<rparr>"




section \<open>Configuration\<close>

lemma mod_reaches:
  fixes n :: nat
  assumes "i < n"
  shows "\<exists>k < n. (v + k) mod n = i"
proof -
  let ?k = "(i + n - v mod n) mod n"
  have "(v + ?k) mod n = (v mod n + (i + n - v mod n)) mod n" by (simp add: mod_simps)
  also have "v mod n + (i + n - v mod n) = i + n" using assms mod_less_divisor [of n v] by linarith
  finally show ?thesis using assms by (intro exI [of _ ?k]) simp
qed

text \<open>
  C36: the primary rotates: in any run of as many views as there are replicas, every replica is
  the primary of one of them.
\<close>

theorem primary_rotates:
  assumes "i < replica_count c"
  shows "\<exists>k < replica_count c. cfg_primary_id c (v + k) = i"
  using mod_reaches [OF assms] by (simp add: cfg_primary_id_def)

theorem primary_rotates_witness: "\<exists>k < replica_count three. cfg_primary_id three (5 + k) = 1"
  by (rule primary_rotates) code_simp



end
