(* ===== verification/VSR_Client.thy ===== *)
theory VSR_Client
  imports VSR_Types
begin

text \<open>
  \<open>Client\<close> of \<open>src/lib.rs\<close>: the session, the requests and queries in flight, the queue of
  operations waiting to go, and the outbox.  \<open>VSR_ClientContract\<close> has what it promises.
\<close>

section \<open>Data\<close>

record 'a in_flight =
  if_number :: nat
  if_item :: "'a option"
  if_sent :: nat

datatype ('op, 'q) queued = QRequest RequestNumber 'op | QQuery QueryNumber 'q

datatype ('op, 'q) outgoing =
    ORegister
  | ORequest OpNumber RequestNumber RequestNumber 'op
    \<comment> \<open>session, request number, answered, op\<close>
  | OQuery QueryNumber 'q

datatype 'out completion =
    CExecuted RequestNumber 'out
  | CQueried QueryNumber 'out
  | CEvicted

record ('op, 'q) client =
  cl_config :: config
  cl_client_id :: ClientID
  cl_view_number :: ViewNumber
  cl_session :: "OpNumber option"
  cl_registering :: "nat option"
  cl_evicted :: OpNumber
  cl_next_request_number :: RequestNumber
  cl_next_query_number :: QueryNumber
  cl_requests :: "'op in_flight list"
  cl_queries :: "'q in_flight list"
  cl_idle_periods :: nat
  cl_queued :: "('op, 'q) queued list"
  cl_outbox :: "(ReplicaID \<times> ('op, 'q) outgoing) list"

section \<open>Operations\<close>

definition client_new :: "ClientID \<Rightarrow> config \<Rightarrow> ('op, 'q) client option" where
  "client_new i cfg = do {
     ensure (3 \<le> replica_count cfg);
     Some \<lparr>cl_config = cfg, cl_client_id = i, cl_view_number = 0, cl_session = None,
       cl_registering = None, cl_evicted = 0, cl_next_request_number = 1,
       cl_next_query_number = 1, cl_requests = [], cl_queries = [], cl_idle_periods = 0,
       cl_queued = [], cl_outbox = []\<rparr> }"

definition cl_primary :: "('op, 'q) client \<Rightarrow> ReplicaID" where
  "cl_primary c = cfg_primary_id (cl_config c) (cl_view_number c)"

definition oldest_number :: "'a in_flight list \<Rightarrow> nat \<Rightarrow> nat" where
  "oldest_number fl n = (case fl of [] \<Rightarrow> n | sent # _ \<Rightarrow> if_number sent)"

definition cl_register :: "('op, 'q) client \<Rightarrow> ('op, 'q) client" where
  "cl_register c =
     (if cl_session c = None \<and> cl_registering c = None
      then c\<lparr>cl_registering := Some (cl_idle_periods c),
             cl_outbox := cl_outbox c @ [(cl_primary c, ORegister)]\<rparr>
      else c)"

definition request_may_go :: "('op, 'q) client \<Rightarrow> RequestNumber \<Rightarrow> bool" where
  "request_may_go c n \<longleftrightarrow> cl_queries c = []
     \<and> n < oldest_number (cl_requests c) n + cfg_in_flight_max (cl_config c)"

definition query_may_go :: "('op, 'q) client \<Rightarrow> QueryNumber \<Rightarrow> bool" where
  "query_may_go c n \<longleftrightarrow> cl_requests c = []
     \<and> n < oldest_number (cl_queries c) n + cfg_in_flight_max (cl_config c)"

definition send_request ::
  "('op, 'q) client \<Rightarrow> OpNumber \<Rightarrow> RequestNumber \<Rightarrow> 'op \<Rightarrow> ('op, 'q) client option" where
  "send_request c session n op = do {
     answered \<leftarrow> checked_sub (oldest_number (cl_requests c) n) 1;
     Some (c\<lparr>cl_requests := cl_requests c @
               [\<lparr>if_number = n, if_item = Some op, if_sent = cl_idle_periods c\<rparr>],
             cl_outbox := cl_outbox c @ [(cl_primary c, ORequest session n answered op)]\<rparr>) }"

definition send_query :: "('op, 'q) client \<Rightarrow> QueryNumber \<Rightarrow> 'q \<Rightarrow> ('op, 'q) client" where
  "send_query c n q =
     c\<lparr>cl_queries := cl_queries c @
         [\<lparr>if_number = n, if_item = Some q, if_sent = cl_idle_periods c\<rparr>],
       cl_outbox := cl_outbox c @ [(cl_primary c, OQuery n q)]\<rparr>"

definition cl_on_request :: "('op, 'q) client \<Rightarrow> 'op \<Rightarrow> (('op, 'q) client \<times> RequestNumber) option" where
  "cl_on_request c op = do {
     let n = cl_next_request_number c;
     let c = c\<lparr>cl_next_request_number := n + 1\<rparr>;
     c \<leftarrow> (case cl_session c of
         Some session \<Rightarrow>
           if cl_queued c = [] \<and> request_may_go c n then send_request c session n op
           else Some (cl_register (c\<lparr>cl_queued := cl_queued c @ [QRequest n op]\<rparr>))
       | None \<Rightarrow> Some (cl_register (c\<lparr>cl_queued := cl_queued c @ [QRequest n op]\<rparr>)));
     Some (c, n) }"

definition cl_on_query :: "('op, 'q) client \<Rightarrow> 'q \<Rightarrow> ('op, 'q) client \<times> QueryNumber" where
  "cl_on_query c q =
     (let n = cl_next_query_number c;
          c = c\<lparr>cl_next_query_number := n + 1\<rparr>
      in (if cl_queued c = [] \<and> query_may_go c n then send_query c n q
          else c\<lparr>cl_queued := cl_queued c @ [QQuery n q]\<rparr>, n))"

lemma send_request_queued: "send_request c s n op = Some c' \<Longrightarrow> cl_queued c' = cl_queued c"
  by (auto simp: send_request_def split: if_splits)

lemma send_query_queued: "cl_queued (send_query c n q) = cl_queued c"
  by (simp add: send_query_def)

text \<open>The loop pops the queue's front while it may go.\<close>

function send_queued :: "('op, 'q) client \<Rightarrow> ('op, 'q) client option" where
  "send_queued c =
     (case cl_queued c of
        [] \<Rightarrow> Some c
      | QRequest n op # rest \<Rightarrow>
          (case cl_session c of
             None \<Rightarrow> Some c
           | Some session \<Rightarrow>
               if \<not> request_may_go c n then Some c
               else do {
                 c' \<leftarrow> send_request (c\<lparr>cl_queued := rest\<rparr>) session n op;
                 send_queued c' })
      | QQuery n q # rest \<Rightarrow>
          if \<not> query_may_go c n then Some c
          else send_queued (send_query (c\<lparr>cl_queued := rest\<rparr>) n q))"
  by pat_completeness auto
termination
  by (relation "measure (\<lambda>c. length (cl_queued c))")
    (auto simp: send_query_queued dest: send_request_queued)

declare send_queued.simps [simp del]

text \<open>
  Takes the item numbered \<open>n\<close>, drops what is answered from the front, and says whether the
  item was in flight without a reply.
\<close>

definition answer :: "'a in_flight list \<Rightarrow> nat \<Rightarrow> 'a in_flight list \<times> bool" where
  "answer fl n =
     (case fl of
        [] \<Rightarrow> (fl, False)
      | oldest # _ \<Rightarrow>
          let i = n - if_number oldest;
              hit = (if_number oldest \<le> n \<and> i < length fl);
              answered = (hit \<and> if_item (fl ! i) \<noteq> None);
              fl' = (if hit then fl[i := (fl ! i)\<lparr>if_item := None\<rparr>] else fl)
          in (dropWhile (\<lambda>sent. if_item sent = None) fl', answered))"

fun is_oregister :: "('op, 'q) outgoing \<Rightarrow> bool" where
  "is_oregister ORegister = True"
| "is_oregister _ = False"

definition cl_lose_session :: "('op, 'q) client \<Rightarrow> OpNumber \<Rightarrow> ('op, 'q) client" where
  "cl_lose_session c session =
     c\<lparr>cl_evicted := session, cl_session := None, cl_next_request_number := 1,
       cl_requests := [], cl_queries := [], cl_queued := [],
       cl_outbox := filter (\<lambda>(_, out). is_oregister out) (cl_outbox c)\<rparr>"

definition cl_on_reply ::
  "('op, 'q) client \<Rightarrow> 'out reply \<Rightarrow> (('op, 'q) client \<times> 'out completion option) option" where
  "cl_on_reply c reply =
     (if reply_client_id reply \<noteq> cl_client_id c then Some (c, None)
      else let c = c\<lparr>cl_view_number := max (cl_view_number c) (reply_view_number reply)\<rparr> in
        case reply of
          Registered _ _ session \<Rightarrow>
            if cl_registering c \<noteq> None \<and> cl_evicted c < session then do {
              c \<leftarrow> send_queued (c\<lparr>cl_registering := None, cl_session := Some session\<rparr>);
              Some (c, None) }
            else Some (c, None)
        | Executed _ _ session n result \<Rightarrow>
            if cl_session c \<noteq> Some session then Some (c, None)
            else (case answer (cl_requests c) n of (fl, found) \<Rightarrow>
              let c = c\<lparr>cl_requests := fl\<rparr> in
              if \<not> found then Some (c, None)
              else do { c \<leftarrow> send_queued c; Some (c, Some (CExecuted n result)) })
        | Queried _ _ n result \<Rightarrow>
            (case answer (cl_queries c) n of (fl, found) \<Rightarrow>
              let c = c\<lparr>cl_queries := fl\<rparr> in
              if \<not> found then Some (c, None)
              else do { c \<leftarrow> send_queued c; Some (c, Some (CQueried n result)) })
        | Evicted _ _ session \<Rightarrow>
            if cl_session c \<noteq> Some session then Some (c, None)
            else Some (cl_lose_session c session, Some CEvicted))"

definition resend_due :: "nat \<Rightarrow> nat \<Rightarrow> bool" where
  "resend_due now sent \<longleftrightarrow> sent + 1 < now"

definition mark_resent :: "nat \<Rightarrow> 'a in_flight list \<Rightarrow> 'a in_flight list" where
  "mark_resent now fl =
     map (\<lambda>sent. if resend_due now (if_sent sent) \<and> if_item sent \<noteq> None
                 then sent\<lparr>if_sent := now\<rparr> else sent) fl"

fun due_items :: "nat \<Rightarrow> 'a in_flight list \<Rightarrow> (nat \<times> 'a) list" where
  "due_items now [] = []"
| "due_items now (sent # fl) =
     (case if_item sent of
        Some x \<Rightarrow> (if resend_due now (if_sent sent) then [(if_number sent, x)] else [])
      | None \<Rightarrow> []) @ due_items now fl"

definition cl_on_idle :: "('op, 'q) client \<Rightarrow> ('op, 'q) client option" where
  "cl_on_idle c = do {
     let now = cl_idle_periods c + 1;
     let c = c\<lparr>cl_idle_periods := now\<rparr>;
     let reg = (case cl_registering c of Some sent \<Rightarrow> resend_due now sent | None \<Rightarrow> False);
     let resend = (if reg then [ORegister] else []);
     let c = (if reg then c\<lparr>cl_registering := Some now\<rparr> else c);
     (c, resend) \<leftarrow> (case (cl_session c, cl_requests c) of
         (Some session, oldest # _) \<Rightarrow> do {
           answered \<leftarrow> checked_sub (if_number oldest) 1;
           Some (c\<lparr>cl_requests := mark_resent now (cl_requests c)\<rparr>,
             resend @ map (\<lambda>(n, op). ORequest session n answered op)
                        (due_items now (cl_requests c))) }
       | _ \<Rightarrow> Some (c, resend));
     let resend = resend @ map (\<lambda>(n, q). OQuery n q) (due_items now (cl_queries c));
     let c = c\<lparr>cl_queries := mark_resent now (cl_queries c)\<rparr>;
     Some (c\<lparr>cl_outbox := cl_outbox c @
       concat (map (\<lambda>out. map (\<lambda>i. (i, out)) [0..<replica_count (cl_config c)]) resend)\<rparr>) }"

fun outgoing_message :: "ClientID \<Rightarrow> ('op, 'q) outgoing \<Rightarrow> ('op, 'q, 'chunk) message" where
  "outgoing_message i ORegister = Register i"
| "outgoing_message i (ORequest session n answered op) = Request i session n answered op"
| "outgoing_message i (OQuery n q) = Query i n q"

definition cl_drain ::
  "('op, 'q) client \<Rightarrow> ('op, 'q) client \<times> (ReplicaID \<times> ('op, 'q, 'chunk) message) list" where
  "cl_drain c = (c\<lparr>cl_outbox := []\<rparr>,
     map (\<lambda>(i, out). (i, outgoing_message (cl_client_id c) out)) (cl_outbox c))"

end
