(* ===== verification/VSR_ClientContract.thy ===== *)
theory VSR_ClientContract
  imports VSR_Client
begin

text \<open>
  The contract of a client, as its owner sees it.  The invariant \<open>client_inv\<close> of
  \<open>Client\<close> of \<open>src/lib.rs\<close>: request numbers and query numbers follow each other through
  the flight and the queue, never are a request and a query in flight together, no more than
  \<open>in_flight_max\<close> operations are, and nothing waits that may go.  Every call keeps it and
  returns, and within a session a request completes at most once.
\<close>

section \<open>The client's contract\<close>

fun queued_requests :: "('op, 'q) queued list \<Rightarrow> RequestNumber list" where
  "queued_requests [] = []"
| "queued_requests (QRequest n op # qs) = n # queued_requests qs"
| "queued_requests (QQuery n q # qs) = queued_requests qs"

fun queued_queries :: "('op, 'q) queued list \<Rightarrow> QueryNumber list" where
  "queued_queries [] = []"
| "queued_queries (QRequest n op # qs) = queued_queries qs"
| "queued_queries (QQuery n q # qs) = n # queued_queries qs"

text \<open>The numbers follow each other up to the next one to give out.\<close>

definition numbered :: "nat list \<Rightarrow> nat \<Rightarrow> bool" where
  "numbered ns next \<longleftrightarrow> (\<exists>a \<ge> 1. a \<le> next \<and> ns = [a..<next])"

text \<open>What is at the front of the flight has no reply yet, and no more is in flight than may be.\<close>

definition flight_ok :: "nat \<Rightarrow> 'a in_flight list \<Rightarrow> bool" where
  "flight_ok most fl \<longleftrightarrow> length fl \<le> most \<and> (fl \<noteq> [] \<longrightarrow> if_item (hd fl) \<noteq> None)"

text \<open>Nothing waits in the queue that may go.\<close>

definition queue_blocked :: "('op, 'q) client \<Rightarrow> bool" where
  "queue_blocked c \<longleftrightarrow> (case cl_queued c of
     [] \<Rightarrow> True
   | QRequest n op # _ \<Rightarrow> cl_session c = None \<or> \<not> request_may_go c n
   | QQuery n q # _ \<Rightarrow> \<not> query_may_go c n)"

definition client_core :: "('op, 'q) client \<Rightarrow> bool" where
  "client_core c \<longleftrightarrow> 3 \<le> replica_count (cl_config c) \<and> 1 \<le> cfg_in_flight_max (cl_config c)
     \<and> numbered (map if_number (cl_requests c) @ queued_requests (cl_queued c)) (cl_next_request_number c)
     \<and> numbered (map if_number (cl_queries c) @ queued_queries (cl_queued c)) (cl_next_query_number c)
     \<and> flight_ok (cfg_in_flight_max (cl_config c)) (cl_requests c)
     \<and> flight_ok (cfg_in_flight_max (cl_config c)) (cl_queries c)
     \<and> (cl_requests c = [] \<or> cl_queries c = [])
     \<and> (cl_session c = None \<longrightarrow> cl_requests c = [])
     \<and> (cl_registering c \<noteq> None \<longrightarrow> cl_session c = None)"

definition client_inv :: "('op, 'q) client \<Rightarrow> bool" where
  "client_inv c \<longleftrightarrow> client_core c \<and> queue_blocked c"

subsection \<open>Sending\<close>

lemma queued_requests_append [simp]: "queued_requests (xs @ ys) = queued_requests xs @ queued_requests ys"
  by (induction xs rule: queued_requests.induct) auto

lemma queued_queries_append [simp]: "queued_queries (xs @ ys) = queued_queries xs @ queued_queries ys"
  by (induction xs rule: queued_queries.induct) auto

lemma numbered_nth: "numbered ns next \<Longrightarrow> i < length ns \<Longrightarrow> ns ! i = hd ns + i \<and> 1 \<le> hd ns"
proof -
  assume "numbered ns next" and i: "i < length ns"
  then obtain a where "1 \<le> a" "ns = [a..<next]" by (auto simp: numbered_def)
  with i show ?thesis by (simp add: hd_upt)
qed

lemma numbered_snoc: "numbered ns next \<Longrightarrow> numbered (ns @ [next]) (Suc next)"
  by (auto simp: numbered_def intro: exI)

lemma numbered_drop: "numbered (xs @ ys) next \<Longrightarrow> numbered ys next"
proof -
  assume "numbered (xs @ ys) next"
  then obtain a where a: "1 \<le> a" "a \<le> next" "xs @ ys = [a..<next]" by (auto simp: numbered_def)
  then have "ys = drop (length xs) [a..<next]" by (metis append_eq_conv_conj)
  then have "ys = [min (a + length xs) next..<next]" by (simp add: drop_upt min_def)
  with a(1,2) show ?thesis unfolding numbered_def by (intro exI [of _ "min (a + length xs) next"]) auto
qed

lemma numbered_at: "numbered (ns @ n # ms) next \<Longrightarrow> 1 \<le> n \<and> (ns \<noteq> [] \<longrightarrow> n = hd ns + length ns)"
  using numbered_nth [of "ns @ n # ms" "next" "length ns"] by (cases ns) auto

lemma oldest_number_hd: "oldest_number fl n = (if fl = [] then n else if_number (hd fl))"
  by (simp add: oldest_number_def split: list.split)

text \<open>What goes into flight after what is there, when it may go.\<close>

lemma flight_ok_snoc:
  assumes "flight_ok most fl" and "numbered (map if_number fl @ n # ms) next" and "n < oldest_number fl n + most"
  shows "flight_ok most (fl @ [\<lparr>if_number = n, if_item = Some x, if_sent = t\<rparr>])" and "1 \<le> oldest_number fl n"
proof -
  have n: "1 \<le> n" "fl \<noteq> [] \<Longrightarrow> n = if_number (hd fl) + length fl"
    using numbered_at [OF assms(2)] by (auto simp: hd_map)
  then show "1 \<le> oldest_number fl n"
    using numbered_nth [OF assms(2), of 0] by (cases fl) (auto simp: oldest_number_hd)
  show "flight_ok most (fl @ [\<lparr>if_number = n, if_item = Some x, if_sent = t\<rparr>])"
    using assms(1,3) n(2) by (cases "fl = []") (auto simp: flight_ok_def oldest_number_hd)
qed

lemma send_request_core:
  assumes "client_core c" and "cl_queued c = QRequest n op # qs" and "cl_session c = Some session" and "request_may_go c n"
  shows "\<exists>c'. send_request (c\<lparr>cl_queued := qs\<rparr>) session n op = Some c' \<and> client_core c'"
proof -
  have f: "flight_ok (cfg_in_flight_max (cl_config c)) (cl_requests c)"
    and n: "numbered (map if_number (cl_requests c) @ n # queued_requests qs) (cl_next_request_number c)"
    and m: "n < oldest_number (cl_requests c) n + cfg_in_flight_max (cl_config c)" "cl_queries c = []"
    using assms by (auto simp: client_core_def request_may_go_def)
  from flight_ok_snoc(1) [OF f n m(1), of op "cl_idle_periods c"] flight_ok_snoc(2) [OF f n m(1)] show ?thesis
    using assms m(2) by (auto simp: send_request_def client_core_def checked_sub_def)
qed

lemma send_query_core:
  assumes "client_core c" and "cl_queued c = QQuery n q # qs" and "query_may_go c n"
  shows "client_core (send_query (c\<lparr>cl_queued := qs\<rparr>) n q)"
proof -
  have f: "flight_ok (cfg_in_flight_max (cl_config c)) (cl_queries c)"
    and n: "numbered (map if_number (cl_queries c) @ n # queued_queries qs) (cl_next_query_number c)"
    and m: "n < oldest_number (cl_queries c) n + cfg_in_flight_max (cl_config c)" "cl_requests c = []"
    using assms by (auto simp: client_core_def query_may_go_def)
  from flight_ok_snoc(1) [OF f n m(1), of q "cl_idle_periods c"] show ?thesis
    using assms m(2) by (auto simp: send_query_def client_core_def)
qed

lemma send_queued_inv: "client_core c \<Longrightarrow> \<exists>c'. send_queued c = Some c' \<and> client_inv c'"
proof (induction c rule: send_queued.induct)
  case (1 c)
  show ?case
  proof (cases "cl_queued c")
    case Nil
    then show ?thesis using "1.prems" by (simp add: send_queued.simps client_inv_def queue_blocked_def)
  next
    case (Cons x rest)
    show ?thesis
    proof (cases x)
      case (QRequest n op)
      show ?thesis
      proof (cases "\<exists>session. cl_session c = Some session \<and> request_may_go c n")
        case True
        then obtain session where s: "cl_session c = Some session" "request_may_go c n" by blast
        from send_request_core [OF "1.prems" Cons [unfolded QRequest] s] obtain c'
          where c': "send_request (c\<lparr>cl_queued := rest\<rparr>) session n op = Some c'" "client_core c'" by blast
        from "1.IH"(1) [OF Cons QRequest s(1) _ c'(1) c'(2)] s c' Cons QRequest show ?thesis
          by (simp add: send_queued.simps [of c])
      next
        case False
        then show ?thesis
          using "1.prems" Cons QRequest
          by (auto simp: send_queued.simps [of c] client_inv_def queue_blocked_def split: option.split)
      qed
    next
      case (QQuery n q)
      show ?thesis
      proof (cases "query_may_go c n")
        case True
        from "1.IH"(2) [OF Cons QQuery _ send_query_core [OF "1.prems" Cons [unfolded QQuery] True]] True Cons QQuery
        show ?thesis by (simp add: send_queued.simps [of c])
      next
        case False
        then show ?thesis
          using "1.prems" Cons QQuery by (simp add: send_queued.simps [of c] client_inv_def queue_blocked_def)
      qed
    qed
  qed
qed

subsection \<open>Every call keeps the contract\<close>

lemma cl_register_inv: "client_inv c \<Longrightarrow> client_inv (cl_register c)"
  by (auto simp: cl_register_def client_inv_def client_core_def queue_blocked_def request_may_go_def
      query_may_go_def split: list.splits queued.splits)

lemma cl_on_request_inv:
  assumes inv: "client_inv c"
  shows "\<exists>c'. cl_on_request c op = Some (c', cl_next_request_number c) \<and> client_inv c'"
proof -
  let ?n = "cl_next_request_number c"
  let ?c = "c\<lparr>cl_next_request_number := ?n + 1, cl_queued := cl_queued c @ [QRequest ?n op]\<rparr>"
  have core: "client_core ?c"
    using inv numbered_snoc [of _ ?n] by (simp add: client_inv_def client_core_def flip: append_assoc)
  show ?thesis
  proof (cases "\<exists>session. cl_session c = Some session \<and> cl_queued c = [] \<and> request_may_go (c\<lparr>cl_next_request_number := ?n + 1\<rparr>) ?n")
    case True
    then obtain session where s: "cl_session ?c = Some session" "cl_queued c = []"
      "request_may_go (c\<lparr>cl_next_request_number := ?n + 1\<rparr>) ?n" by auto
    have "cl_queued ?c = QRequest ?n op # []" "request_may_go ?c ?n" using s by (simp_all add: request_may_go_def)
    moreover have "?c\<lparr>cl_queued := []\<rparr> = c\<lparr>cl_next_request_number := ?n + 1\<rparr>" using s(2) by (cases c) simp
    ultimately obtain c' where c': "send_request (c\<lparr>cl_next_request_number := ?n + 1\<rparr>) session ?n op = Some c'"
      "client_core c'"
      using send_request_core [OF core _ s(1)] by metis
    then have "cl_queued c' = []" using s(2) send_request_queued [OF c'(1)] by simp
    with c' s show ?thesis by (auto simp: cl_on_request_def client_inv_def queue_blocked_def)
  next
    case False
    then have "queue_blocked ?c"
      using inv by (cases "cl_queued c"; cases "hd (cl_queued c)")
        (auto simp: client_inv_def queue_blocked_def request_may_go_def query_may_go_def)
    with core have "client_inv (cl_register ?c)" by (intro cl_register_inv) (simp add: client_inv_def)
    with False show ?thesis by (auto simp: cl_on_request_def Let_def split: option.split)
  qed
qed

lemma cl_on_query_inv:
  assumes inv: "client_inv c"
  shows "client_inv (fst (cl_on_query c q))"
proof -
  let ?n = "cl_next_query_number c"
  let ?c = "c\<lparr>cl_next_query_number := ?n + 1, cl_queued := cl_queued c @ [QQuery ?n q]\<rparr>"
  have core: "client_core ?c"
    using inv numbered_snoc [of _ ?n] by (simp add: client_inv_def client_core_def flip: append_assoc)
  show ?thesis
  proof (cases "cl_queued c = [] \<and> query_may_go (c\<lparr>cl_next_query_number := ?n + 1\<rparr>) ?n")
    case True
    then have "cl_queued ?c = QQuery ?n q # []" "query_may_go ?c ?n" by (simp_all add: query_may_go_def)
    moreover have "?c\<lparr>cl_queued := []\<rparr> = c\<lparr>cl_next_query_number := ?n + 1\<rparr>" using True by (cases c) simp
    ultimately have "client_core (send_query (c\<lparr>cl_next_query_number := ?n + 1\<rparr>) ?n q)"
      using send_query_core [OF core] by metis
    with True show ?thesis
      by (simp add: cl_on_query_def Let_def client_inv_def queue_blocked_def send_query_queued)
  next
    case False
    then have "queue_blocked ?c"
      using inv by (cases "cl_queued c"; cases "hd (cl_queued c)")
        (auto simp: client_inv_def queue_blocked_def request_may_go_def query_may_go_def)
    with core False show ?thesis by (auto simp: cl_on_query_def Let_def client_inv_def)
  qed
qed

subsection \<open>Replies\<close>

definition take_item :: "'a in_flight list \<Rightarrow> nat \<Rightarrow> 'a in_flight list" where
  "take_item fl n = (let i = n - if_number (hd fl)
     in if fl \<noteq> [] \<and> if_number (hd fl) \<le> n \<and> i < length fl then fl[i := (fl ! i)\<lparr>if_item := None\<rparr>] else fl)"

lemma answer_fst: "fst (answer fl n) = dropWhile (\<lambda>sent. if_item sent = None) (take_item fl n)"
  by (cases fl) (simp_all add: answer_def take_item_def Let_def)

lemma take_item_numbers: "map if_number (take_item fl n) = map if_number fl"
  by (auto simp: take_item_def Let_def map_update list_update_same_conv)

lemma answer_suffix:
  assumes "answer fl n = (fl', found)"
  shows "\<exists>k. map if_number fl' = drop k (map if_number fl)" and "flight_ok most fl \<Longrightarrow> flight_ok most fl'"
proof -
  define ys where "ys = take_item fl n"
  have fl': "fl' = dropWhile (\<lambda>sent. if_item sent = None) ys" and ys: "map if_number ys = map if_number fl"
    using answer_fst [of fl n] assms by (simp_all add: ys_def take_item_numbers)
  have k: "fl' = drop (length (takeWhile (\<lambda>sent. if_item sent = None) ys)) ys"
    by (simp add: fl' dropWhile_eq_drop)
  then have "map if_number fl' = drop (length (takeWhile (\<lambda>sent. if_item sent = None) ys)) (map if_number fl)"
    by (metis drop_map ys)
  then show "\<exists>k. map if_number fl' = drop k (map if_number fl)" by blast
  have "length fl' \<le> length fl" using k map_eq_imp_length_eq [OF ys] by simp
  moreover have "if_item (hd fl') \<noteq> None" if "fl' \<noteq> []"
    using that hd_dropWhile [of "\<lambda>sent. if_item sent = None" ys] by (simp add: fl')
  ultimately show "flight_ok most fl \<Longrightarrow> flight_ok most fl'" by (simp add: flight_ok_def)
qed

lemma answer_not_found:
  assumes "answer fl n = (fl', False)" and "flight_ok most fl"
  shows "fl' = fl"
proof (cases "fl = []")
  case False
  let ?i = "n - if_number (hd fl)"
  have "take_item fl n = fl"
  proof (cases "if_number (hd fl) \<le> n \<and> ?i < length fl")
    case True
    then have "if_item (fl ! ?i) = None" using assms(1) False by (cases fl) (auto simp: answer_def Let_def)
    then have "(fl ! ?i)\<lparr>if_item := None\<rparr> = fl ! ?i" by (cases "fl ! ?i") simp
    then show ?thesis by (simp add: take_item_def Let_def)
  qed (auto simp: take_item_def Let_def)
  then have "fl' = dropWhile (\<lambda>sent. if_item sent = None) fl" using answer_fst [of fl n] assms(1) by simp
  then show ?thesis using assms(2) False by (cases fl) (auto simp: flight_ok_def)
qed (use assms in \<open>simp add: answer_def\<close>)

lemma answered_core:
  assumes "client_core c" and "answer (cl_requests c) n = (fl, found)"
  shows "client_core (c\<lparr>cl_requests := fl\<rparr>)"
proof -
  obtain k where k: "map if_number fl = drop k (map if_number (cl_requests c))" using answer_suffix(1) [OF assms(2)] by blast
  have "numbered (take k (map if_number (cl_requests c)) @ map if_number fl @ queued_requests (cl_queued c)) (cl_next_request_number c)"
    using assms(1) by (simp add: client_core_def k flip: append_assoc)
  then have "numbered (map if_number fl @ queued_requests (cl_queued c)) (cl_next_request_number c)" by (rule numbered_drop)
  moreover have "fl = []" if "cl_requests c = []" using k that by simp
  ultimately show ?thesis using assms(1) answer_suffix(2) [OF assms(2)] by (auto simp: client_core_def)
qed

lemma answered_queries_core:
  assumes "client_core c" and "answer (cl_queries c) n = (fl, found)"
  shows "client_core (c\<lparr>cl_queries := fl\<rparr>)"
proof -
  obtain k where k: "map if_number fl = drop k (map if_number (cl_queries c))" using answer_suffix(1) [OF assms(2)] by blast
  have "numbered (take k (map if_number (cl_queries c)) @ map if_number fl @ queued_queries (cl_queued c)) (cl_next_query_number c)"
    using assms(1) by (simp add: client_core_def k flip: append_assoc)
  then have "numbered (map if_number fl @ queued_queries (cl_queued c)) (cl_next_query_number c)" by (rule numbered_drop)
  moreover have "fl = []" if "cl_queries c = []" using k that by simp
  ultimately show ?thesis using assms(1) answer_suffix(2) [OF assms(2)] by (auto simp: client_core_def)
qed

lemma client_inv_view: "client_inv c \<Longrightarrow> client_inv (c\<lparr>cl_view_number := v\<rparr>)"
  by (simp add: client_inv_def client_core_def queue_blocked_def request_may_go_def query_may_go_def
      split: list.splits queued.splits)

lemma numbered_Nil: "1 \<le> next \<Longrightarrow> numbered [] next"
  by (auto simp: numbered_def)

lemma numbered_next: "numbered ns next \<Longrightarrow> 1 \<le> next"
  by (auto simp: numbered_def)

lemma lose_session_inv: "client_inv c \<Longrightarrow> client_inv (cl_lose_session c session)"
  by (auto simp: cl_lose_session_def client_inv_def client_core_def queue_blocked_def flight_ok_def
      dest: numbered_next intro: numbered_Nil)

lemma cl_on_reply_inv:
  assumes inv: "client_inv c"
  shows "\<exists>c' done. cl_on_reply c rep = Some (c', done) \<and> client_inv c'"
proof -
  define ca where "ca = c\<lparr>cl_view_number := max (cl_view_number c) (reply_view_number rep)\<rparr>"
  have ia: "client_inv ca" using inv unfolding ca_def by (rule client_inv_view)
  then have core: "client_core ca" and f: "flight_ok (cfg_in_flight_max (cl_config ca)) (cl_requests ca)"
    "flight_ok (cfg_in_flight_max (cl_config ca)) (cl_queries ca)" by (simp_all add: client_inv_def client_core_def)
  show ?thesis
  proof (cases "reply_client_id rep = cl_client_id c")
    case False
    then show ?thesis using inv by (simp add: cl_on_reply_def)
  next
    case me: True
    show ?thesis
    proof (cases rep)
      case (Registered v i session)
      have "client_core (ca\<lparr>cl_registering := None, cl_session := Some session\<rparr>)"
        using core by (simp add: client_core_def)
      from send_queued_inv [OF this] ia me Registered show ?thesis
        by (auto simp: cl_on_reply_def Let_def ca_def)
    next
      case (Executed v i session n result)
      obtain fl found where fl: "answer (cl_requests ca) n = (fl, found)" by (cases "answer (cl_requests ca) n")
      have "client_inv (ca\<lparr>cl_requests := fl\<rparr>)" if "\<not> found"
        using ia answer_not_found [of "cl_requests ca" n fl, OF _ f(1)] fl that by (cases found) auto
      with send_queued_inv [OF answered_core [OF core fl]] fl ia me Executed show ?thesis
        by (auto simp: cl_on_reply_def Let_def ca_def)
    next
      case (Queried v i n result)
      obtain fl found where fl: "answer (cl_queries ca) n = (fl, found)" by (cases "answer (cl_queries ca) n")
      have "client_inv (ca\<lparr>cl_queries := fl\<rparr>)" if "\<not> found"
        using ia answer_not_found [of "cl_queries ca" n fl, OF _ f(2)] fl that by (cases found) auto
      with send_queued_inv [OF answered_queries_core [OF core fl]] fl ia me Queried show ?thesis
        by (auto simp: cl_on_reply_def Let_def ca_def)
    next
      case (Evicted v i session)
      then show ?thesis using ia lose_session_inv [OF ia] me by (auto simp: cl_on_reply_def Let_def ca_def)
    qed
  qed
qed

subsection \<open>Idle periods\<close>

lemma mark_resent_flight:
  "map if_number (mark_resent now fl) = map if_number fl" "flight_ok most (mark_resent now fl) = flight_ok most fl"
  "mark_resent now fl = [] \<longleftrightarrow> fl = []" "[] = mark_resent now fl \<longleftrightarrow> fl = []" "oldest_number (mark_resent now fl) n = oldest_number fl n"
  by (auto simp: mark_resent_def flight_ok_def hd_map oldest_number_hd)

lemma cl_on_idle_inv:
  assumes inv: "client_inv c"
  shows "\<exists>c'. cl_on_idle c = Some c' \<and> client_inv c'"
proof -
  have one: "1 \<le> if_number (hd (cl_requests c))" if "cl_requests c \<noteq> []"
    using inv that numbered_nth [of "map if_number (cl_requests c) @ queued_requests (cl_queued c)" _ 0]
    by (auto simp: client_inv_def client_core_def hd_map)
  have keep: "client_inv c'"
    if "cl_config c' = cl_config c" "cl_session c' = cl_session c" "cl_queued c' = cl_queued c"
      "cl_next_request_number c' = cl_next_request_number c" "cl_next_query_number c' = cl_next_query_number c"
      "cl_requests c' = cl_requests c \<or> cl_requests c' = mark_resent t (cl_requests c)"
      "cl_queries c' = mark_resent t (cl_queries c)" "cl_registering c' = cl_registering c \<or> cl_registering c \<noteq> None"
    for c' :: "('a, 'b) client" and t
    using inv that
    by (auto simp: client_inv_def client_core_def queue_blocked_def request_may_go_def query_may_go_def
        mark_resent_flight split: list.splits queued.splits)
  have pos: "Suc 0 \<le> if_number x" if "cl_requests c = x # xs" for x xs
    using one that by simp
  show ?thesis
    by (auto simp: cl_on_idle_def Let_def dest: pos split: option.splits list.splits intro!: keep)
qed

lemma cl_drain_inv: "client_inv c \<Longrightarrow> client_inv (fst (cl_drain c))"
  by (simp add: cl_drain_def client_inv_def client_core_def queue_blocked_def request_may_go_def query_may_go_def
      split: list.splits queued.splits)

lemma client_new_inv: "client_new i cfg = Some c \<Longrightarrow> config_wf cfg \<Longrightarrow> client_inv c"
  by (auto simp: client_new_def client_inv_def client_core_def queue_blocked_def numbered_def flight_ok_def
      config_wf_def split: if_splits)

section \<open>A client's life\<close>

datatype ('op, 'q, 'out) client_event =
    EvRegister | EvRequest 'op | EvQuery 'q | EvReply "'out reply" | EvIdle | EvDrain

text \<open>One call of the owner, with the completion it returns.\<close>

fun client_step ::
  "('op, 'q) client \<Rightarrow> ('op, 'q, 'out) client_event \<Rightarrow> (('op, 'q) client \<times> 'out completion option) option" where
  "client_step c EvRegister = Some (cl_register c, None)"
| "client_step c (EvRequest op) = do { (c, _) \<leftarrow> cl_on_request c op; Some (c, None) }"
| "client_step c (EvQuery q) = Some (fst (cl_on_query c q), None)"
| "client_step c (EvReply rep) = cl_on_reply c rep"
| "client_step c EvIdle = do { c \<leftarrow> cl_on_idle c; Some (c, None) }"
| "client_step c EvDrain = Some (c\<lparr>cl_outbox := []\<rparr>, None)"

fun client_run ::
  "('op, 'q) client \<Rightarrow> ('op, 'q, 'out) client_event list \<Rightarrow> (('op, 'q) client \<times> 'out completion list) option" where
  "client_run c [] = Some (c, [])"
| "client_run c (ev # evs) = do {
     (c, done_now) \<leftarrow> client_step c ev;
     (c, dones) \<leftarrow> client_run c evs;
     Some (c, (case done_now of Some d \<Rightarrow> [d] | None \<Rightarrow> []) @ dones) }"

lemma client_step_inv:
  assumes "client_inv c"
  shows "\<exists>c' d. client_step c ev = Some (c', d) \<and> client_inv c'"
proof (cases ev)
  case EvRegister
  then show ?thesis using cl_register_inv [OF assms] by simp
next
  case (EvRequest op)
  then show ?thesis using cl_on_request_inv [OF assms, of op] by auto
next
  case (EvQuery q)
  then show ?thesis using cl_on_query_inv [OF assms, of q] by simp
next
  case (EvReply rep)
  then show ?thesis using cl_on_reply_inv [OF assms, of rep] by simp
next
  case EvIdle
  then show ?thesis using cl_on_idle_inv [OF assms] by auto
next
  case EvDrain
  then show ?thesis using cl_drain_inv [OF assms] by (simp add: cl_drain_def)
qed

lemma client_run_inv: "client_inv c \<Longrightarrow> \<exists>c' ds. client_run c evs = Some (c', ds) \<and> client_inv c'"
proof (induction evs arbitrary: c)
  case (Cons ev evs)
  from client_step_inv [OF Cons.prems, of ev] obtain c1 d
    where "client_step c ev = Some (c1, d)" "client_inv c1" by blast
  with Cons.IH [of c1] show ?case by auto
qed simp



section \<open>Completions\<close>

definition unanswered :: "'a in_flight list \<Rightarrow> nat set" where
  "unanswered fl = if_number ` {x \<in> set fl. if_item x \<noteq> None}"

definition open_requests :: "('op, 'q) client \<Rightarrow> RequestNumber set" where
  "open_requests c = unanswered (cl_requests c) \<union> set (queued_requests (cl_queued c))"

fun executed_numbers :: "'out completion list \<Rightarrow> RequestNumber list" where
  "executed_numbers [] = []"
| "executed_numbers (CExecuted n r # ds) = n # executed_numbers ds"
| "executed_numbers (CQueried n r # ds) = executed_numbers ds"
| "executed_numbers (CEvicted # ds) = executed_numbers ds"

lemma unanswered_simps [simp]:
  "unanswered [] = {}" "unanswered (xs @ ys) = unanswered xs \<union> unanswered ys"
  "unanswered (x # xs) = (if if_item x = None then unanswered xs else insert (if_number x) (unanswered xs))"
  by (auto simp: unanswered_def)

lemma unanswered_dropWhile: "unanswered (dropWhile (\<lambda>x. if_item x = None) fl) = unanswered fl"
  by (induction fl) auto

lemma unanswered_sub: "unanswered fl \<subseteq> set (map if_number fl)"
  by (auto simp: unanswered_def)

lemma unanswered_update:
  assumes "distinct (map if_number fl)" and "i < length fl"
  shows "unanswered (fl[i := (fl ! i)\<lparr>if_item := None\<rparr>]) = unanswered fl - {if_number (fl ! i)}"
proof -
  let ?l = "take i fl" and ?r = "drop (Suc i) fl"
  have fl: "fl = ?l @ fl ! i # ?r" using assms(2) by (rule id_take_nth_drop)
  then have "if_number (fl ! i) \<notin> set (map if_number ?l) \<union> set (map if_number ?r)"
    using assms(1) by (metis Un_iff distinct.simps(2) distinct_append list.simps(9) map_append not_distinct_conv_prefix set_append)
  then have n: "if_number (fl ! i) \<notin> unanswered ?l \<union> unanswered ?r" using unanswered_sub by blast
  have "unanswered fl = unanswered ?l \<union> unanswered [fl ! i] \<union> unanswered ?r" by (subst fl) auto
  moreover have "unanswered (fl[i := (fl ! i)\<lparr>if_item := None\<rparr>]) = unanswered ?l \<union> unanswered ?r"
    using assms(2) by (simp add: upd_conv_take_nth_drop)
  ultimately show ?thesis using n by auto
qed

lemma answer_found:
  assumes num: "numbered (map if_number fl @ ns) next" and "answer fl n = (fl', True)"
  shows "n \<in> unanswered fl" and "unanswered fl' = unanswered fl - {n}"
proof -
  let ?i = "n - if_number (hd fl)"
  have hit: "fl \<noteq> []" "if_number (hd fl) \<le> n" "?i < length fl" "if_item (fl ! ?i) \<noteq> None"
    using assms(2) by (cases fl; auto simp: answer_def Let_def)+
  have "(map if_number fl @ ns) ! ?i = hd (map if_number fl @ ns) + ?i" using numbered_nth [OF num, of ?i] hit by simp
  then have n: "if_number (fl ! ?i) = n" using hit by (simp add: nth_append hd_map hd_append)
  then show "n \<in> unanswered fl" using hit by (force simp: unanswered_def)
  have d: "distinct (map if_number fl)" using num by (auto simp: numbered_def dest: arg_cong [where f = distinct])
  have "unanswered fl' = unanswered (take_item fl n)"
    using answer_fst [of fl n] assms(2) unanswered_dropWhile by simp
  also have "\<dots> = unanswered fl - {n}"
    using hit unanswered_update [OF d hit(3)] by (simp add: take_item_def Let_def n)
  finally show "unanswered fl' = unanswered fl - {n}" .
qed

lemma send_queued_open:
  "send_queued c = Some c' \<Longrightarrow> open_requests c' = open_requests c \<and> cl_next_request_number c' = cl_next_request_number c"
proof (induction c arbitrary: c' rule: send_queued.induct)
  case (1 c)
  from "1.prems" show ?case
  proof (cases "cl_queued c")
    case (Cons x rest)
    show ?thesis
    proof (cases x)
      case (QRequest n op)
      show ?thesis
      proof (cases "\<exists>session. cl_session c = Some session \<and> request_may_go c n")
        case True
        then obtain session where s: "cl_session c = Some session" "request_may_go c n" by blast
        with "1.prems" Cons QRequest obtain c1 where c1: "send_request (c\<lparr>cl_queued := rest\<rparr>) session n op = Some c1"
          and rec: "send_queued c1 = Some c'"
          by (auto simp: send_queued.simps [of c] bind_eq_Some_conv)
        have "open_requests c1 = open_requests c" "cl_next_request_number c1 = cl_next_request_number c"
          using c1 Cons QRequest by (auto simp: send_request_def open_requests_def split: if_splits)
        with "1.IH"(1) [OF Cons QRequest s(1) _ c1 rec] s(2) show ?thesis by simp
      next
        case False
        then show ?thesis using "1.prems" Cons QRequest by (auto simp: send_queued.simps [of c] split: option.splits if_splits)
      qed
    next
      case (QQuery n q)
      then show ?thesis
        using "1.prems" "1.IH"(2) [OF Cons QQuery] Cons
        by (cases "query_may_go c n") (auto simp: send_queued.simps [of c] send_query_def open_requests_def)
    qed
  qed (simp add: send_queued.simps [of c])
qed

lemma open_bound: "client_inv c \<Longrightarrow> n \<in> open_requests c \<Longrightarrow> n < cl_next_request_number c"
proof -
  assume inv: "client_inv c" and n: "n \<in> open_requests c"
  from inv obtain a where "map if_number (cl_requests c) @ queued_requests (cl_queued c) = [a..<cl_next_request_number c]"
    by (auto simp: client_inv_def client_core_def numbered_def)
  then have "set (map if_number (cl_requests c)) \<union> set (queued_requests (cl_queued c)) \<subseteq> {..<cl_next_request_number c}"
    by (metis set_append atLeastLessThan_upt atLeastLessThan_iff lessThan_iff subsetI)
  then show ?thesis using n unanswered_sub [of "cl_requests c"] by (auto simp: open_requests_def)
qed

lemma cl_register_open:
  "open_requests (cl_register c) = open_requests c" "cl_next_request_number (cl_register c) = cl_next_request_number c"
  by (simp_all add: cl_register_def open_requests_def)

lemma cl_on_request_open:
  assumes "cl_on_request c op = Some (c', n)"
  shows "open_requests c' = insert (cl_next_request_number c) (open_requests c)"
    and "cl_next_request_number c' = cl_next_request_number c + 1"
proof -
  let ?n = "cl_next_request_number c"
  let ?c = "c\<lparr>cl_next_request_number := ?n + 1\<rparr>"
  from assms have "(\<exists>s. send_request ?c s ?n op = Some c') \<or> c' = cl_register (?c\<lparr>cl_queued := cl_queued c @ [QRequest ?n op]\<rparr>)"
    by (auto simp: cl_on_request_def Let_def bind_eq_Some_conv split: option.splits if_splits)
  then show "open_requests c' = insert ?n (open_requests c)" "cl_next_request_number c' = ?n + 1"
    by (auto simp: send_request_def cl_register_open split: if_splits) (auto simp: open_requests_def)
qed

lemma mark_resent_unanswered: "unanswered (mark_resent now fl) = unanswered fl"
  by (induction fl) (auto simp: mark_resent_def)

lemma cl_on_idle_open:
  assumes "cl_on_idle c = Some c'"
  shows "open_requests c' = open_requests c" "cl_next_request_number c' = cl_next_request_number c"
  using assms
  by (auto simp: cl_on_idle_def Let_def open_requests_def mark_resent_unanswered bind_eq_Some_conv
      split: option.splits list.splits if_splits)

lemma cl_on_reply_open:
  assumes inv: "client_inv c" and step: "cl_on_reply c rep = Some (c', d)" and d: "d \<noteq> Some CEvicted"
  shows "cl_next_request_number c' = cl_next_request_number c \<and>
     (case d of Some (CExecuted n res) \<Rightarrow> n \<in> open_requests c \<and> open_requests c' = open_requests c - {n}
      | _ \<Rightarrow> open_requests c' = open_requests c)"
proof (cases "reply_client_id rep = cl_client_id c")
  case False
  then show ?thesis using step by (simp add: cl_on_reply_def)
next
  case me: True
  define ca where "ca = c\<lparr>cl_view_number := max (cl_view_number c) (reply_view_number rep)\<rparr>"
  have same: "open_requests ca = open_requests c" "cl_next_request_number ca = cl_next_request_number c"
    by (simp_all add: ca_def open_requests_def)
  have num: "numbered (map if_number (cl_requests ca) @ queued_requests (cl_queued ca)) (cl_next_request_number ca)"
    and f: "flight_ok (cfg_in_flight_max (cl_config ca)) (cl_requests ca)"
    using inv by (simp_all add: client_inv_def client_core_def ca_def)
  have "distinct (map if_number (cl_requests ca) @ queued_requests (cl_queued ca))"
    using num unfolding numbered_def by (metis distinct_upt)
  then have q: "n \<notin> set (queued_requests (cl_queued ca))" if "n \<in> unanswered (cl_requests ca)" for n
    using that unanswered_sub [of "cl_requests ca"] unfolding distinct_append by blast
  show ?thesis
  proof (cases rep)
    case (Registered v i session)
    then show ?thesis
      using step me send_queued_open [of "ca\<lparr>cl_registering := None, cl_session := Some session\<rparr>" c']
      by (auto simp: cl_on_reply_def Let_def bind_eq_Some_conv ca_def open_requests_def split: if_splits)
  next
    case (Executed v i session n result)
    obtain fl found where fl: "answer (cl_requests ca) n = (fl, found)" by (cases "answer (cl_requests ca) n")
    show ?thesis
    proof (cases "cl_session ca = Some session \<and> found")
      case True
      then obtain c1 where c1: "send_queued (ca\<lparr>cl_requests := fl\<rparr>) = Some c1" "c' = c1" "d = Some (CExecuted n result)"
        using step me Executed fl by (auto simp: cl_on_reply_def Let_def bind_eq_Some_conv ca_def)
      have a: "n \<in> unanswered (cl_requests ca)" "unanswered fl = unanswered (cl_requests ca) - {n}"
        using answer_found [OF num] fl True by auto
      then have "open_requests (ca\<lparr>cl_requests := fl\<rparr>) = open_requests ca - {n}"
        using q [of n] by (auto simp: open_requests_def)
      with send_queued_open [OF c1(1)] c1 a(1) same show ?thesis by (auto simp: open_requests_def)
    next
      case False
      then have "c' = ca \<and> d = None \<or> \<not> found \<and> c' = ca\<lparr>cl_requests := fl\<rparr> \<and> d = None"
        using step me Executed fl by (auto simp: cl_on_reply_def Let_def ca_def split: if_splits)
      moreover have "fl = cl_requests ca" if "\<not> found" using answer_not_found [OF _ f] fl that by (cases found) auto
      ultimately show ?thesis using same by (auto simp: open_requests_def)
    qed
  next
    case (Queried v i n result)
    obtain fl found where fl: "answer (cl_queries ca) n = (fl, found)" by (cases "answer (cl_queries ca) n")
    show ?thesis
      using step me Queried fl send_queued_open [of "ca\<lparr>cl_queries := fl\<rparr>"] same
      by (auto simp: cl_on_reply_def Let_def bind_eq_Some_conv open_requests_def ca_def split: if_splits)
  next
    case (Evicted v i session)
    then show ?thesis using step d me same by (auto simp: cl_on_reply_def Let_def ca_def split: if_splits)
  qed
qed

lemma client_step_open:
  assumes inv: "client_inv c" and step: "client_step c ev = Some (c', d)" and d: "d \<noteq> Some CEvicted"
  shows "open_requests c' \<subseteq> open_requests c \<union> {cl_next_request_number c..}"
    and "cl_next_request_number c \<le> cl_next_request_number c'"
    and "d = Some (CExecuted n res) \<Longrightarrow> n \<in> open_requests c \<and> n \<notin> open_requests c'"
proof -
  have "open_requests c' \<subseteq> open_requests c \<union> {cl_next_request_number c..}
    \<and> cl_next_request_number c \<le> cl_next_request_number c'
    \<and> (d = Some (CExecuted n res) \<longrightarrow> n \<in> open_requests c \<and> n \<notin> open_requests c')"
  proof (cases ev)
    case EvRegister
    then show ?thesis using step by (auto simp: cl_register_open)
  next
    case (EvRequest op)
    then obtain m where "cl_on_request c op = Some (c', m)" "d = None" using step by (auto simp: bind_eq_Some_conv)
    then show ?thesis using cl_on_request_open [of c op c' m] by auto
  next
    case (EvQuery q)
    then show ?thesis using step by (auto simp: cl_on_query_def Let_def send_query_def open_requests_def split: if_splits)
  next
    case (EvReply rep)
    then show ?thesis using cl_on_reply_open [OF inv _ d, of rep c'] step
      by (auto split: option.splits completion.splits)
  next
    case EvIdle
    then show ?thesis using step by (auto simp: bind_eq_Some_conv cl_on_idle_open)
  next
    case EvDrain
    then show ?thesis using step by (auto simp: open_requests_def)
  qed
  then show "open_requests c' \<subseteq> open_requests c \<union> {cl_next_request_number c..}"
    "cl_next_request_number c \<le> cl_next_request_number c'"
    "d = Some (CExecuted n res) \<Longrightarrow> n \<in> open_requests c \<and> n \<notin> open_requests c'" by blast+
qed

lemma executed_numbers_append: "executed_numbers (xs @ ys) = executed_numbers xs @ executed_numbers ys"
  by (induction xs rule: executed_numbers.induct) auto

lemma client_run_completions:
  assumes "client_inv c" and "client_run c evs = Some (c', ds)" and "CEvicted \<notin> set ds"
  shows "distinct (executed_numbers ds)
     \<and> set (executed_numbers ds) \<subseteq> open_requests c \<union> {cl_next_request_number c..}"
  using assms
proof (induction evs arbitrary: c ds)
  case (Cons ev evs)
  from Cons.prems(2) obtain c1 d ds1 where step: "client_step c ev = Some (c1, d)"
    and rest: "client_run c1 evs = Some (c', ds1)" and ds: "ds = (case d of Some x \<Rightarrow> [x] | None \<Rightarrow> []) @ ds1"
    by (auto simp: bind_eq_Some_conv)
  have d: "d \<noteq> Some CEvicted" "CEvicted \<notin> set ds1" using Cons.prems(3) ds by auto
  have "client_inv c1" using client_step_inv [OF Cons.prems(1), of ev] step by auto
  from Cons.IH [OF this rest d(2)] have ih: "distinct (executed_numbers ds1)"
    "set (executed_numbers ds1) \<subseteq> open_requests c1 \<union> {cl_next_request_number c1..}" by blast+
  note o = client_step_open [OF Cons.prems(1) step d(1)]
  have sub: "set (executed_numbers ds1) \<subseteq> open_requests c \<union> {cl_next_request_number c..}" using ih(2) o(1,2) by auto
  show ?case
  proof (cases "\<exists>n res. d = Some (CExecuted n res)")
    case True
    then obtain n res where n: "d = Some (CExecuted n res)" by blast
    have "n \<in> open_requests c" "n \<notin> open_requests c1" using o(3) [OF n] by blast+
    moreover from this have "n < cl_next_request_number c1" using open_bound [OF Cons.prems(1)] o(2) by force
    ultimately have "n \<notin> set (executed_numbers ds1)" using ih(2) by auto
    with ih(1) sub \<open>n \<in> open_requests c\<close> show ?thesis by (simp add: ds n)
  next
    case False
    then have "executed_numbers ds = executed_numbers ds1"
      using d by (cases d; cases "the d") (auto simp: ds)
    with ih(1) sub show ?thesis by simp
  qed
qed simp



end
