(* ===== verification/Sim_Disk.thy ===== *)
theory Sim_Disk
  imports VSR_Safety
begin

text \<open>
  \<open>src/simulator/disk.rs\<close>: a replica's disk and the owner's side of a step.  The random
  choices of a step are an argument, as is what the simulator does with a message that leaves,
  which may fail.
\<close>

section \<open>The disk\<close>

type_synonym sim_replica = "(accumulator, acc_op, unit, i64, acc_chunk) replica"
type_synonym sim_node = "(accumulator, acc_op, unit, i64, acc_chunk) node"
type_synonym sim_message = "(acc_op, unit, acc_chunk) message"
type_synonym sim_mailbox = "(acc_op, unit, acc_chunk) mailbox"

datatype disk_step_end = Persisted | PowerLost | WriteOut

record disk =
  dk_state :: "acc_op persistent_state"
  dk_outstanding :: "acc_op log_write option"
  dk_state_machine :: accumulator
  dk_applied :: OpNumber

definition disk_default :: disk where
  "disk_default = \<lparr>dk_state = ps_empty, dk_outstanding = None, dk_state_machine = acc_default, dk_applied = 0\<rparr>"

definition for_recovery :: "ViewNumber \<Rightarrow> disk" where
  "for_recovery v = disk_default\<lparr>dk_state := ps_empty\<lparr>ps_view_number := v, ps_recovering := True\<rparr>\<rparr>"

text \<open>
  What chance decides in a step: whether power is lost, after a checkpoint was restored or
  otherwise; whether the write that is out lands; whether the next one stays out.
\<close>

record step_choices =
  ch_power :: "bool \<Rightarrow> bool"
  ch_land :: bool
  ch_out :: bool

type_synonym ('w, 'e) sender = "acc_op persistent_state \<Rightarrow> sim_replica \<Rightarrow> ReplicaID \<Rightarrow> sim_message \<Rightarrow> 'w \<Rightarrow> 'e + 'w"

text \<open>
  A computation of the owner has no value where the code panics, and ends early with the sender's
  error where the code returns one.
\<close>

definition and_then :: "('e + 'a) option \<Rightarrow> ('a \<Rightarrow> ('e + 'b) option) \<Rightarrow> ('e + 'b) option" where
  "and_then x f = (case x of None \<Rightarrow> None | Some (Inl e) \<Rightarrow> Some (Inl e) | Some (Inr a) \<Rightarrow> f a)"

lemma and_then_ok [simp]:
  "and_then x f = Some (Inr y) \<longleftrightarrow> (\<exists>a. x = Some (Inr a) \<and> f a = Some (Inr y))"
  by (auto simp: and_then_def split: option.splits sum.splits)

fun send_all :: "('w, 'e) sender \<Rightarrow> acc_op persistent_state \<Rightarrow> sim_replica \<Rightarrow> sim_mailbox \<Rightarrow> 'w \<Rightarrow> 'e + 'w" where
  "send_all sd p r [] w = Inr w"
| "send_all sd p r ((i, m) # ms) w = (case sd p r i m w of Inl e \<Rightarrow> Inl e | Inr w \<Rightarrow> send_all sd p r ms w)"

definition disk_flush :: "disk \<Rightarrow> sim_replica \<Rightarrow> disk" where
  "disk_flush d r = d\<lparr>dk_applied := applied r, dk_state_machine := acc_flushed (state_machine r)\<rparr>"

definition disk_land :: "disk \<Rightarrow> sim_replica \<Rightarrow> (disk \<times> sim_replica) option" where
  "disk_land d r = do {
     w \<leftarrow> dk_outstanding d;
     let d = d\<lparr>dk_outstanding := None\<rparr>;
     p \<leftarrow> (if lw_sync w then ps_apply (dk_state d) w else Some (dk_state d));
     r \<leftarrow> persisted acc_sm r w;
     Some (d\<lparr>dk_state := p\<rparr>, r) }"

definition disk_release ::
  "('w, 'e) sender \<Rightarrow> disk \<Rightarrow> sim_replica \<Rightarrow> 'w \<Rightarrow> i64 reply list
   \<Rightarrow> ('e + (disk \<times> sim_replica \<times> 'w \<times> i64 reply list)) option" where
  "disk_release sd d r w reps =
     (let (r, released) = drain_messages r in
      and_then (Some (send_all sd (dk_state d) r released w)) (\<lambda>w.
        let (r, rs) = drain_replies r in Some (Inr (d, r, w, reps @ rs))))"

text \<open>The write that is out lands, and what it released goes out.\<close>

definition land_and_release ::
  "('w, 'e) sender \<Rightarrow> disk \<Rightarrow> sim_replica \<Rightarrow> 'w \<Rightarrow> i64 reply list
   \<Rightarrow> ('e + (disk \<times> sim_replica \<times> 'w \<times> i64 reply list)) option" where
  "land_and_release sd d r w reps = do {
     (d, r) \<leftarrow> disk_land d r;
     disk_release sd d r w reps }"

definition land_out ::
  "('w, 'e) sender \<Rightarrow> step_choices \<Rightarrow> disk \<Rightarrow> sim_replica \<Rightarrow> 'w \<Rightarrow> i64 reply list
   \<Rightarrow> ('e + (disk \<times> sim_replica \<times> 'w \<times> i64 reply list)) option" where
  "land_out sd ch d r w reps =
     (if dk_outstanding d \<noteq> None \<and> ch_land ch then land_and_release sd d r w reps
      else Some (Inr (d, r, w, reps)))"

definition next_write ::
  "('w, 'e) sender \<Rightarrow> step_choices \<Rightarrow> disk \<Rightarrow> sim_replica \<Rightarrow> 'w \<Rightarrow> i64 reply list
   \<Rightarrow> ('e + (disk \<times> sim_replica \<times> 'w \<times> i64 reply list)) option" where
  "next_write sd ch d r w reps =
     (if dk_outstanding d \<noteq> None then Some (Inr (d, r, w, reps))
      else do {
        (r, lw) \<leftarrow> take_write r;
        let d = d\<lparr>dk_outstanding := Some lw\<rparr>;
        if lw_sync lw \<and> ch_out ch then Some (Inr (d, r, w, reps))
        else land_and_release sd d r w reps })"

definition disk_step ::
  "('w, 'e) sender \<Rightarrow> step_choices \<Rightarrow> disk \<Rightarrow> sim_replica \<Rightarrow> 'w \<Rightarrow> i64 reply list
   \<Rightarrow> ('e + (disk \<times> sim_replica \<times> 'w \<times> i64 reply list \<times> disk_step_end)) option" where
  "disk_step sd ch d r w reps =
     (let (r, early) = drain_messages_before_persist r in
      and_then (Some (send_all sd (dk_state d) r early w)) (\<lambda>w.
        let (r, rs) = drain_replies r;
            reps = reps @ rs;
            installed = dk_applied d < log_start r;
            d = (if installed then disk_flush d r else d)
        in if ch_power ch installed then Some (Inr (d, r, w, reps, PowerLost))
           else and_then (land_out sd ch d r w reps) (\<lambda>(d, r, w, reps).
             and_then (next_write sd ch d r w reps) (\<lambda>(d, r, w, reps).
               Some (Inr (d, r, w, reps, if dk_outstanding d \<noteq> None then WriteOut else Persisted))))))"

definition disk_crash :: "disk \<Rightarrow> bool \<Rightarrow> (disk \<times> bool option) option" where
  "disk_crash d landed =
     (case dk_outstanding d of
        None \<Rightarrow> Some (d, None)
      | Some w \<Rightarrow> do {
          let d = d\<lparr>dk_outstanding := None\<rparr>;
          p \<leftarrow> (if landed \<and> lw_sync w then ps_apply (dk_state d) w else Some (dk_state d));
          Some (d\<lparr>dk_state := p\<rparr>, Some landed) })"

definition flush_up_to :: "disk \<Rightarrow> sim_replica \<Rightarrow> OpNumber \<Rightarrow> disk option" where
  "flush_up_to d r n = do {
     ensure (n \<le> applied r);
     if dk_applied d < n then do {
       s \<leftarrow> acc_catch_up (dk_state_machine d) (state_machine r) (dk_applied d) n;
       Some (d\<lparr>dk_state_machine := s, dk_applied := n\<rparr>) }
     else Some d }"

definition disk_restart :: "disk \<Rightarrow> ReplicaID \<Rightarrow> config \<Rightarrow> nat \<Rightarrow> sim_replica option" where
  "disk_restart d i cfg nonce = restart acc_sm i cfg (dk_state_machine d) (dk_applied d) (dk_state d) nonce"

definition disk_holds :: "disk \<Rightarrow> OpNumber \<Rightarrow> acc_op log_entry \<Rightarrow> bool" where
  "disk_holds d n e \<longleftrightarrow> n \<le> dk_applied d \<or> ps_entry (dk_state d) n = Some e"

text \<open>A sender that only records what leaves, with the disk as of then.\<close>

definition record_send :: "((acc_op persistent_state \<times> ReplicaID \<times> sim_message) list, string) sender" where
  "record_send p r i m w = Inr (w @ [(p, i, m)])"

lemma send_all_record:
  "send_all record_send p r ms w = Inr (w @ map (Pair p) ms)"
  by (induction ms arbitrary: w) (auto simp: record_send_def)

end
