(* ===== verification/Sim_Owner.thy ===== *)
theory Sim_Owner
  imports Sim_Disk
begin

text \<open>
  The simulated owner of \<open>Sim_Disk\<close> keeps to the library's contract.  Its step is a schedule of
  the actions of \<open>VSR_Node\<close>, so that what holds of every schedule holds of it; a crash loses
  what the model says it may; and what its state machine flushed covers what the log on disk has
  lost to compaction, which a restart needs.
\<close>

section \<open>The owner and its replica\<close>

definition disk_node :: "disk \<Rightarrow> sim_replica \<Rightarrow> sim_mailbox \<Rightarrow> sim_node" where
  "disk_node d r sent = \<lparr>nd_rep = r, nd_disk = dk_state d, nd_out = dk_outstanding d, nd_sent = sent\<rparr>"

text \<open>The state machine's flush covers what the log on disk, or the write that is out, lost.\<close>

definition flush_ok :: "disk \<Rightarrow> bool" where
  "flush_ok d \<longleftrightarrow> ps_log_start (dk_state d) \<le> dk_applied d
     \<and> (\<forall>lw. dk_outstanding d = Some lw \<longrightarrow> lw_log_start lw \<le> dk_applied d)"

definition owner_ok :: "disk \<Rightarrow> sim_replica \<Rightarrow> sim_mailbox \<Rightarrow> bool" where
  "owner_ok d r h \<longleftrightarrow> reachable acc_sm (disk_node d r h) \<and> dk_applied d \<le> applied r \<and> flush_ok d"

lemma owner_ok_inv: "owner_ok d r h \<Longrightarrow> node_inv (disk_node d r h)"
  by (auto simp: owner_ok_def dest: reachable_inv)

lemma owner_ok_bounds:
  assumes "owner_ok d r h"
  shows "log_start r \<le> applied r" and "ps_log_start (dk_state d) \<le> log_start r"
proof -
  from owner_ok_inv [OF assms] obtain q where q: "nd_target (disk_node d r h) = Some q"
    "target_inv (dk_state d) q r" "log_inv r" "disk_inv (dk_state d) r"
    by (auto simp: node_inv_def disk_node_def replica_inv_def)
  then show "log_start r \<le> applied r" by (simp add: log_inv_def)
  show "ps_log_start (dk_state d) \<le> log_start r"
  proof (cases "dk_outstanding d")
    case None
    with q show ?thesis by (simp add: nd_target_def disk_node_def target_inv_def in_sync_def)
  next
    case (Some w)
    with q(1) have "ps_log_start (dk_state d) \<le> ps_log_start q"
      by (auto simp: nd_target_def disk_node_def ps_apply_def Let_def split: if_splits)
    also have "ps_log_start q \<le> log_start r" using q(2) by (simp add: target_inv_def in_sync_def)
    finally show ?thesis .
  qed
qed

lemma owner_ok_run:
  assumes "owner_ok d r h" and "run_step acc_sm (disk_node d r h) (disk_node d' r' h')"
    and "dk_applied d' = dk_applied d" and "flush_ok d'"
  shows "owner_ok d' r' h'"
  using assms run_step_progress [OF assms(2) owner_ok_inv [OF assms(1)]]
  by (auto simp: owner_ok_def disk_node_def progress_def intro: reachable.step node_step.run)

lemma owner_ok_sent: "owner_ok d r h \<Longrightarrow> x \<in> set h \<Longrightarrow> backed_by (disk_stamp (dk_state d)) (snd x)"
  using node_inv_sent [OF owner_ok_inv] by (simp add: disk_node_def)

lemma owner_ok_flush_ok: "owner_ok d r h \<Longrightarrow> flush_ok d"
  by (simp add: owner_ok_def)

section \<open>The parts of a step\<close>

lemma owner_early:
  assumes ok: "owner_ok d r h" and step: "drain_messages_before_persist r = (r', ms)"
  shows "owner_ok d r' (h @ ms)"
proof (rule owner_ok_run [OF ok])
  show "run_step acc_sm (disk_node d r h) (disk_node d r' (h @ ms))"
    using run_step.early [of "disk_node d r h" r' ms acc_sm] step by (simp add: disk_node_def)
qed (use ok in \<open>simp_all add: owner_ok_def\<close>)

lemma owner_drain:
  assumes ok: "owner_ok d r h" and step: "drain_messages r = (r', ms)"
  shows "owner_ok d r' (h @ ms)"
proof (rule owner_ok_run [OF ok])
  show "run_step acc_sm (disk_node d r h) (disk_node d r' (h @ ms))"
    using run_step.drain [of "disk_node d r h" r' ms acc_sm] step by (simp add: disk_node_def)
qed (use ok in \<open>simp_all add: owner_ok_def\<close>)

lemma owner_replies:
  assumes ok: "owner_ok d r h" and step: "drain_replies r = (r', reps)"
  shows "owner_ok d r' h"
proof (rule owner_ok_run [OF ok])
  show "run_step acc_sm (disk_node d r h) (disk_node d r' h)"
    using run_step.replied [of "disk_node d r h" r' reps acc_sm] step by (simp add: disk_node_def)
qed (use ok in \<open>simp_all add: owner_ok_def\<close>)

lemma owner_flush:
  assumes "owner_ok d r h"
  shows "owner_ok (disk_flush d r) r h"
  using assms by (auto simp: owner_ok_def disk_node_def disk_flush_def flush_ok_def)

text \<open>What a replica's memory and its disk are compared by stays, and no commit is undone.\<close>

definition same_memory :: "sim_replica \<Rightarrow> sim_replica \<Rightarrow> bool" where
  "same_memory r r' \<longleftrightarrow> view_number r' = view_number r \<and> last_normal_view r' = last_normal_view r
     \<and> status r' = status r \<and> log_start r' = log_start r \<and> log r' = log r
     \<and> config r' = config r \<and> self_id r' = self_id r \<and> commit_number r \<le> commit_number r'"

lemma same_memory_trans: "same_memory a b \<Longrightarrow> same_memory b c \<Longrightarrow> same_memory a c"
  by (simp add: same_memory_def)

lemma same_memory_matches: "same_memory r r' \<Longrightarrow> disk_matches p r' = disk_matches p r"
  by (simp add: same_memory_def disk_matches_def is_recovering_def)

lemma drains_same_memory:
  "drain_messages_before_persist r = (r', ms) \<Longrightarrow> same_memory r r'"
  "drain_messages r = (r', ms) \<Longrightarrow> same_memory r r'"
  "drain_replies r = (r', reps) \<Longrightarrow> same_memory r r'"
  by (auto simp: same_memory_def drain_messages_before_persist_def drain_messages_def drain_replies_def)

lemma take_write_same_memory: "take_write r = Some (r', lw) \<Longrightarrow> same_memory r r' \<and> lw_log_start lw = log_start r"
  by (auto simp: same_memory_def take_write_def Let_def bind_eq_Some_conv split: if_splits)

lemma persisted_same_memory:
  assumes "persisted acc_sm r lw = Some r'" and "commit_number r \<le> commit_number r'"
  shows "same_memory r r'"
proof -
  note same = register_ack_same_log [unfolded same_log_def] executed_same_log [OF apply_committed_executed, unfolded same_log_def]
  from assms(1) show ?thesis
    by (auto simp: persisted_def Let_def bind_eq_Some_conv same_memory_def assms(2) dest!: same split: if_splits)
qed

lemma owner_take:
  assumes ok: "owner_ok d r h" and covered: "log_start r \<le> dk_applied d" and step: "take_write r = Some (r', lw)"
  shows "owner_ok (d\<lparr>dk_outstanding := Some lw\<rparr>) r' h"
proof (rule owner_ok_run [OF ok])
  show "run_step acc_sm (disk_node d r h) (disk_node (d\<lparr>dk_outstanding := Some lw\<rparr>) r' h)"
    using run_step.take [of "disk_node d r h" r' lw acc_sm] step by (simp add: disk_node_def)
  show "flush_ok (d\<lparr>dk_outstanding := Some lw\<rparr>)"
    using ok covered take_write_same_memory [OF step] by (simp add: owner_ok_def flush_ok_def)
qed simp

lemma disk_land_cases:
  assumes "disk_land d r = Some (d', r')"
  obtains lw p where "dk_outstanding d = Some lw" and "persisted acc_sm r lw = Some r'"
    and "d' = d\<lparr>dk_outstanding := None, dk_state := p\<rparr>"
    and "lw_sync lw \<and> ps_apply (dk_state d) lw = Some p \<or> \<not> lw_sync lw \<and> p = dk_state d"
proof -
  from assms obtain lw p where "dk_outstanding d = Some lw" and "persisted acc_sm r lw = Some r'"
    and "(if lw_sync lw then ps_apply (dk_state d) lw else Some (dk_state d)) = Some p"
    and "d' = d\<lparr>dk_outstanding := None, dk_state := p\<rparr>"
    by (auto simp: disk_land_def Let_def bind_eq_Some_conv cong: if_cong)
  then show ?thesis by (intro that) (auto split: if_splits)
qed

lemma owner_land:
  assumes ok: "owner_ok d r h" and step: "disk_land d r = Some (d', r')"
  shows "owner_ok d' r' h \<and> dk_outstanding d' = None \<and> dk_applied d' = dk_applied d \<and> same_memory r r'"
proof -
  from step obtain lw p where lw: "dk_outstanding d = Some lw" "persisted acc_sm r lw = Some r'"
    and d': "d' = d\<lparr>dk_outstanding := None, dk_state := p\<rparr>"
    and p: "lw_sync lw \<and> ps_apply (dk_state d) lw = Some p \<or> \<not> lw_sync lw \<and> p = dk_state d"
    by (rule disk_land_cases)
  have "run_step acc_sm (disk_node d r h) (disk_node d' r' h)"
    using p run_step.landed [of "disk_node d r h" lw p acc_sm r'] run_step.skipped [of "disk_node d r h" lw acc_sm r']
    by (auto simp: disk_node_def d' lw)
  moreover have "flush_ok d'"
    using p lw owner_ok_flush_ok [OF ok] by (auto simp: flush_ok_def d' dest!: ps_apply_log_start)
  moreover have "commit_number r \<le> commit_number r'"
    using run_step_progress [OF calculation(1) owner_ok_inv [OF ok]] by (simp add: progress_def disk_node_def)
  ultimately show ?thesis
    using owner_ok_run [OF ok] persisted_same_memory [OF lw(2)] by (simp add: d')
qed

text \<open>
  How a part of a step ends that started with the node \<open>(d, r, h)\<close> and the sends \<open>w\<close>: what it
  sent left backed by the disk as of then, and the node stays one that an owner can reach.
\<close>

definition part_ok ::
  "disk \<Rightarrow> sim_replica \<Rightarrow> sim_mailbox \<Rightarrow> (acc_op persistent_state \<times> ReplicaID \<times> sim_message) list
   \<Rightarrow> disk \<Rightarrow> sim_replica \<Rightarrow> (acc_op persistent_state \<times> ReplicaID \<times> sim_message) list \<Rightarrow> bool" where
  "part_ok d r h w d' r' w' \<longleftrightarrow> (\<exists>ms. w' = w @ ms \<and> owner_ok d' r' (h @ map snd ms)
     \<and> (\<forall>(p, i, m) \<in> set ms. backed_by (disk_stamp p) m)) \<and> dk_applied d \<le> dk_applied d' \<and> same_memory r r'"

lemma part_ok_refl: "owner_ok d r h \<Longrightarrow> part_ok d r h w d r w"
  unfolding part_ok_def by (intro conjI exI [of _ "[]"]) (simp_all add: same_memory_def)

lemma part_ok_trans:
  assumes "part_ok d r h w da ra wa" and "\<And>ha. owner_ok da ra ha \<Longrightarrow> part_ok da ra ha wa d' r' w'"
  shows "part_ok d r h w d' r' w'"
proof -
  from assms(1) obtain ms where ms: "wa = w @ ms" "owner_ok da ra (h @ map snd ms)"
    "\<forall>(p, i, m) \<in> set ms. backed_by (disk_stamp p) m" "dk_applied d \<le> dk_applied da" "same_memory r ra"
    by (auto simp: part_ok_def)
  from assms(2) [OF ms(2)] obtain ns where "w' = wa @ ns" "owner_ok d' r' ((h @ map snd ms) @ map snd ns)"
    "\<forall>(p, i, m) \<in> set ns. backed_by (disk_stamp p) m" "dk_applied da \<le> dk_applied d'" "same_memory ra r'"
    by (auto simp: part_ok_def)
  with ms show ?thesis
    unfolding part_ok_def
    by (intro conjI exI [of _ "ms @ ns"]) (auto intro: same_memory_trans order_trans)
qed

text \<open>Mail that leaves the disk as it is.\<close>

lemma part_ok_mail:
  assumes "owner_ok d r' (h @ ms)" and "same_memory r r'"
  shows "part_ok d r h w d r' (w @ map (Pair (dk_state d)) ms)"
  unfolding part_ok_def
proof (intro conjI exI [of _ "map (Pair (dk_state d)) ms"])
  show "owner_ok d r' (h @ map snd (map (Pair (dk_state d)) ms))" using assms(1) by (simp add: comp_def)
  have "backed_by (disk_stamp (dk_state d)) (snd x)" if "x \<in> set ms" for x
    using owner_ok_sent [OF assms(1), of x] that by simp
  then show "\<forall>(p, i, m) \<in> set (map (Pair (dk_state d)) ms). backed_by (disk_stamp p) m" by auto
qed (use assms(2) in simp_all)

lemma release_ok:
  assumes "owner_ok d r h" and "disk_release record_send d r w reps = Some (Inr (d', r', w', reps'))"
  shows "part_ok d r h w d' r' w' \<and> d' = d"
proof -
  obtain ra ms where ra: "drain_messages r = (ra, ms)" by (cases "drain_messages r")
  obtain rb rs where rb: "drain_replies ra = (rb, rs)" by (cases "drain_replies ra")
  from assms(2) ra rb have "d' = d" "r' = rb" "w' = w @ map (Pair (dk_state d)) ms"
    by (auto simp: disk_release_def send_all_record)
  moreover have "owner_ok d rb (h @ ms)" using owner_replies [OF owner_drain [OF assms(1) ra] rb] .
  ultimately show ?thesis
    using drains_same_memory(2) [OF ra] drains_same_memory(3) [OF rb]
    by (auto intro: part_ok_mail same_memory_trans)
qed

lemma land_and_release_ok:
  assumes "owner_ok d r h" and "land_and_release record_send d r w reps = Some (Inr (d', r', w', reps'))"
  obtains da ra where "disk_land d r = Some (da, ra)" and "part_ok d r h w d' r' w'"
    and "d' = da" and "dk_outstanding d' = None"
proof -
  from assms(2) obtain da ra where la: "disk_land d r = Some (da, ra)"
    and re: "disk_release record_send da ra w reps = Some (Inr (d', r', w', reps'))"
    by (auto simp: land_and_release_def bind_eq_Some_conv)
  note land = owner_land [OF assms(1) la]
  have "part_ok da ra h w d' r' w'" "d' = da"
    using release_ok [OF _ re] land by auto
  then have "part_ok d r h w d' r' w'" using land by (auto simp: part_ok_def intro: same_memory_trans)
  with la \<open>d' = da\<close> land show ?thesis by (intro that) auto
qed

lemma land_out_ok:
  assumes "owner_ok d r h" and "land_out record_send ch d r w reps = Some (Inr (d', r', w', reps'))"
  shows "part_ok d r h w d' r' w'"
proof (cases "dk_outstanding d \<noteq> None \<and> ch_land ch")
  case True
  with assms(2) have "land_and_release record_send d r w reps = Some (Inr (d', r', w', reps'))"
    by (simp add: land_out_def)
  with assms(1) show ?thesis by (rule land_and_release_ok)
next
  case False
  with assms show ?thesis unfolding land_out_def by (auto intro: part_ok_refl)
qed

text \<open>Once the write of a step is on disk, the disk holds what memory does.\<close>

lemma land_taken_matches:
  assumes ok: "owner_ok d r h" and tw: "take_write r = Some (ra, lw)"
    and la: "disk_land (d\<lparr>dk_outstanding := Some lw\<rparr>) ra = Some (d', r')"
  shows "disk_matches (dk_state d') r"
proof -
  note inv = owner_ok_inv [OF ok]
  have tw': "take_write (nd_rep (disk_node d r h)) = Some (ra, lw)" using tw by (simp add: disk_node_def)
  have sync: "in_sync (dk_state d) r" "written_inv (dk_state d) r"
    using take_write_target [OF inv tw'] by (simp_all add: disk_node_def)
  have li: "log_inv r" using node_invD [OF inv] by (simp add: disk_node_def replica_inv_def)
  from la obtain p where d': "dk_state d' = p"
    and p: "lw_sync lw \<and> ps_apply (dk_state d) lw = Some p \<or> \<not> lw_sync lw \<and> p = dk_state d"
    by (elim disk_land_cases) simp
  from p show ?thesis
  proof
    assume "lw_sync lw \<and> ps_apply (dk_state d) lw = Some p"
    with take_write_applies [OF li sync(1) tw] show ?thesis
      by (simp add: d' disk_matches_def persistent_state_of_def is_recovering_def)
  next
    assume "\<not> lw_sync lw \<and> p = dk_state d"
    with take_write_unsynced [OF tw] sync(2) show ?thesis by (simp add: d' written_inv_def)
  qed
qed

lemma next_write_ok:
  assumes ok: "owner_ok d r h" and covered: "log_start r \<le> dk_applied d"
    and step: "next_write record_send ch d r w reps = Some (Inr (d', r', w', reps'))"
  shows "part_ok d r h w d' r' w' \<and> (dk_outstanding d' = None \<longrightarrow> disk_matches (dk_state d') r')"
proof (cases "dk_outstanding d = None")
  case False
  with step ok show ?thesis by (auto simp: next_write_def intro: part_ok_refl)
next
  case True
  with step obtain ra lw where ra: "take_write r = Some (ra, lw)"
    and rest: "(if lw_sync lw \<and> ch_out ch then Some (Inr (d\<lparr>dk_outstanding := Some lw\<rparr>, ra, w, reps))
      else land_and_release record_send (d\<lparr>dk_outstanding := Some lw\<rparr>) ra w reps) = Some (Inr (d', r', w', reps'))"
    by (auto simp: next_write_def Let_def bind_eq_Some_conv)
  let ?d = "d\<lparr>dk_outstanding := Some lw\<rparr>"
  have taken: "owner_ok ?d ra h" using ok covered ra by (rule owner_take)
  have first: "part_ok d r h w ?d ra w"
    using part_ok_refl [OF taken, of w] take_write_same_memory [OF ra]
    by (auto simp: part_ok_def intro: same_memory_trans)
  show ?thesis
  proof (cases "lw_sync lw \<and> ch_out ch")
    case True
    with rest first show ?thesis by auto
  next
    case False
    with rest have l: "land_and_release record_send ?d ra w reps = Some (Inr (d', r', w', reps'))" by simp
    then obtain rb where la: "disk_land ?d ra = Some (d', rb)" and p: "part_ok ?d ra h w d' r' w'"
      by (rule land_and_release_ok [OF taken]) simp
    from p have whole: "part_ok d r h w d' r' w'"
      using take_write_same_memory [OF ra] by (auto simp: part_ok_def intro: same_memory_trans)
    moreover have "disk_matches (dk_state d') r" using ok ra la by (rule land_taken_matches)
    moreover have "same_memory r r'" using whole by (simp add: part_ok_def)
    ultimately show ?thesis by (simp add: same_memory_matches)
  qed
qed

section \<open>The step\<close>

lemma disk_step_ok:
  assumes ok: "owner_ok d r h"
    and step: "disk_step record_send ch d r w reps = Some (Inr (d', r', w', reps', st))"
  shows "part_ok d r h w d' r' w' \<and> log_start r' \<le> dk_applied d' \<and> (st = WriteOut \<longrightarrow> dk_outstanding d' \<noteq> None)
    \<and> (st = Persisted \<longrightarrow> dk_outstanding d' = None \<and> disk_matches (dk_state d') r')"
proof -
  obtain ra ms where ra: "drain_messages_before_persist r = (ra, ms)" by (cases "drain_messages_before_persist r")
  obtain rb rs where rb: "drain_replies ra = (rb, rs)" by (cases "drain_replies ra")
  define da where "da = (if dk_applied d < log_start rb then disk_flush d rb else d)"
  define wa where "wa = w @ map (Pair (dk_state d)) ms"
  have okb: "owner_ok d rb (h @ ms)" using owner_replies [OF owner_early [OF ok ra] rb] .
  have mail: "part_ok d r h w d rb wa"
    unfolding wa_def using okb by (rule part_ok_mail)
      (use drains_same_memory(1) [OF ra] drains_same_memory(3) [OF rb] in \<open>rule same_memory_trans\<close>)
  have covered: "log_start rb \<le> dk_applied da"
    using owner_ok_bounds(1) [OF okb] by (simp add: da_def disk_flush_def)
  have first: "part_ok d r h w da rb wa"
  proof (rule part_ok_trans [OF mail])
    fix ha assume okh: "owner_ok d rb ha"
    then have "owner_ok da rb ha" by (simp add: da_def owner_flush)
    from part_ok_refl [OF this] show "part_ok d rb ha wa da rb wa"
      using okh by (auto simp: part_ok_def da_def disk_flush_def owner_ok_def)
  qed
  show ?thesis
  proof (cases "ch_power ch (dk_applied d < log_start rb)")
    case True
    with step have "d' = da" "r' = rb" "w' = wa" "st = PowerLost"
      by (auto simp: disk_step_def ra rb send_all_record and_then_def wa_def da_def Let_def)
    with first covered show ?thesis by simp
  next
    case False
    with step obtain db rc wb repsb where
      l: "land_out record_send ch da rb wa (reps @ rs) = Some (Inr (db, rc, wb, repsb))"
      and n: "next_write record_send ch db rc wb repsb = Some (Inr (d', r', w', reps'))"
      and st: "st = (if dk_outstanding d' \<noteq> None then WriteOut else Persisted)"
      by (auto simp: disk_step_def ra rb send_all_record wa_def da_def Let_def)
    have second: "part_ok d r h w db rc wb"
      using first land_out_ok [OF _ l] by (rule part_ok_trans)
    from first obtain ha where okc: "owner_ok da rb ha" by (auto simp: part_ok_def)
    have covered': "log_start rc \<le> dk_applied db"
      using land_out_ok [OF okc l] covered by (auto simp: part_ok_def same_memory_def)
    from second obtain hb where okd: "owner_ok db rc hb" by (auto simp: part_ok_def)
    have "part_ok d r h w d' r' w'"
      using second next_write_ok [OF _ covered' n] by (auto intro: part_ok_trans)
    moreover have "log_start r' \<le> dk_applied d'"
      using next_write_ok [OF okd covered' n] covered' by (auto simp: part_ok_def same_memory_def)
    ultimately show ?thesis using next_write_ok [OF okd covered' n] st by auto
  qed
qed

text \<open>
  C21: the owner's step in the simulator, whatever chance decides in it, is a schedule the library
  allows: the replica and its disk stay a reachable node; each message leaves backed by the disk
  as of then; and a step that ends with its write on disk leaves there what is in memory.
\<close>

theorem simulated_step_sound:
  assumes "owner_ok d r h"
    and "disk_step record_send ch d r w reps = Some (Inr (d', r', w', reps', st))"
  shows "(\<exists>ms. w' = w @ ms \<and> owner_ok d' r' (h @ map snd ms) \<and> (\<forall>(p, i, m) \<in> set ms. backed_by (disk_stamp p) m))
    \<and> (st = WriteOut \<longrightarrow> dk_outstanding d' \<noteq> None)
    \<and> (st = Persisted \<longrightarrow> dk_outstanding d' = None \<and> disk_matches (dk_state d') r')"
  using disk_step_ok [OF assms] by (auto simp: part_ok_def)

lemma owner_fresh:
  "replica_new i cfg acc_default = Some r \<Longrightarrow> i < replica_count cfg \<Longrightarrow> owner_ok disk_default r []"
  by (auto simp: owner_ok_def disk_node_def disk_default_def flush_ok_def ps_empty_def
      intro!: reachable.init node_init.fresh [unfolded ps_empty_def])

lemma owner_message:
  assumes ok: "owner_ok d r h" and step: "on_message acc_sm r m = Some r'"
  shows "owner_ok d r' h"
proof (rule owner_ok_run [OF ok])
  show "run_step acc_sm (disk_node d r h) (disk_node d r' h)"
    using run_step.message [of acc_sm "disk_node d r h" m r'] step by (simp add: disk_node_def)
qed (use ok in \<open>simp_all add: owner_ok_def\<close>)

text \<open>A backup of three that was handed its first operation.\<close>

definition sim_received :: "sim_replica option" where
  "sim_received = do {
     r \<leftarrow> replica_new 1 three acc_default;
     on_message acc_sm r (Prepare 0 1 (ERegister 7) 0) }"

definition steady :: step_choices where
  "steady = \<lparr>ch_power = (\<lambda>_. False), ch_land = False, ch_out = False\<rparr>"

definition step_persists :: "sim_replica \<Rightarrow> bool" where
  "step_persists r = (case disk_step record_send steady disk_default r [] [] of
     Some (Inr (d, r, w, reps, st)) \<Rightarrow> st = Persisted \<and> map snd w = [(0, PrepareOk 0 1 1)] | _ \<Rightarrow> False)"

lemma received_computed: "holds_at step_persists sim_received"
  by code_simp

lemma received_ok: "owner_ok disk_default (the sim_received) []"
proof -
  obtain rr where rr: "sim_received = Some rr"
    using conjunct2 [OF holds_atD [OF received_computed]] by (rule that)
  then obtain r where r: "replica_new 1 three acc_default = Some r"
    and m: "on_message acc_sm r (Prepare 0 1 (ERegister 7) 0) = Some rr"
    unfolding sim_received_def bind_eq_Some_conv by (elim exE conjE)
  have "(1 :: nat) < replica_count three" by code_simp
  with r have "owner_ok disk_default r []" by (rule owner_fresh)
  then have "owner_ok disk_default rr []" using m by (rule owner_message)
  then show ?thesis by (simp only: rr option.sel)
qed

theorem simulated_step_sound_witness:
  "\<exists>d r. owner_ok d r [(0, PrepareOk 0 1 1)] \<and> disk_matches (dk_state d) r"
proof -
  have "step_persists (the sim_received)" using holds_atD [OF received_computed] by simp
  then obtain d r w reps where
    s: "disk_step record_send steady disk_default (the sim_received) [] [] = Some (Inr (d, r, w, reps, Persisted))"
    and w: "map snd w = [(0, PrepareOk 0 1 1)]"
    by (auto simp: step_persists_def split: option.splits sum.splits)
  from simulated_step_sound [OF received_ok s] w show ?thesis by (auto simp del: split_paired_Ex)
qed

section \<open>Crashes\<close>

lemma restart_applied:
  assumes "restart sm i cfg s appl p nonce = Some r'" and "i < replica_count cfg"
    and "ps_last_normal_view p \<le> ps_view_number p"
  shows "appl \<le> applied r' \<and> config r' = cfg \<and> self_id r' = i"
proof -
  from restart_good [OF assms] obtain r where r: "restart_from i cfg s appl p nonce = Some r"
    and g: "good (unsettled (boot_state sm r appl p)) r'" by blast
  note b = restart_from_booting [OF r assms(2,3)]
  from good_progress [OF g] show ?thesis
    by (auto simp: progress_def unsettled_def boot_state_def Let_def load_client_table_def b)
qed

lemma owner_restart:
  assumes ok: "owner_ok d r h" and crash: "disk_crash d landed = Some (d', out)"
    and step: "disk_restart d' (self_id r) (config r) nonce = Some r'"
  shows "owner_ok d' r' h \<and> config r' = config r \<and> self_id r' = self_id r"
proof -
  let ?N = "disk_node d r h"
  have p: "dk_state d' = dk_state d \<or> (\<exists>w. dk_outstanding d = Some w \<and> ps_apply (dk_state d) w = Some (dk_state d'))"
    and out: "dk_outstanding d' = None" "dk_applied d' = dk_applied d"
    using crash by (auto simp: disk_crash_def Let_def bind_eq_Some_conv split: option.splits if_splits)
  have kept: "ps_log_start (dk_state d') \<le> dk_applied d'"
    using p ok by (auto simp: owner_ok_def flush_ok_def out dest!: ps_apply_log_start)
  from p obtain w where "dk_state d' = nd_disk ?N \<or> nd_out ?N = Some w \<and> ps_apply (nd_disk ?N) w = Some (dk_state d')"
    by (auto simp: disk_node_def)
  from node_step.crash [OF this kept, of acc_sm "dk_state_machine d'" nonce r']
  have ns: "node_step acc_sm ?N (disk_node d' r' h)"
    using step by (simp add: disk_node_def disk_restart_def out)
  then have reach: "reachable acc_sm (disk_node d' r' h)"
    using ok by (auto simp: owner_ok_def intro: reachable.step)
  have "ps_ok (dk_state d')" using reachable_inv [OF reach] by (simp add: node_inv_def disk_inv_def disk_node_def)
  moreover have "self_id r < replica_count (config r)"
    using owner_ok_inv [OF ok] by (simp add: node_inv_def replica_inv_def shape_inv_def disk_node_def)
  ultimately have "dk_applied d' \<le> applied r' \<and> config r' = config r \<and> self_id r' = self_id r"
    using restart_applied [OF step [unfolded disk_restart_def]] by (simp add: ps_ok_def)
  with reach kept show ?thesis by (simp add: owner_ok_def flush_ok_def out)
qed

lemma disk_crash_total: "owner_ok d r h \<Longrightarrow> disk_crash d landed \<noteq> None"
  using owner_ok_inv [of d r h]
  by (auto simp: disk_crash_def Let_def node_inv_def nd_target_def disk_node_def split: option.splits)

end
