(* ===== verification/Sim_Network.thy ===== *)
theory Sim_Network
  imports Complex_Main Sim_Disk
begin

text \<open>
  \<open>src/simulator/network.rs\<close>: the simulated network.  What chance decides of a message is an
  argument: whether it is lost, whether it is sent twice, and the delay of each copy beyond the
  minimum, of which \<open>sample_delay\<close> makes a delay.
\<close>

section \<open>The network\<close>

datatype origin = FromReplica ReplicaID | FromClient nat

record envelope =
  env_from :: origin
  env_to :: ReplicaID
  env_sent_at :: nat
  env_due_at :: nat
  env_message :: sim_message

fun message_kind :: "sim_message \<Rightarrow> string" where
  "message_kind (Register _) = ''Register''"
| "message_kind (Request _ _ _ _ _) = ''Request''"
| "message_kind (Query _ _ _) = ''Query''"
| "message_kind (ConfirmView _ _) = ''ConfirmView''"
| "message_kind (ConfirmViewOk _ _ _) = ''ConfirmViewOk''"
| "message_kind (Prepare _ _ _ _) = ''Prepare''"
| "message_kind (PrepareOk _ _ _) = ''PrepareOk''"
| "message_kind (Commit _ _) = ''Commit''"
| "message_kind (GetState _ _ _) = ''GetState''"
| "message_kind (NewState _ _ _ _) = ''NewState''"
| "message_kind (GetChunk _ _ _) = ''GetChunk''"
| "message_kind (NewChunk _ _ _ _ _) = ''NewChunk''"
| "message_kind (StartViewChange _ _) = ''StartViewChange''"
| "message_kind (DoViewChange _ _ _ _ _) = ''DoViewChange''"
| "message_kind (StartView _ _ _) = ''StartView''"
| "message_kind (Recovery _ _ _) = ''Recovery''"
| "message_kind (RecoveryResponse _ _ _ _) = ''RecoveryResponse''"

text \<open>
  A probability is a rational here.  \<open>gen_bool\<close> of the library \<open>rand\<close> never draws true at zero
  and always does at one; in between chance decides.
\<close>

definition happens :: "rat \<Rightarrow> bool \<Rightarrow> bool" where
  "happens p chance \<longleftrightarrow> 0 < p \<and> (1 \<le> p \<or> chance)"

record network_options =
  no_loss_probability :: rat
  no_replay_probability :: rat
  no_delay_min :: nat
  no_delay_mean :: nat
  no_fault_client_messages :: bool

definition network_perfect :: network_options where
  "network_perfect = \<lparr>no_loss_probability = 0, no_replay_probability = 0, no_delay_min = 0, no_delay_mean = 0,
     no_fault_client_messages = False\<rparr>"

datatype options_error = BadProbability string | BadOption string

definition probability_ok :: "rat \<Rightarrow> bool" where
  "probability_ok p \<longleftrightarrow> 0 \<le> p \<and> p \<le> 1"

fun check_probabilities :: "(string \<times> rat) list \<Rightarrow> options_error + unit" where
  "check_probabilities [] = Inr ()"
| "check_probabilities ((name, p) # ps) =
     (if probability_ok p then check_probabilities ps else Inl (BadProbability name))"

definition network_validate :: "network_options \<Rightarrow> options_error + unit" where
  "network_validate opts =
     (case check_probabilities [(''packet_loss_probability'', no_loss_probability opts),
        (''packet_replay_probability'', no_replay_probability opts)] of
        Inl e \<Rightarrow> Inl e
      | Inr _ \<Rightarrow> if no_delay_min opts \<le> no_delay_mean opts then Inr ()
               else Inl (BadOption ''one_way_delay_min''))"

record message_summary =
  ms_sent :: nat
  ms_delivered :: nat
  ms_lost :: nat
  ms_replayed :: nat
  ms_delayed :: nat

definition summary_default :: message_summary where
  "summary_default = \<lparr>ms_sent = 0, ms_delivered = 0, ms_lost = 0, ms_replayed = 0, ms_delayed = 0\<rparr>"

record network =
  nw_options :: network_options
  nw_queue :: "((nat \<times> nat) \<times> envelope) list"
  nw_replies :: "((nat \<times> nat) \<times> i64 reply) list"
  nw_seq :: nat
  nw_summary :: message_summary

definition network_new :: "network_options \<Rightarrow> network" where
  "network_new opts = \<lparr>nw_options = opts, nw_queue = [], nw_replies = [], nw_seq = 0, nw_summary = summary_default\<rparr>"

definition set_options :: "network \<Rightarrow> network_options \<Rightarrow> network" where
  "set_options nw opts = nw\<lparr>nw_options := opts\<rparr>"

definition net_pending :: "network \<Rightarrow> nat" where
  "net_pending nw = length (nw_queue nw) + length (nw_replies nw)"

definition in_flight_messages :: "network \<Rightarrow> envelope list" where
  "in_flight_messages nw = map snd (nw_queue nw)"

record send_choices =
  sc_lost :: bool
  sc_replayed :: bool
  sc_extra1 :: nat
  sc_extra2 :: nat

definition sample_delay :: "network_options \<Rightarrow> nat \<Rightarrow> nat" where
  "sample_delay opts extra =
     (if no_delay_mean opts \<le> no_delay_min opts then no_delay_min opts else no_delay_min opts + extra)"

definition count_sent :: "network \<Rightarrow> network" where
  "count_sent nw = nw\<lparr>nw_summary := (nw_summary nw)\<lparr>ms_sent := ms_sent (nw_summary nw) + 1\<rparr>\<rparr>"

definition count_lost :: "network \<Rightarrow> network" where
  "count_lost nw = nw\<lparr>nw_summary := (nw_summary nw)\<lparr>ms_lost := ms_lost (nw_summary nw) + 1\<rparr>\<rparr>"

definition count_replayed :: "network \<Rightarrow> network" where
  "count_replayed nw = nw\<lparr>nw_summary := (nw_summary nw)\<lparr>ms_replayed := ms_replayed (nw_summary nw) + 1\<rparr>\<rparr>"

definition count_delivered :: "nat \<Rightarrow> network \<Rightarrow> network" where
  "count_delivered k nw = nw\<lparr>nw_summary := (nw_summary nw)\<lparr>ms_delivered := ms_delivered (nw_summary nw) + k\<rparr>\<rparr>"

definition count_delayed :: "nat \<Rightarrow> network \<Rightarrow> network" where
  "count_delayed delay nw =
     (if no_delay_min (nw_options nw) < delay
      then nw\<lparr>nw_summary := (nw_summary nw)\<lparr>ms_delayed := ms_delayed (nw_summary nw) + 1\<rparr>\<rparr> else nw)"

definition enqueue_at :: "network \<Rightarrow> nat \<Rightarrow> nat \<Rightarrow> origin \<Rightarrow> ReplicaID \<Rightarrow> sim_message \<Rightarrow> network" where
  "enqueue_at nw now due from dst msg =
     (let nw = nw\<lparr>nw_seq := nw_seq nw + 1\<rparr>
      in nw\<lparr>nw_queue := bt_insert (due, nw_seq nw) \<lparr>env_from = from, env_to = dst, env_sent_at = now,
           env_due_at = due, env_message = msg\<rparr> (nw_queue nw)\<rparr>)"

definition enqueue :: "network \<Rightarrow> nat \<Rightarrow> origin \<Rightarrow> ReplicaID \<Rightarrow> sim_message \<Rightarrow> nat \<Rightarrow> network" where
  "enqueue nw now from dst msg extra =
     (let delay = sample_delay (nw_options nw) extra
      in enqueue_at (count_delayed delay nw) now (now + delay) from dst msg)"

fun is_from_client :: "sim_message \<Rightarrow> bool" where
  "is_from_client (Register _) = True"
| "is_from_client (Request _ _ _ _ _) = True"
| "is_from_client (Query _ _ _) = True"
| "is_from_client _ = False"

definition net_send :: "network \<Rightarrow> nat \<Rightarrow> origin \<Rightarrow> ReplicaID \<Rightarrow> sim_message \<Rightarrow> send_choices \<Rightarrow> network" where
  "net_send nw now from dst msg ch =
     (let nw = count_sent nw;
          opts = nw_options nw
      in if is_from_client msg \<and> \<not> no_fault_client_messages opts then enqueue_at nw now now from dst msg
         else if happens (no_loss_probability opts) (sc_lost ch) then
           count_lost nw
         else
           let nw = (if happens (no_replay_probability opts) (sc_replayed ch) then
               enqueue (count_replayed nw)
                 now from dst msg (sc_extra1 ch) else nw)
           in enqueue nw now from dst msg (sc_extra2 ch))"

definition enqueue_reply :: "network \<Rightarrow> nat \<Rightarrow> i64 reply \<Rightarrow> nat \<Rightarrow> network" where
  "enqueue_reply nw now reply extra =
     (let delay = sample_delay (nw_options nw) extra;
          nw = count_delayed delay nw;
          nw = nw\<lparr>nw_seq := nw_seq nw + 1\<rparr>
      in nw\<lparr>nw_replies := bt_insert (now + delay, nw_seq nw) reply (nw_replies nw)\<rparr>)"

definition net_send_reply :: "network \<Rightarrow> nat \<Rightarrow> i64 reply \<Rightarrow> send_choices \<Rightarrow> network \<times> i64 reply option" where
  "net_send_reply nw now reply ch =
     (let nw = count_sent nw;
          opts = nw_options nw
      in if \<not> no_fault_client_messages opts then
           (count_delivered 1 nw, Some reply)
         else if happens (no_loss_probability opts) (sc_lost ch) then
           (count_lost nw, None)
         else
           let replayed = happens (no_replay_probability opts) (sc_replayed ch);
               nw = (if replayed then count_replayed nw
                     else nw);
               nw = enqueue_reply nw now reply (sc_extra1 ch);
               nw = (if replayed then enqueue_reply nw now reply (sc_extra2 ch) else nw)
           in (nw, None))"

text \<open>What is due by \<open>now\<close>: \<open>split_off\<close> at \<open>(now + 1, 0)\<close>.\<close>

definition split_due :: "nat \<Rightarrow> ((nat \<times> nat) \<times> 'a) list \<Rightarrow> ((nat \<times> nat) \<times> 'a) list \<times> ((nat \<times> nat) \<times> 'a) list" where
  "split_due now m = (filter (\<lambda>b. fst b < (now + 1, 0)) m, filter (\<lambda>b. \<not> fst b < (now + 1, 0)) m)"

definition take_due_replies :: "network \<Rightarrow> nat \<Rightarrow> network \<times> i64 reply list" where
  "take_due_replies nw now = (case split_due now (nw_replies nw) of (due, later) \<Rightarrow>
     (count_delivered (length due) (nw\<lparr>nw_replies := later\<rparr>), map snd due))"

definition take_due :: "network \<Rightarrow> nat \<Rightarrow> network \<times> envelope list" where
  "take_due nw now = (case split_due now (nw_queue nw) of (due, later) \<Rightarrow>
     (count_delivered (length due) (nw\<lparr>nw_queue := later\<rparr>), map snd due))"

section \<open>What it does to messages\<close>

text \<open>
  The keys are in order and no later than the sequence number, a message is filed under the
  tick it is due at, and every message sent, or sent twice, was delivered, or lost, or is in
  flight.
\<close>

definition keys_ok :: "nat \<Rightarrow> ((nat \<times> nat) \<times> 'a) list \<Rightarrow> bool" where
  "keys_ok sq m \<longleftrightarrow> bt_wf m \<and> (\<forall>b \<in> set m. snd (fst b) \<le> sq)"

definition network_inv :: "network \<Rightarrow> bool" where
  "network_inv nw \<longleftrightarrow> keys_ok (nw_seq nw) (nw_queue nw) \<and> keys_ok (nw_seq nw) (nw_replies nw)
     \<and> (\<forall>b \<in> set (nw_queue nw). fst (fst b) = env_due_at (snd b) \<and> env_sent_at (snd b) \<le> env_due_at (snd b))
     \<and> ms_sent (nw_summary nw) + ms_replayed (nw_summary nw)
         = ms_delivered (nw_summary nw) + ms_lost (nw_summary nw) + net_pending nw"

lemma keys_ok_insert:
  assumes "keys_ok sq m"
  shows "keys_ok (Suc sq) (bt_insert (due, Suc sq) v m)" and "length (bt_insert (due, Suc sq) v m) = Suc (length m)"
    and "set (bt_insert (due, Suc sq) v m) = insert ((due, Suc sq), v) (set m)"
proof -
  have new: "(due, Suc sq) \<notin> fst ` set m" using assms by (fastforce simp: keys_ok_def)
  show set: "set (bt_insert (due, Suc sq) v m) = insert ((due, Suc sq), v) (set m)"
    using new by (induction "(due, Suc sq)" v m rule: bt_insert.induct) auto
  show "length (bt_insert (due, Suc sq) v m) = Suc (length m)"
    using new by (induction "(due, Suc sq)" v m rule: bt_insert.induct) auto
  show "keys_ok (Suc sq) (bt_insert (due, Suc sq) v m)"
    using assms unfolding keys_ok_def set by (auto simp: bt_wf_insert intro: le_SucI)
qed

lemma keys_ok_Suc: "keys_ok sq m \<Longrightarrow> keys_ok (Suc sq) m"
  by (auto simp: keys_ok_def intro: le_SucI)

lemma keys_ok_filter: "keys_ok sq m \<Longrightarrow> keys_ok sq (filter P m)"
  by (simp add: keys_ok_def bt_wf_filter)

lemma network_inv_new: "network_inv (network_new opts)"
  by (simp add: network_inv_def network_new_def keys_ok_def net_pending_def summary_default_def)

lemma network_inv_options: "network_inv (set_options nw opts) = network_inv nw"
  by (simp add: network_inv_def set_options_def net_pending_def)

text \<open>A network that still has \<open>k\<close> copies of what it counted to put in flight.\<close>

definition owes :: "nat \<Rightarrow> network \<Rightarrow> bool" where
  "owes k nw \<longleftrightarrow> keys_ok (nw_seq nw) (nw_queue nw) \<and> keys_ok (nw_seq nw) (nw_replies nw)
     \<and> (\<forall>b \<in> set (nw_queue nw). fst (fst b) = env_due_at (snd b) \<and> env_sent_at (snd b) \<le> env_due_at (snd b))
     \<and> ms_sent (nw_summary nw) + ms_replayed (nw_summary nw)
         = ms_delivered (nw_summary nw) + ms_lost (nw_summary nw) + net_pending nw + k"

lemma owes_0: "owes 0 nw = network_inv nw"
  by (simp add: owes_def network_inv_def)

lemma owes_counts:
  "owes k nw \<Longrightarrow> owes (Suc k) (count_sent nw)"
  "owes k nw \<Longrightarrow> owes (Suc k) (count_replayed nw)"
  "owes (Suc k) nw \<Longrightarrow> owes k (count_lost nw)"
  "owes (Suc k) nw \<Longrightarrow> owes k (count_delivered 1 nw)"
  "owes k nw \<Longrightarrow> owes k (count_delayed d nw)"
  by (simp_all add: owes_def net_pending_def count_sent_def count_lost_def count_replayed_def count_delivered_def
      count_delayed_def)

lemma counts_options [simp]:
  "nw_options (count_sent nw) = nw_options nw" "nw_options (count_lost nw) = nw_options nw"
  "nw_options (count_replayed nw) = nw_options nw"
  by (simp_all add: count_sent_def count_lost_def count_replayed_def)

lemma owes_enqueue_at: "owes (Suc k) nw \<Longrightarrow> now \<le> due \<Longrightarrow> owes k (enqueue_at nw now due from dst msg)"
  by (auto simp: owes_def net_pending_def enqueue_at_def Let_def keys_ok_insert keys_ok_Suc)

lemma owes_enqueue: "owes (Suc k) nw \<Longrightarrow> owes k (enqueue nw now from dst msg extra)"
  by (simp add: enqueue_def Let_def owes_enqueue_at owes_counts(5))

lemma owes_enqueue_reply: "owes (Suc k) nw \<Longrightarrow> owes k (enqueue_reply nw now reply extra)"
  unfolding enqueue_reply_def Let_def
  by (drule owes_counts(5) [of "Suc k" nw "sample_delay (nw_options nw) extra"])
    (auto simp: owes_def net_pending_def keys_ok_insert keys_ok_Suc)

lemma network_inv_send: "network_inv nw \<Longrightarrow> network_inv (net_send nw now from dst msg ch)"
proof -
  assume "network_inv nw"
  then have "owes (Suc 0) (count_sent nw)"
    by (intro owes_counts) (simp add: owes_0)
  then have "owes 0 (net_send nw now from dst msg ch)"
    unfolding net_send_def Let_def
    by (auto intro: owes_enqueue_at owes_counts(3) owes_enqueue owes_counts(2) simp del: One_nat_def)
  then show ?thesis by (simp add: owes_0)
qed

lemma network_inv_reply: "network_inv nw \<Longrightarrow> network_inv (fst (net_send_reply nw now reply ch))"
proof -
  assume "network_inv nw"
  then have "owes (Suc 0) (count_sent nw)"
    by (intro owes_counts) (simp add: owes_0)
  then have "owes 0 (fst (net_send_reply nw now reply ch))"
    unfolding net_send_reply_def Let_def
    by (auto intro: owes_counts(3,4) owes_enqueue_reply owes_counts(2) simp del: One_nat_def)
  then show ?thesis by (simp add: owes_0)
qed

lemma split_due_length: "split_due now m = (due, later) \<Longrightarrow> length m = length due + length later"
  by (auto simp: split_due_def sum_length_filter_compl)

lemma network_inv_take:
  "network_inv nw \<Longrightarrow> network_inv (fst (take_due nw now)) \<and> network_inv (fst (take_due_replies nw now))"
  using split_due_length [of now "nw_queue nw"] split_due_length [of now "nw_replies nw"]
  by (auto simp: network_inv_def take_due_def take_due_replies_def count_delivered_def net_pending_def split_due_def
      intro: keys_ok_filter)

text \<open>
  C29: the network loses no message but those it counts as lost, and makes up none: whatever it
  is asked, the messages sent and sent twice are those delivered, lost and in flight together.
\<close>

theorem network_conserves:
  assumes "network_inv nw"
  shows "network_inv (network_new opts) \<and> network_inv (set_options nw opts)
    \<and> network_inv (net_send nw now from dst msg ch) \<and> network_inv (fst (net_send_reply nw now reply ch))
    \<and> network_inv (fst (take_due nw now)) \<and> network_inv (fst (take_due_replies nw now))"
  using assms by (simp add: network_inv_new network_inv_options network_inv_send network_inv_reply network_inv_take)

definition busy_network :: network where
  "busy_network = net_send (network_new \<lparr>no_loss_probability = 1 / 2, no_replay_probability = 1 / 2, no_delay_min = 1, no_delay_mean = 3,
     no_fault_client_messages = True\<rparr>) 5 (FromReplica 0) 1 (Commit 0 0)
     \<lparr>sc_lost = False, sc_replayed = True, sc_extra1 = 4, sc_extra2 = 0\<rparr>"

theorem network_conserves_witness:
  "network_inv (fst (take_due busy_network 6)) \<and> net_pending (fst (take_due busy_network 6)) = 1"
proof
  have "network_inv busy_network" unfolding busy_network_def by (intro network_inv_send network_inv_new)
  from network_conserves [OF this] show "network_inv (fst (take_due busy_network 6))" by blast
  show "net_pending (fst (take_due busy_network 6)) = 1" by code_simp
qed

lemma due_iff: "network_inv nw \<Longrightarrow> b \<in> set (nw_queue nw) \<Longrightarrow> fst b < (now + 1, 0) \<longleftrightarrow> env_due_at (snd b) \<le> now"
  by (cases "fst b") (auto simp: network_inv_def less_Suc_eq_le)

lemma sorted_due:
  assumes "bt_wf m" and "\<forall>b \<in> set m. fst (fst b) = env_due_at (snd b)"
  shows "sorted (map env_due_at (map snd m))"
  using assms by (induction m) (fastforce simp: bt_wf_def less_prod_def)+

text \<open>
  C30: a tick hands over exactly the messages in flight that are due by then, each once, in the
  order they are due, and leaves the rest in flight, in order too; and a message sent over a
  perfect network is handed over in the tick it was sent in.
\<close>

theorem delivers_what_is_due:
  assumes "network_inv nw" and "take_due nw now = (nw', due)"
  shows "due = filter (\<lambda>e. env_due_at e \<le> now) (in_flight_messages nw)
    \<and> in_flight_messages nw' = filter (\<lambda>e. now < env_due_at e) (in_flight_messages nw)
    \<and> sorted (map env_due_at due)
    \<and> (nw_options nw = network_perfect \<longrightarrow>
        (\<exists>e \<in> set (snd (take_due (net_send nw now from dst msg ch) now)).
           env_to e = dst \<and> env_from e = from \<and> env_message e = msg))"
proof (intro conjI impI)
  have P: "filter (\<lambda>b. fst b < (now + 1, 0)) (nw_queue nw) = filter (\<lambda>b. env_due_at (snd b) \<le> now) (nw_queue nw)"
    "filter (\<lambda>b. \<not> fst b < (now + 1, 0)) (nw_queue nw) = filter (\<lambda>b. now < env_due_at (snd b)) (nw_queue nw)"
    using due_iff [OF assms(1)] by (auto intro!: filter_cong simp: not_le simp del: less_prod_simp)
  have due: "due = map snd (filter (\<lambda>b. env_due_at (snd b) \<le> now) (nw_queue nw))"
    and nw': "nw_queue nw' = filter (\<lambda>b. now < env_due_at (snd b)) (nw_queue nw)"
    using assms(2) unfolding take_due_def split_due_def P by (auto simp: count_delivered_def)
  show "due = filter (\<lambda>e. env_due_at e \<le> now) (in_flight_messages nw)"
    by (simp add: due in_flight_messages_def filter_map comp_def)
  show "in_flight_messages nw' = filter (\<lambda>e. now < env_due_at e) (in_flight_messages nw)"
    by (simp add: nw' in_flight_messages_def filter_map comp_def)
  show "sorted (map env_due_at due)"
    unfolding due using assms(1) by (intro sorted_due) (auto simp: network_inv_def keys_ok_def bt_wf_filter)
  assume perfect: "nw_options nw = network_perfect"
  have "keys_ok (nw_seq nw) (nw_queue nw)" using assms(1) by (simp add: network_inv_def)
  from keys_ok_insert(3) [OF this]
  show "\<exists>e \<in> set (snd (take_due (net_send nw now from dst msg ch) now)).
      env_to e = dst \<and> env_from e = from \<and> env_message e = msg"
    using perfect
    by (simp add: take_due_def split_due_def net_send_def enqueue_def enqueue_at_def network_perfect_def Let_def
        count_delayed_def happens_def sample_delay_def count_sent_def, intro exI [of _ now] exI [of _ "Suc (nw_seq nw)"]
        exI [of _ "\<lparr>env_from = from, env_to = dst, env_sent_at = now, env_due_at = now, env_message = msg\<rparr>"]) simp
qed

theorem delivers_what_is_due_witness:
  "map env_message (snd (take_due busy_network 6)) = [Commit 0 0]"
proof -
  have inv: "network_inv busy_network" unfolding busy_network_def by (intro network_inv_send network_inv_new)
  obtain nw' due where t: "take_due busy_network 6 = (nw', due)" by (cases "take_due busy_network 6")
  have "map env_message (filter (\<lambda>e. env_due_at e \<le> 6) (in_flight_messages busy_network)) = [Commit 0 0]"
    by code_simp
  with delivers_what_is_due [OF inv t] t show ?thesis by simp
qed

end
