(* ===== verification/Sim_Options.thy ===== *)
theory Sim_Options
  imports Sim_Network
begin

text \<open>
  \<open>Options\<close> of \<open>src/simulator/lib.rs\<close>: what configures a simulation, how it is drawn from a
  generator and what is checked of it.  A probability is a rational.
\<close>

section \<open>Options\<close>

record options =
  so_replica_count :: nat
  so_client_count :: nat
  so_clients_max :: nat
  so_in_flight_max :: nat
  so_query_probability :: rat
  so_network :: network_options
  so_requests_max :: nat
  so_request_probability :: rat
  so_request_idle_on_probability :: rat
  so_request_idle_off_probability :: rat
  so_heartbeat_interval :: nat
  so_replica_crash_probability :: rat
  so_replica_crash_stability :: nat
  so_replica_restart_probability :: rat
  so_replica_restart_stability :: nat
  so_replica_reboot_probability :: rat
  so_replica_power_loss_probability :: rat
  so_replica_process_crash_probability :: rat
  so_blackout_probability :: rat
  so_replica_flush_probability :: rat
  so_checkpoint_power_loss_probability :: rat
  so_step_power_loss_probability :: rat
  so_log_retention :: nat
  so_full_core :: bool
  so_primary_timeout :: nat
  so_write_out_probability :: rat
  so_write_land_probability :: rat

section \<open>Drawing them\<close>

text \<open>
  The generator is a parameter, the outcome of each draw in the order of the source: a draw from
  \<open>a..=b\<close> is some number in that range, and \<open>gen_bool\<close> is what the parity of the outcome says.
\<close>

definition gen_from :: "(nat \<Rightarrow> nat) \<Rightarrow> nat \<Rightarrow> nat \<Rightarrow> nat \<Rightarrow> nat" where
  "gen_from d k a b = a + d k mod (b - a + 1)"

definition gen_flag :: "(nat \<Rightarrow> nat) \<Rightarrow> nat \<Rightarrow> bool" where
  "gen_flag d k = odd (d k)"

definition percent :: "nat \<Rightarrow> rat" where
  "percent n = of_nat n / 100"

definition per_mille :: "nat \<Rightarrow> rat" where
  "per_mille n = of_nat n / 1000"

definition per_100000 :: "nat \<Rightarrow> rat" where
  "per_100000 n = of_nat n / 100000"

definition swarm_timeout :: "nat \<Rightarrow> nat \<Rightarrow> nat \<Rightarrow> nat" where
  "swarm_timeout drawn mean interval = max drawn ((5 * mean + interval - 1) div interval)"

definition swarm :: "(nat \<Rightarrow> nat) \<Rightarrow> options" where
  "swarm d =
     (let delay_min = gen_from d 0 0 2;
          delay_mean = gen_from d 1 delay_min 10;
          interval = gen_from d 2 1 50;
          timeout = swarm_timeout (gen_from d 3 2 10) delay_mean interval;
          client_count = gen_from d 5 1 8
      in \<lparr>so_replica_count = gen_from d 4 3 7,
          so_client_count = client_count,
          so_clients_max = (if gen_flag d 27 then gen_from d 28 1 client_count else client_count),
          so_in_flight_max = gen_from d 29 1 4,
          so_query_probability = percent (gen_from d 30 0 50),
          so_network = \<lparr>no_loss_probability = percent (gen_from d 6 0 30),
             no_replay_probability = percent (gen_from d 7 0 50),
             no_delay_min = delay_min, no_delay_mean = delay_mean, no_fault_client_messages = gen_flag d 8\<rparr>,
          so_requests_max = 10000,
          so_request_probability = percent (gen_from d 9 1 100),
          so_request_idle_on_probability = percent (gen_from d 10 0 20),
          so_request_idle_off_probability = percent (gen_from d 11 10 20),
          so_heartbeat_interval = interval,
          so_replica_crash_probability = per_100000 (gen_from d 12 0 20),
          so_replica_crash_stability = gen_from d 13 0 1000,
          so_replica_restart_probability = per_mille (gen_from d 14 1 10),
          so_replica_restart_stability = gen_from d 15 0 1000,
          so_replica_reboot_probability = percent (gen_from d 16 0 100),
          so_replica_power_loss_probability = percent (gen_from d 17 0 100),
          so_replica_process_crash_probability = percent (gen_from d 23 0 100),
          so_blackout_probability = per_100000 (gen_from d 18 0 5),
          so_replica_flush_probability = per_mille (gen_from d 19 0 100),
          so_checkpoint_power_loss_probability = percent (gen_from d 20 0 50),
          so_step_power_loss_probability = per_100000 (gen_from d 21 0 20),
          so_log_retention = gen_from d 22 0 50,
          so_full_core = False,
          so_primary_timeout = timeout,
          so_write_out_probability = (if gen_flag d 24 then 0 else percent (gen_from d 25 1 90)),
          so_write_land_probability = percent (gen_from d 26 5 50)\<rparr>)"

definition lite :: "(nat \<Rightarrow> nat) \<Rightarrow> options" where
  "lite d = (swarm d)\<lparr>so_replica_count := 3, so_requests_max := 1000\<rparr>"

section \<open>Checking them\<close>

fun check_options :: "(bool \<times> string) list \<Rightarrow> options_error + unit" where
  "check_options [] = Inr ()"
| "check_options ((ok, name) # cs) = (if ok then check_options cs else Inl (BadOption name))"

definition or_else :: "options_error + unit \<Rightarrow> options_error + unit \<Rightarrow> options_error + unit" where
  "or_else x y = (case x of Inl e \<Rightarrow> Inl e | Inr _ \<Rightarrow> y)"

definition options_validate :: "options \<Rightarrow> options_error + unit" where
  "options_validate so =
     or_else (check_options [(3 \<le> so_replica_count so, ''replica_count''), (1 \<le> so_client_count so, ''client_count''),
       (1 \<le> so_clients_max so, ''clients_max''), (1 \<le> so_in_flight_max so, ''in_flight_max''),
       (1 \<le> so_requests_max so, ''requests_max''), (1 \<le> so_heartbeat_interval so, ''heartbeat_interval''),
       (1 \<le> so_primary_timeout so, ''primary_timeout'')])
     (or_else (check_probabilities [(''request_probability'', so_request_probability so),
       (''request_idle_on_probability'', so_request_idle_on_probability so),
       (''request_idle_off_probability'', so_request_idle_off_probability so),
       (''replica_crash_probability'', so_replica_crash_probability so),
       (''replica_reboot_probability'', so_replica_reboot_probability so),
       (''replica_restart_probability'', so_replica_restart_probability so),
       (''replica_power_loss_probability'', so_replica_power_loss_probability so),
       (''replica_process_crash_probability'', so_replica_process_crash_probability so),
       (''blackout_probability'', so_blackout_probability so),
       (''replica_flush_probability'', so_replica_flush_probability so),
       (''checkpoint_power_loss_probability'', so_checkpoint_power_loss_probability so),
       (''step_power_loss_probability'', so_step_power_loss_probability so),
       (''write_out_probability'', so_write_out_probability so),
       (''write_land_probability'', so_write_land_probability so),
       (''query_probability'', so_query_probability so)])
     (or_else (check_options [(0 < so_request_probability so, ''request_probability''),
       (0 < so_request_idle_off_probability so, ''request_idle_off_probability''),
       (so_replica_crash_probability so = 0 \<and> so_blackout_probability so = 0 \<or> 0 < so_replica_restart_probability so,
          ''replica_restart_probability''),
       (so_write_out_probability so = 0 \<or> 0 < so_write_land_probability so, ''write_land_probability'')])
     (network_validate (so_network so))))"

section \<open>Drawn options are valid\<close>

lemma gen_from_bounds: "a \<le> b \<Longrightarrow> a \<le> gen_from d k a b \<and> gen_from d k a b \<le> b"
proof -
  assume "a \<le> b"
  moreover have "d k mod (b - a + 1) < b - a + 1" by simp
  ultimately show ?thesis unfolding gen_from_def by linarith
qed

lemma percent_ok: "n \<le> 100 \<Longrightarrow> probability_ok (percent n)" and percent_pos: "1 \<le> n \<Longrightarrow> 0 < percent n"
  by (simp_all add: probability_ok_def percent_def)

lemma per_mille_ok: "n \<le> 1000 \<Longrightarrow> probability_ok (per_mille n)" and per_mille_pos: "1 \<le> n \<Longrightarrow> 0 < per_mille n"
  by (simp_all add: probability_ok_def per_mille_def)

lemma per_100000_ok: "n \<le> 100000 \<Longrightarrow> probability_ok (per_100000 n)"
  by (simp add: probability_ok_def per_100000_def)

lemma probability_ok_0: "probability_ok 0"
  by (simp add: probability_ok_def)

lemma swarm_counts:
  "1 \<le> so_replica_count (swarm d) \<and> 3 \<le> so_replica_count (swarm d) \<and> 1 \<le> so_client_count (swarm d)
   \<and> 1 \<le> so_clients_max (swarm d) \<and> 1 \<le> so_in_flight_max (swarm d) \<and> 1 \<le> so_heartbeat_interval (swarm d)
   \<and> 1 \<le> so_primary_timeout (swarm d)"
proof -
  have c: "1 \<le> gen_from d 5 1 8" using gen_from_bounds [of 1 8 d 5] by simp
  have "2 \<le> gen_from d 3 2 10" using gen_from_bounds [of 2 10 d 3] by simp
  then have "1 \<le> swarm_timeout (gen_from d 3 2 10) m i" for m i
    by (simp add: swarm_timeout_def le_max_iff_disj)
  moreover have "1 \<le> gen_from d 28 1 (gen_from d 5 1 8)" using gen_from_bounds [OF c, of d 28] by simp
  moreover have "3 \<le> gen_from d 4 3 7" using gen_from_bounds [of 3 7 d 4] by simp
  moreover have "1 \<le> gen_from d 29 1 4" using gen_from_bounds [of 1 4 d 29] by simp
  moreover have "1 \<le> gen_from d 2 1 50" using gen_from_bounds [of 1 50 d 2] by simp
  ultimately show ?thesis using c by (simp add: swarm_def Let_def)
qed

lemma swarm_probabilities:
  "list_all (\<lambda>p. probability_ok p) [so_request_probability (swarm d), so_request_idle_on_probability (swarm d),
     so_request_idle_off_probability (swarm d), so_replica_crash_probability (swarm d),
     so_replica_reboot_probability (swarm d), so_replica_restart_probability (swarm d),
     so_replica_power_loss_probability (swarm d), so_replica_process_crash_probability (swarm d),
     so_blackout_probability (swarm d), so_replica_flush_probability (swarm d),
     so_checkpoint_power_loss_probability (swarm d), so_step_power_loss_probability (swarm d),
     so_write_out_probability (swarm d), so_write_land_probability (swarm d), so_query_probability (swarm d),
     no_loss_probability (so_network (swarm d)), no_replay_probability (so_network (swarm d))]"
  unfolding swarm_def Let_def
  by (auto intro!: percent_ok per_mille_ok per_100000_ok probability_ok_0
      gen_from_bounds [THEN conjunct2, THEN order_trans])

lemma swarm_positive:
  "0 < so_request_probability (swarm d)" "0 < so_request_idle_off_probability (swarm d)"
  "0 < so_replica_restart_probability (swarm d)" "0 < so_write_land_probability (swarm d)"
  "no_delay_min (so_network (swarm d)) \<le> no_delay_mean (so_network (swarm d))"
proof -
  have low: "1 \<le> gen_from d k a b" if "1 \<le> a" "a \<le> b" for k a b
    using gen_from_bounds [OF that(2), of d k] that(1) by simp
  show "0 < so_request_probability (swarm d)" "0 < so_request_idle_off_probability (swarm d)"
    "0 < so_replica_restart_probability (swarm d)" "0 < so_write_land_probability (swarm d)"
    by (auto intro!: percent_pos per_mille_pos low simp: swarm_def Let_def simp del: One_nat_def)
  have "gen_from d 0 0 2 \<le> 10" using gen_from_bounds [of 0 2 d 0] by simp
  then show "no_delay_min (so_network (swarm d)) \<le> no_delay_mean (so_network (swarm d))"
    using gen_from_bounds [of "gen_from d 0 0 2" 10 d 1] by (simp add: swarm_def Let_def)
qed

lemma validate_swarm: "options_validate (swarm d) = Inr ()"
  using swarm_counts [of d] swarm_probabilities [of d] swarm_positive [of d]
  by (simp add: options_validate_def or_else_def network_validate_def) (simp add: swarm_def Let_def)

text \<open>
  C34: whatever the generator draws, the options drawn from it pass the checks that a simulation
  begins with, for large runs and for small ones.
\<close>

theorem swarm_options_valid:
  "options_validate (swarm d) = Inr () \<and> options_validate (lite d) = Inr ()"
  using validate_swarm [of d] swarm_counts [of d]
  by (auto simp: lite_def options_validate_def or_else_def split: if_splits)

end
