(* ===== verification/Sim_Properties.thy ===== *)
theory Sim_Properties
  imports Sim_Owner Sim_Network Sim_Model
begin

text \<open>
  The checks of \<open>src/simulator/properties.rs\<close> that the simulator runs on the whole system.  A
  check reads the system, keeps what it verified so far, and ends with an error where the code
  returns one; it has no value where the code panics.
\<close>

section \<open>The system as the checks see it\<close>

record answer =
  an_tick :: nat
  an_client_id :: ClientID
  an_query_number :: QueryNumber
  an_floor :: i64
  an_own :: i64
  an_result :: i64

record sim_context =
  cx_tick :: nat
  cx_config :: config
  cx_model :: model
  cx_replicas :: "sim_replica list"
  cx_disks :: "disk list"
  cx_committed :: "acc_op log_entry list"
  cx_replies :: "i64 reply list"
  cx_answers :: "answer list"
  cx_core :: "ReplicaID list"

datatype property_error =
    OpNumberOff ReplicaID
  | CommitPastLog ReplicaID
  | CompactedPastCommit ReplicaID
  | CommitBackwards ReplicaID
  | AppliedPastCommit ReplicaID
  | AppliedBehind ReplicaID
  | ExecutedCount ReplicaID
  | ExecutedOther ReplicaID
  | ValueOff ReplicaID
  | TableNotMachines ReplicaID
  | TableNotLogs ReplicaID
  | PrefixDiffers ReplicaID OpNumber
  | CommittedTwice OpNumber
  | NoSuchSession "i64 reply"
  | NotExecuted "i64 reply"
  | OtherResult "i64 reply"
  | NotEvicted "i64 reply"
  | NoReply ClientID OpNumber RequestNumber
  | QueryOutOfOrder ClientID QueryNumber
  | TooFewCopies ReplicaID OpNumber
  | NotOnDisk ReplicaID OpNumber
  | NotBacked ReplicaID string ViewNumber
  | CoreOpNumber ReplicaID
  | CoreCommit ReplicaID
  | CoreEntry ReplicaID OpNumber
  | CoreValue ReplicaID

section \<open>Loops that may fail\<close>

definition require :: "bool \<Rightarrow> 'e \<Rightarrow> ('e + unit) option" where
  "require b e = Some (if b then Inr () else Inl e)"

fun try_each :: "('a \<Rightarrow> 's \<Rightarrow> ('e + 's) option) \<Rightarrow> 'a list \<Rightarrow> 's \<Rightarrow> ('e + 's) option" where
  "try_each f [] s = Some (Inr s)"
| "try_each f (x # xs) s = and_then (f x s) (try_each f xs)"

text \<open>\<open>Vec::resize\<close>.\<close>

definition resized :: "nat \<Rightarrow> 'a \<Rightarrow> 'a list \<Rightarrow> 'a list" where
  "resized n x xs = take n xs @ replicate (n - length xs) x"

lemma require_simps [simp]: "require True e = Some (Inr ())" "require False e = Some (Inl e)"
  by (simp_all add: require_def)

lemma require_ok [simp]: "require b e = Some (Inr u) \<longleftrightarrow> b"
  by (simp add: require_def)

lemma and_then_Inr [simp]: "and_then (Some (Inr a)) f = f a"
  by (simp add: and_then_def)

lemma and_then_Inl: "and_then x f = Some (Inl e) \<longleftrightarrow> x = Some (Inl e) \<or> (\<exists>a. x = Some (Inr a) \<and> f a = Some (Inl e))"
  by (auto simp: and_then_def split: option.splits sum.splits)

lemma and_then_require: "and_then (require b e) f = (if b then f () else Some (Inl e))"
  by (simp add: require_def and_then_def)

lemma length_resized [simp]: "length (resized n x xs) = n"
  by (simp add: resized_def)

section \<open>Commit numbers\<close>

definition check_commit_of :: "ReplicaID \<Rightarrow> sim_replica \<Rightarrow> nat list \<Rightarrow> (property_error + nat list) option" where
  "check_commit_of i r last_commit =
     and_then (require (op_number r = log_start r + length (replica.log r)) (OpNumberOff i)) (\<lambda>_.
     and_then (require (commit_number r \<le> op_number r) (CommitPastLog i)) (\<lambda>_.
     and_then (require (log_start r \<le> commit_number r) (CompactedPastCommit i)) (\<lambda>_. do {
       last \<leftarrow> nth_chk last_commit i;
       and_then (require (last \<le> commit_number r) (CommitBackwards i)) (\<lambda>_.
         Some (Inr (last_commit[i := commit_number r]))) })))"

definition check_commit_number :: "sim_context \<Rightarrow> nat list \<Rightarrow> (property_error + nat list) option" where
  "check_commit_number cx last_commit =
     try_each (\<lambda>(i, r). check_commit_of i r) (enumerate 0 (cx_replicas cx))
       (resized (length (cx_replicas cx)) 0 last_commit)"

section \<open>The state and the committed log\<close>

text \<open>\<open>partition_point\<close> on a list that the condition splits.\<close>

definition partition_point :: "('a \<Rightarrow> bool) \<Rightarrow> 'a list \<Rightarrow> nat" where
  "partition_point P xs = length (takeWhile P xs)"

fun check_executed :: "ReplicaID \<Rightarrow> ((OpNumber \<times> acc_op) \<times> (OpNumber \<times> acc_op)) list \<Rightarrow> i64
   \<Rightarrow> (property_error + i64) option" where
  "check_executed i [] v = Some (Inr v)"
| "check_executed i ((done, expected) # ps) v =
     and_then (require (done = expected) (ExecutedOther i)) (\<lambda>_.
       check_executed i ps (kind_apply (op_kind (snd expected)) v))"

definition check_state_of ::
  "sim_context \<Rightarrow> ReplicaID \<Rightarrow> sim_replica \<Rightarrow> (nat \<times> i64) list \<Rightarrow> (property_error + (nat \<times> i64) list) option" where
  "check_state_of cx i r verified =
     and_then (require (applied r \<le> commit_number r) (AppliedPastCommit i)) (\<lambda>_. do {
       stuck \<leftarrow> (if applied r = commit_number r then Some False
              else do { d \<leftarrow> nth_chk (cx_disks cx) i; Some (dk_outstanding d = None) });
       and_then (require (\<not> stuck) (AppliedBehind i)) (\<lambda>_.
         let s = state_machine r;
             executed = md_executed (cx_model cx);
             expected = partition_point (\<lambda>(n, _). n \<le> applied r) executed
         in and_then (require (length (acc_applied s) = expected) (ExecutedCount i)) (\<lambda>_. do {
              (k, v) \<leftarrow> nth_chk verified i;
              done \<leftarrow> slice_chk (acc_applied s) k expected;
              ex \<leftarrow> slice_chk executed k expected;
              and_then (check_executed i (zip done ex) v) (\<lambda>v.
                let verified = verified[i := (expected, v)]
                in and_then (require (acc_value s = v) (ValueOff i)) (\<lambda>_.
                   and_then (require (client_table r = acc_client_table s) (TableNotMachines i)) (\<lambda>_.
                   and_then (require (applied r < md_fed (cx_model cx) \<or> acc_clients s = md_table (cx_model cx))
                     (TableNotLogs i)) (\<lambda>_. Some (Inr verified))))) })) })"

definition check_state :: "sim_context \<Rightarrow> (nat \<times> i64) list \<Rightarrow> (property_error + (nat \<times> i64) list) option" where
  "check_state cx verified =
     try_each (\<lambda>(i, r). check_state_of cx i r) (enumerate 0 (cx_replicas cx))
       (resized (length (cx_replicas cx)) (0, 0) verified)"

section \<open>Agreement on the committed prefix\<close>

definition check_prefix :: "sim_context \<Rightarrow> nat list \<Rightarrow> (property_error + nat list) option" where
  "check_prefix cx verified =
     try_each (\<lambda>(i, r) verified. do {
         k \<leftarrow> nth_chk verified i;
         and_then (try_each (\<lambda>n u. do {
             e \<leftarrow> nth_chk (replica.log r) (n - log_start r - 1);
             canonical \<leftarrow> nth_chk (cx_committed cx) (n - 1);
             require (canonical = e) (PrefixDiffers i n) }) [max k (log_start r) + 1..<commit_number r + 1] ())
           (\<lambda>_. Some (Inr (verified[i := commit_number r]))) })
       (enumerate 0 (cx_replicas cx)) (resized (length (cx_replicas cx)) 0 verified)"

section \<open>No operation twice\<close>

definition check_no_duplicates :: "sim_context \<Rightarrow> nat \<times> nat set \<Rightarrow> (property_error + (nat \<times> nat set)) option" where
  "check_no_duplicates cx st =
     and_then (try_each (\<lambda>(k, e) seen.
         case e of
           ERequest _ _ _ _ op \<Rightarrow>
             if op_id op \<in> seen then Some (Inl (CommittedTwice (k + 1))) else Some (Inr (insert (op_id op) seen))
         | ERegister _ \<Rightarrow> Some (Inr seen))
       (drop (fst st) (enumerate 0 (cx_committed cx))) (snd st))
     (\<lambda>seen. Some (Inr (length (cx_committed cx), seen)))"

section \<open>Replies\<close>

record replies_check =
  rc_replied :: "(ClientID \<times> OpNumber \<times> RequestNumber) set"
  rc_verified :: nat

fun check_reply :: "model \<Rightarrow> i64 reply \<Rightarrow> replies_check \<Rightarrow> (property_error + replies_check) option" where
  "check_reply m (Registered v c s) st =
     and_then (require ((c, s) \<in> md_sessions m) (NoSuchSession (Registered v c s))) (\<lambda>_. Some (Inr st))"
| "check_reply m (Executed v c s q result) st =
     (case map_of (md_results m) (c, s, q) of
        None \<Rightarrow> Some (Inl (NotExecuted (Executed v c s q result)))
      | Some expected \<Rightarrow>
          and_then (require (result = expected) (OtherResult (Executed v c s q result))) (\<lambda>_.
            Some (Inr (st\<lparr>rc_replied := insert (c, s, q) (rc_replied st)\<rparr>))))"
| "check_reply m (Evicted v c s) st =
     and_then (require ((c, s) \<in> md_evicted m) (NotEvicted (Evicted v c s))) (\<lambda>_. Some (Inr st))"
| "check_reply m (Queried v c q result) st = Some (Inr st)"

definition check_replies :: "sim_context \<Rightarrow> replies_check \<Rightarrow> (property_error + replies_check) option" where
  "check_replies cx st = do {
     fresh \<leftarrow> drop_chk (rc_verified st) (cx_replies cx);
     and_then (try_each (check_reply (cx_model cx)) fresh st) (\<lambda>st.
       Some (Inr (st\<lparr>rc_verified := length (cx_replies cx)\<rparr>))) }"

definition finalize_replies :: "sim_context \<Rightarrow> replies_check \<Rightarrow> (property_error + replies_check) option" where
  "finalize_replies cx st =
     try_each (\<lambda>((c, s, q), _) st.
         and_then (require ((c, s, q) \<in> rc_replied st \<or> (c, s) \<in> md_evicted (cx_model cx)) (NoReply c s q))
           (\<lambda>_. Some (Inr st)))
       (md_results (cx_model cx)) st"

section \<open>Queries\<close>

definition check_queries :: "sim_context \<Rightarrow> nat \<Rightarrow> (property_error + nat) option" where
  "check_queries cx verified = do {
     let executed = (of_nat (length (md_executed (cx_model cx))) :: i64);
     fresh \<leftarrow> drop_chk verified (cx_answers cx);
     and_then (try_each (\<lambda>a u. require (sint (an_floor a) \<le> sint (an_result a) \<and> sint (an_own a) \<le> sint (an_result a)
           \<and> sint (an_result a) \<le> sint executed) (QueryOutOfOrder (an_client_id a) (an_query_number a))) fresh ())
       (\<lambda>_. Some (Inr (length (cx_answers cx)))) }"

section \<open>Copies on disk\<close>

definition check_durability :: "sim_context \<Rightarrow> nat list \<Rightarrow> (property_error + nat list) option" where
  "check_durability cx verified =
     (let quorum = length (cx_replicas cx) div 2 + 1;
          participants = length (filter (\<lambda>d. \<not> ps_recovering (dk_state d)) (cx_disks cx));
          needed = participants + 1 - quorum
      in try_each (\<lambda>(i, r) verified. do {
             k \<leftarrow> nth_chk verified i;
             and_then (try_each (\<lambda>n u. do {
                 e \<leftarrow> nth_chk (cx_committed cx) (n - 1);
                 require (needed \<le> length (filter (\<lambda>d. \<not> ps_recovering (dk_state d) \<and> disk_holds d n e) (cx_disks cx)))
                   (TooFewCopies i n) }) [k + 1..<commit_number r + 1] ())
               (\<lambda>_. Some (Inr (verified[i := commit_number r]))) })
           (enumerate 0 (cx_replicas cx)) (resized (length (cx_replicas cx)) 0 verified))"

definition executed_entry :: "sim_replica \<Rightarrow> OpNumber \<Rightarrow> acc_op log_entry option" where
  "executed_entry r n = do { k \<leftarrow> checked_sub n (log_start r + 1); nth_chk (replica.log r) k }"

definition check_executed_durable_of ::
  "sim_context \<Rightarrow> ReplicaID \<Rightarrow> sim_replica \<Rightarrow> nat list \<Rightarrow> (property_error + nat list) option" where
  "check_executed_durable_of cx i r verified = do {
     d \<leftarrow> nth_chk (cx_disks cx) i;
     k \<leftarrow> nth_chk verified i;
     and_then (try_each (\<lambda>n u.
         require (case executed_entry r n of None \<Rightarrow> False | Some e \<Rightarrow> disk_holds d n e) (NotOnDisk i n))
         [max k (dk_applied d) + 1..<applied r + 1] ())
       (\<lambda>_. Some (Inr (verified[i := applied r]))) }"

definition check_executed_durable :: "sim_context \<Rightarrow> nat list \<Rightarrow> (property_error + nat list) option" where
  "check_executed_durable cx verified =
     try_each (\<lambda>(i, r). check_executed_durable_of cx i r) (enumerate 0 (cx_replicas cx))
       (resized (length (cx_replicas cx)) 0 verified)"

section \<open>Promises\<close>

definition holds_uncommitted :: "acc_op persistent_state \<Rightarrow> sim_replica \<Rightarrow> OpNumber \<Rightarrow> bool" where
  "holds_uncommitted p r n =
     (let from = max (max (commit_number r) (log_start r)) (ps_log_start p)
      in list_all (\<lambda>k. nth_chk (ps_log p) (k - ps_log_start p - 1) = nth_chk (replica.log r) (k - log_start r - 1))
           [from + 1..<min n (op_number r) + 1])"

definition holds_segment :: "acc_op persistent_state \<Rightarrow> acc_op log_segment \<Rightarrow> bool" where
  "holds_segment p seg =
     (let start = seg_start seg;
          skip = ps_log_start p - start;
          es = seg_entries seg;
          from = start + skip - ps_log_start p
      in length es \<le> skip \<or> slice_chk (ps_log p) from (from + length es - skip) = Some (drop skip es))"

fun message_view :: "sim_message \<Rightarrow> ViewNumber" where
  "message_view (Register _) = 0"
| "message_view (Request _ _ _ _ _) = 0"
| "message_view (Query _ _ _) = 0"
| "message_view (GetChunk _ _ _) = 0"
| "message_view (NewChunk _ _ _ _ _) = 0"
| "message_view (ConfirmView v _) = v"
| "message_view (ConfirmViewOk v _ _) = v"
| "message_view (Prepare v _ _ _) = v"
| "message_view (PrepareOk v _ _) = v"
| "message_view (Commit v _) = v"
| "message_view (GetState _ v _) = v"
| "message_view (NewState _ v _ _) = v"
| "message_view (StartViewChange v _) = v"
| "message_view (DoViewChange v _ _ _ _) = v"
| "message_view (StartView v _ _) = v"
| "message_view (Recovery _ _ v) = v"
| "message_view (RecoveryResponse v _ _ _) = v"

fun promise_backed :: "acc_op persistent_state \<Rightarrow> sim_replica \<Rightarrow> sim_message \<Rightarrow> bool" where
  "promise_backed p r (PrepareOk v n _) \<longleftrightarrow>
     \<not> ps_recovering p \<and> (v < ps_last_normal_view p
       \<or> ps_last_normal_view p = v \<and> n \<le> ps_log_start p + length (ps_log p)
         \<and> (v < last_normal_view r \<or> holds_uncommitted p r n))"
| "promise_backed p r (StartViewChange v _) \<longleftrightarrow> v \<le> ps_view_number p"
| "promise_backed p r (DoViewChange v _ lnv seg _) \<longleftrightarrow>
     v \<le> ps_view_number p \<and> (v \<le> ps_last_normal_view p \<or> lnv \<le> ps_last_normal_view p \<and> holds_segment p seg)"
| "promise_backed p r (StartView v seg _) \<longleftrightarrow>
     v \<le> ps_view_number p \<and> (v < ps_last_normal_view p \<or> ps_last_normal_view p = v \<and> holds_segment p seg)"
| "promise_backed p r (Recovery _ _ v) \<longleftrightarrow>
     v \<le> ps_view_number p \<and> (ps_recovering p \<or> v \<le> ps_last_normal_view p)"
| "promise_backed p r (RecoveryResponse v _ _ st) \<longleftrightarrow>
     \<not> ps_recovering p \<and> v \<le> ps_view_number p
     \<and> (v < ps_last_normal_view p \<or> (case st of None \<Rightarrow> True | Some rs \<Rightarrow> holds_segment p (rs_segment rs)))"
| "promise_backed p r _ \<longleftrightarrow> True"

definition check_promise ::
  "ReplicaID \<Rightarrow> sim_replica \<Rightarrow> acc_op persistent_state \<Rightarrow> sim_message \<Rightarrow> property_error + unit" where
  "check_promise i r p m =
     (if promise_backed p r m then Inr () else Inl (NotBacked i (message_kind m) (message_view m)))"

section \<open>Convergence\<close>

definition finalize_convergence :: "sim_context \<Rightarrow> (property_error + unit) option" where
  "finalize_convergence cx = do {
     i0 \<leftarrow> nth_chk (cx_core cx) 0;
     r0 \<leftarrow> nth_chk (cx_replicas cx) i0;
     try_each (\<lambda>i u. do {
         r \<leftarrow> nth_chk (cx_replicas cx) i;
         and_then (require (op_number r = op_number r0) (CoreOpNumber i)) (\<lambda>_.
         and_then (require (commit_number r = op_number r) (CoreCommit i)) (\<lambda>_.
         and_then (try_each (\<lambda>(k, e) u. require (nth_chk (cx_committed cx) (log_start r + k) = Some e)
               (CoreEntry i (log_start r + k + 1))) (enumerate 0 (replica.log r)) ()) (\<lambda>_.
           require (acc_value (state_machine r) = acc_value (state_machine r0)) (CoreValue i)))) })
       (cx_core cx) () }"

section \<open>All of them\<close>

record property_states =
  pp_last_commit :: "nat list"
  pp_state :: "(nat \<times> i64) list"
  pp_prefix :: "nat list"
  pp_seen :: "nat \<times> nat set"
  pp_replies :: replies_check
  pp_answers :: nat
  pp_durability :: "nat list"
  pp_executed :: "nat list"

definition default_properties :: property_states where
  "default_properties = \<lparr>pp_last_commit = [], pp_state = [], pp_prefix = [], pp_seen = (0, {}),
     pp_replies = \<lparr>rc_replied = {}, rc_verified = 0\<rparr>, pp_answers = 0, pp_durability = [], pp_executed = []\<rparr>"

definition properties_restart :: "property_states \<Rightarrow> ReplicaID \<Rightarrow> property_states" where
  "properties_restart pp i = pp\<lparr>pp_last_commit := (pp_last_commit pp)[i := 0], pp_state := (pp_state pp)[i := (0, 0)],
     pp_prefix := (pp_prefix pp)[i := 0], pp_durability := (pp_durability pp)[i := 0],
     pp_executed := (pp_executed pp)[i := 0]\<rparr>"

definition properties_before_steps :: "sim_context \<Rightarrow> property_states \<Rightarrow> (property_error + property_states) option" where
  "properties_before_steps cx pp =
     and_then (check_durability cx (pp_durability pp)) (\<lambda>x. Some (Inr (pp\<lparr>pp_durability := x\<rparr>)))"

definition properties_check :: "sim_context \<Rightarrow> property_states \<Rightarrow> (property_error + property_states) option" where
  "properties_check cx pp =
     and_then (check_commit_number cx (pp_last_commit pp)) (\<lambda>a.
     and_then (check_state cx (pp_state pp)) (\<lambda>b.
     and_then (check_prefix cx (pp_prefix pp)) (\<lambda>c.
     and_then (check_no_duplicates cx (pp_seen pp)) (\<lambda>d.
     and_then (check_replies cx (pp_replies pp)) (\<lambda>e.
     and_then (check_queries cx (pp_answers pp)) (\<lambda>f.
     and_then (check_durability cx (pp_durability pp)) (\<lambda>g.
     and_then (check_executed_durable cx (pp_executed pp)) (\<lambda>h.
       Some (Inr \<lparr>pp_last_commit = a, pp_state = b, pp_prefix = c, pp_seen = d, pp_replies = e,
         pp_answers = f, pp_durability = g, pp_executed = h\<rparr>)))))))))"

definition properties_finalize :: "sim_context \<Rightarrow> property_states \<Rightarrow> (property_error + property_states) option" where
  "properties_finalize cx pp =
     and_then (finalize_replies cx (pp_replies pp)) (\<lambda>x.
     and_then (finalize_convergence cx) (\<lambda>_. Some (Inr (pp\<lparr>pp_replies := x\<rparr>))))"

end
