(* ===== verification/KV_Text.thy ===== *)
theory KV_Text
  imports VSR_Types
begin

text \<open>
  What the kvstore's formats use of Rust's text: words and lines of a string, numbers in
  decimal.  A text is a list of characters; the characters that Unicode counts as white space
  below 256 are all there.  A number is a \<open>usize\<close> or a \<open>u64\<close>, 64 bits.
\<close>

section \<open>Words and lines\<close>

definition is_ws :: "char \<Rightarrow> bool" where
  "is_ws c \<longleftrightarrow> (let n = of_char c :: nat in 9 \<le> n \<and> n \<le> 13 \<or> n = 32 \<or> n = 133 \<or> n = 160)"

definition is_word :: "string \<Rightarrow> bool" where
  "is_word s \<longleftrightarrow> s \<noteq> [] \<and> list_all (\<lambda>c. \<not> is_ws c) s"

text \<open>\<open>str::split_whitespace\<close>.\<close>

fun split_words :: "string \<Rightarrow> string \<Rightarrow> string list" where
  "split_words w [] = (if w = [] then [] else [w])"
| "split_words w (c # cs) =
     (if is_ws c then (if w = [] then split_words [] cs else w # split_words [] cs)
      else split_words (w @ [c]) cs)"

definition split_whitespace :: "string \<Rightarrow> string list" where
  "split_whitespace s = split_words [] s"

text \<open>\<open>str::split_once\<close>.\<close>

fun split_once :: "char \<Rightarrow> string \<Rightarrow> (string \<times> string) option" where
  "split_once d [] = None"
| "split_once d (c # cs) = (if c = d then Some ([], cs) else map_option (apfst (Cons c)) (split_once d cs))"

definition newline :: char where "newline = CHR 0x0A"

definition carriage_return :: char where "carriage_return = CHR 0x0D"

text \<open>The lines that end in a newline, without it, and what follows the last newline.\<close>

fun split_lines :: "string \<Rightarrow> string list \<times> string" where
  "split_lines [] = ([], [])"
| "split_lines (c # cs) = (case split_lines cs of (ls, rest) \<Rightarrow>
     if c = newline then ([] # ls, rest)
     else (case ls of [] \<Rightarrow> ([], c # rest) | l # ls \<Rightarrow> ((c # l) # ls, rest)))"

definition drop_cr :: "string \<Rightarrow> string" where
  "drop_cr l = (if l \<noteq> [] \<and> last l = carriage_return then butlast l else l)"

text \<open>\<open>str::lines\<close>: the last line need not end in a newline, and keeps a lone carriage return.\<close>

definition str_lines :: "string \<Rightarrow> string list" where
  "str_lines s = (case split_lines s of (ls, rest) \<Rightarrow> map drop_cr ls @ (if rest = [] then [] else [rest]))"

section \<open>Numbers\<close>

definition fits :: "nat \<Rightarrow> bool" where
  "fits n \<longleftrightarrow> n < 2 ^ 64"

definition digit :: "nat \<Rightarrow> char" where
  "digit n = char_of (48 + n)"

text \<open>What \<open>Display\<close> prints of a number.\<close>

fun decimal :: "nat \<Rightarrow> string" where
  "decimal n = (if n < 10 then [digit n] else decimal (n div 10) @ [digit (n mod 10)])"

declare decimal.simps [simp del]

text \<open>
  \<open>push_number\<close> fills a buffer of twenty digits from the end, and panics before its start:
  \<open>room\<close> digits are free, \<open>ds\<close> are filled.
\<close>

fun fill_digits :: "nat \<Rightarrow> nat \<Rightarrow> string \<Rightarrow> string option" where
  "fill_digits 0 n ds = None"
| "fill_digits (Suc room) n ds =
     (let ds = digit (n mod 10) # ds; n = n div 10 in if n = 0 then Some ds else fill_digits room n ds)"

definition push_number :: "string \<Rightarrow> nat \<Rightarrow> string option" where
  "push_number out n = do { ds \<leftarrow> fill_digits 20 n []; Some (out @ ds) }"

text \<open>
  \<open>str::parse\<close> to a 64-bit number: digits, at least one, after an optional plus sign, and no
  more than fit.
\<close>

definition digit_value :: "char \<Rightarrow> nat option" where
  "digit_value c = (let n = of_char c :: nat in if 48 \<le> n \<and> n \<le> 57 then Some (n - 48) else None)"

fun parse_digits :: "nat \<Rightarrow> string \<Rightarrow> nat option" where
  "parse_digits acc [] = Some acc"
| "parse_digits acc (c # cs) = do {
     d \<leftarrow> digit_value c;
     let acc = acc * 10 + d;
     if fits acc then parse_digits acc cs else None }"

definition parse_number :: "string \<Rightarrow> nat option" where
  "parse_number s = (case s of
     [] \<Rightarrow> None
   | c # cs \<Rightarrow> if c = CHR ''+'' then (if cs = [] then None else parse_digits 0 cs) else parse_digits 0 s)"

section \<open>Words come apart\<close>

lemma is_ws_space [simp]: "is_ws CHR '' ''"
  by (simp add: is_ws_def)

lemma is_ws_newline [simp]: "is_ws newline" "is_ws carriage_return"
  by (simp_all add: is_ws_def newline_def carriage_return_def)

lemma split_words_word: "list_all (\<lambda>c. \<not> is_ws c) s \<Longrightarrow> split_words w (s @ rest) = split_words (w @ s) rest"
  by (induction s arbitrary: w) auto

lemma split_whitespace_word [simp]: "is_word s \<Longrightarrow> split_whitespace s = [s]"
  using split_words_word [of s "[]" "[]"] by (simp add: split_whitespace_def is_word_def)

lemma split_whitespace_Cons [simp]:
  "is_word s \<Longrightarrow> split_whitespace (s @ CHR '' '' # rest) = s # split_whitespace rest"
  by (simp add: split_whitespace_def is_word_def split_words_word)

lemma split_words_all: "list_all (\<lambda>c. \<not> is_ws c) w \<Longrightarrow> x \<in> set (split_words w s) \<Longrightarrow> is_word x"
  by (induction w s rule: split_words.induct) (auto simp: is_word_def split: if_splits)

lemma split_whitespace_all: "x \<in> set (split_whitespace s) \<Longrightarrow> is_word x"
  unfolding split_whitespace_def by (rule split_words_all) simp_all

text \<open>A line that a number of words make, one space between them.\<close>

lemma is_word_append: "is_word s \<Longrightarrow> list_all (\<lambda>c. \<not> is_ws c) t \<Longrightarrow> is_word (s @ t)"
  by (simp add: is_word_def)

lemma is_word_Cons: "is_word (c # cs) \<longleftrightarrow> \<not> is_ws c \<and> list_all (\<lambda>c. \<not> is_ws c) cs"
  by (simp add: is_word_def)

lemma split_once_word [simp]: "d \<notin> set s \<Longrightarrow> split_once d (s @ d # rest) = Some (s, rest)"
  by (induction s) auto

lemma split_lines_append: "newline \<notin> set l \<Longrightarrow> split_lines (l @ newline # s) = apfst (Cons l) (split_lines s)"
  by (induction l) (auto simp: apfst_def map_prod_def split: prod.splits)

lemma split_lines_rest: "newline \<notin> set s \<Longrightarrow> split_lines s = ([], s)"
  by (induction s) auto

lemma split_lines_concat:
  assumes "\<forall>l \<in> set ls. newline \<notin> set l" and "newline \<notin> set rest"
  shows "split_lines (concat (map (\<lambda>l. l @ [newline]) ls) @ rest) = (ls, rest)"
  using assms by (induction ls) (simp_all add: split_lines_append split_lines_rest)

lemma drop_cr_id [simp]: "carriage_return \<notin> set l \<Longrightarrow> drop_cr l = l"
  by (auto simp: drop_cr_def dest: last_in_set)

section \<open>Numbers come back\<close>

lemma of_char_digit: "n < 10 \<Longrightarrow> of_char (digit n) = 48 + n"
  by (simp add: digit_def)

lemma digit_value_digit [simp]: "n < 10 \<Longrightarrow> digit_value (digit n) = Some n"
  by (simp add: digit_value_def of_char_digit)

lemma is_ws_digit: "n < 10 \<Longrightarrow> \<not> is_ws (digit n)"
  by (simp add: is_ws_def of_char_digit)

lemma is_word_decimal [simp]: "is_word (decimal n)"
proof (induction n rule: decimal.induct)
  case (1 n)
  then show ?case
    by (subst decimal.simps) (auto simp: is_ws_digit is_word_Cons intro: is_word_append)
qed

lemma fill_digits_decimal: "n < 10 ^ room \<Longrightarrow> 0 < room \<Longrightarrow> fill_digits room n ds = Some (decimal n @ ds)"
proof (induction room arbitrary: n ds)
  case (Suc room)
  show ?case
  proof (cases "n < 10")
    case True
    then show ?thesis by (subst decimal.simps) simp
  next
    case False
    then have pos: "n div 10 \<noteq> 0" by simp
    moreover from Suc.prems have lt: "n div 10 < 10 ^ room" by (simp add: less_mult_imp_div_less mult.commute)
    moreover from pos lt have "0 < room" by (cases room) auto
    ultimately show ?thesis using False Suc.IH [of "n div 10"] by (subst decimal.simps) (simp add: Let_def)
  qed
qed simp

lemma push_number_eq: "fits n \<Longrightarrow> push_number out n = Some (out @ decimal n)"
  by (simp add: push_number_def fill_digits_decimal fits_def)

lemma parse_digits_append:
  "parse_digits acc (s @ t) = Option.bind (parse_digits acc s) (\<lambda>acc. parse_digits acc t)"
  by (induction s arbitrary: acc) (auto simp: Let_def bind_eq_Some_conv split: bind_splits)

lemma parse_digits_decimal: "fits n \<Longrightarrow> parse_digits 0 (decimal n) = Some n"
proof (induction n rule: decimal.induct)
  case (1 n)
  show ?case
  proof (cases "n < 10")
    case True
    with 1 show ?thesis by (subst decimal.simps) simp
  next
    case False
    have "fits (n div 10)" using 1 by (auto simp: fits_def)
    with 1 False have "parse_digits 0 (decimal (n div 10)) = Some (n div 10)" by simp
    with False 1 show ?thesis by (subst decimal.simps) (simp add: parse_digits_append)
  qed
qed

lemma decimal_digits: "c \<in> set (decimal n) \<Longrightarrow> \<exists>d < 10. c = digit d"
proof (induction n rule: decimal.induct)
  case (1 n)
  show ?case
  proof (cases "n < 10")
    case True
    with 1(2) have "c = digit n" by (subst (asm) decimal.simps) simp
    with True show ?thesis by blast
  next
    case False
    with 1(2) have "c \<in> set (decimal (n div 10)) \<or> c = digit (n mod 10)" by (subst (asm) decimal.simps) auto
    then show ?thesis using 1(1) [OF False] by (auto intro: exI [of _ "n mod 10"])
  qed
qed

lemma plus_not_digit: "CHR ''+'' \<notin> set (decimal n)"
proof
  assume "CHR ''+'' \<in> set (decimal n)"
  then obtain d where "d < 10" and "CHR ''+'' = digit d" using decimal_digits by blast
  with of_char_digit [OF \<open>d < 10\<close>] have "of_char CHR ''+'' = 48 + d" by simp
  then show False by simp
qed

lemma parse_number_decimal [simp]: "fits n \<Longrightarrow> parse_number (decimal n) = Some n"
  using parse_digits_decimal [of n] plus_not_digit [of n] is_word_decimal [of n]
  by (cases "decimal n") (auto simp: parse_number_def is_word_def)

end
