(* ===== verification/Sim_Faults.thy ===== *)
theory Sim_Faults
  imports KV_Text
begin

text \<open>
  The faults of \<open>src/simulator/lib.rs\<close> that a script injects, as text: \<open>Display\<close> and
  \<open>FromStr\<close> of \<open>Fault\<close>, and \<open>parse_script\<close>.
\<close>

section \<open>Faults\<close>

datatype fault =
    FCrash nat
  | FPowerLoss nat
  | FProcessCrash nat
  | FLoseStep nat
  | FBlackout
  | FRestart nat
  | FReboot nat
  | FFlush nat
  | FPartition nat
  | FHeal nat
  | FHealAll

fun fault_text :: "fault \<Rightarrow> string" where
  "fault_text (FCrash i) = ''crash '' @ decimal i"
| "fault_text (FPowerLoss i) = ''power-loss '' @ decimal i"
| "fault_text (FProcessCrash i) = ''process-crash '' @ decimal i"
| "fault_text (FLoseStep i) = ''lose-step '' @ decimal i"
| "fault_text FBlackout = ''blackout''"
| "fault_text (FRestart i) = ''restart '' @ decimal i"
| "fault_text (FFlush i) = ''flush '' @ decimal i"
| "fault_text (FReboot i) = ''reboot '' @ decimal i"
| "fault_text (FPartition i) = ''partition '' @ decimal i"
| "fault_text (FHeal i) = ''heal '' @ decimal i"
| "fault_text FHealAll = ''heal-all''"

datatype script_error =
    EmptyFault
  | NeedsReplica string
  | BadReplica string
  | UnknownFault string
  | ExpectedTick nat
  | BadTick nat string

text \<open>The id a fault takes is the next word; words after it are not read.\<close>

definition fault_id :: "string \<Rightarrow> string list \<Rightarrow> script_error + nat" where
  "fault_id name ws = (case ws of
     [] \<Rightarrow> Inl (NeedsReplica name)
   | w # _ \<Rightarrow> (case parse_number w of None \<Rightarrow> Inl (BadReplica name) | Some i \<Rightarrow> Inr i))"

definition with_id :: "(nat \<Rightarrow> fault) \<Rightarrow> script_error + nat \<Rightarrow> script_error + fault" where
  "with_id f x = (case x of Inl e \<Rightarrow> Inl e | Inr i \<Rightarrow> Inr (f i))"

definition fault_from_str :: "string \<Rightarrow> script_error + fault" where
  "fault_from_str s = (case split_whitespace s of
     [] \<Rightarrow> Inl EmptyFault
   | name # ws \<Rightarrow>
       if name = ''crash'' then with_id FCrash (fault_id name ws)
       else if name = ''power-loss'' then with_id FPowerLoss (fault_id name ws)
       else if name = ''process-crash'' then with_id FProcessCrash (fault_id name ws)
       else if name = ''lose-step'' then with_id FLoseStep (fault_id name ws)
       else if name = ''blackout'' then Inr FBlackout
       else if name = ''restart'' then with_id FRestart (fault_id name ws)
       else if name = ''flush'' then with_id FFlush (fault_id name ws)
       else if name = ''reboot'' then with_id FReboot (fault_id name ws)
       else if name = ''partition'' then with_id FPartition (fault_id name ws)
       else if name = ''heal'' then with_id FHeal (fault_id name ws)
       else if name = ''heal-all'' then Inr FHealAll
       else Inl (UnknownFault name))"

section \<open>Scripts\<close>

definition trim :: "string \<Rightarrow> string" where
  "trim s = rev (dropWhile is_ws (rev (dropWhile is_ws s)))"

text \<open>\<open>split_once(char::is_whitespace)\<close>.\<close>

fun split_at_ws :: "string \<Rightarrow> (string \<times> string) option" where
  "split_at_ws [] = None"
| "split_at_ws (c # cs) = (if is_ws c then Some ([], cs) else map_option (apfst (Cons c)) (split_at_ws cs))"

fun parse_lines :: "nat \<Rightarrow> string list \<Rightarrow> script_error + (nat \<times> fault) list" where
  "parse_lines number [] = Inr []"
| "parse_lines number (l # ls) =
     (let line = trim (takeWhile (\<lambda>c. c \<noteq> CHR ''#'') l)
      in if line = [] then parse_lines (number + 1) ls
         else case split_at_ws line of
           None \<Rightarrow> Inl (ExpectedTick (number + 1))
         | Some (tick, fault) \<Rightarrow>
             (case parse_number tick of
                None \<Rightarrow> Inl (BadTick (number + 1) tick)
              | Some t \<Rightarrow>
                  (case fault_from_str (trim fault) of
                     Inl e \<Rightarrow> Inl e
                   | Inr f \<Rightarrow> (case parse_lines (number + 1) ls of Inl e \<Rightarrow> Inl e | Inr fs \<Rightarrow> Inr ((t, f) # fs)))))"

definition parse_script :: "string \<Rightarrow> script_error + (nat \<times> fault) list" where
  "parse_script s = (case parse_lines 0 (str_lines s) of Inl e \<Rightarrow> Inl e | Inr script \<Rightarrow> Inr (sort_key fst script))"

section \<open>Scripts come back\<close>

fun fault_fits :: "fault \<Rightarrow> bool" where
  "fault_fits (FCrash i) = fits i"
| "fault_fits (FPowerLoss i) = fits i"
| "fault_fits (FProcessCrash i) = fits i"
| "fault_fits (FLoseStep i) = fits i"
| "fault_fits (FRestart i) = fits i"
| "fault_fits (FFlush i) = fits i"
| "fault_fits (FReboot i) = fits i"
| "fault_fits (FPartition i) = fits i"
| "fault_fits (FHeal i) = fits i"
| "fault_fits _ = True"

definition is_comment :: "string \<Rightarrow> bool" where
  "is_comment s \<longleftrightarrow> (s = [] \<or> hd s = CHR ''#'') \<and> newline \<notin> set s \<and> carriage_return \<notin> set s"

text \<open>A line of a script: a tick, a fault, and room for a comment.\<close>

definition script_line :: "(nat \<times> fault) \<times> string \<Rightarrow> string" where
  "script_line x = (case x of ((t, f), comment) \<Rightarrow> decimal t @ '' '' @ fault_text f @ comment)"

lemma fault_from_str_text: "fault_fits f \<Longrightarrow> fault_from_str (fault_text f) = Inr f"
proof -
  have words: "is_word ''crash''" "is_word ''power-loss''" "is_word ''process-crash''" "is_word ''lose-step''"
    "is_word ''blackout''" "is_word ''restart''" "is_word ''flush''" "is_word ''reboot''" "is_word ''partition''"
    "is_word ''heal''" "is_word ''heal-all''" by code_simp+
  note sw = words [THEN split_whitespace_Cons, of "decimal i" for i, simplified append_Cons append_Nil]
    words [THEN split_whitespace_word]
  show "fault_fits f \<Longrightarrow> fault_from_str (fault_text f) = Inr f"
    by (cases f) (simp_all add: fault_from_str_def sw fault_id_def with_id_def)
qed

text \<open>What a fault's text is made of.\<close>

definition plain :: "string \<Rightarrow> bool" where
  "plain s \<longleftrightarrow> list_all (\<lambda>c. c \<noteq> CHR ''#'' \<and> c \<noteq> newline \<and> c \<noteq> carriage_return) s"

definition tight :: "string \<Rightarrow> bool" where
  "tight s \<longleftrightarrow> s \<noteq> [] \<and> \<not> is_ws (hd s) \<and> \<not> is_ws (last s)"

lemma plain_simps [simp]:
  "plain []" "plain (s @ u) \<longleftrightarrow> plain s \<and> plain u"
  "plain (c # s) \<longleftrightarrow> c \<noteq> CHR ''#'' \<and> c \<noteq> newline \<and> c \<noteq> carriage_return \<and> plain s"
  by (simp_all add: plain_def)

lemma trim_tight: "tight s \<Longrightarrow> trim s = s"
proof -
  assume s: "tight s"
  then have "dropWhile is_ws s = s" by (cases s) (simp_all add: tight_def)
  moreover from s have "dropWhile is_ws (rev s) = rev s" by (cases s rule: rev_cases) (simp_all add: tight_def)
  ultimately show ?thesis by (simp add: trim_def)
qed

lemma word_tight: "is_word s \<Longrightarrow> tight s"
  by (auto simp: is_word_def tight_def list_all_iff)

lemma tight_append: "tight s \<Longrightarrow> tight u \<Longrightarrow> tight (s @ v @ u)"
  by (auto simp: tight_def)

lemma decimal_plain: "plain (decimal n)"
proof -
  have "c \<noteq> CHR ''#'' \<and> c \<noteq> newline \<and> c \<noteq> carriage_return" if "c \<in> set (decimal n)" for c
  proof -
    from decimal_digits [OF that] obtain d where d: "d < 10" "c = digit d" by blast
    from of_char_digit [OF d(1)] have "of_char c = 48 + d" by (simp add: d(2))
    then show ?thesis by (auto simp: newline_def carriage_return_def)
  qed
  then show ?thesis by (auto simp: plain_def list_all_iff)
qed

lemma fault_text_plain: "plain (fault_text f)"
  by (cases f) (simp_all add: decimal_plain newline_def carriage_return_def)

lemma fault_text_tight: "tight (fault_text f)"
proof -
  have last: "\<not> is_ws (last (u @ decimal n))" for u n
    using word_tight [OF is_word_decimal, of n] by (simp add: tight_def)
  have "fault_text f \<noteq> [] \<and> \<not> is_ws (hd (fault_text f))" by (cases f) (simp_all add: is_ws_def)
  moreover have "\<not> is_ws (last (fault_text f))"
    using last [of "[]"] word_tight [OF is_word_decimal] by (cases f) (simp_all add: is_ws_def tight_def)
  ultimately show ?thesis by (simp add: tight_def)
qed

lemma split_at_ws_word: "is_word w \<Longrightarrow> split_at_ws (w @ CHR '' '' # rest) = Some (w, rest)"
proof -
  have "list_all (\<lambda>c. \<not> is_ws c) w \<Longrightarrow> split_at_ws (w @ CHR '' '' # rest) = Some (w, rest)" by (induction w) auto
  then show "is_word w \<Longrightarrow> ?thesis" by (simp add: is_word_def)
qed

lemma takeWhile_comment:
  assumes "plain s" and "is_comment c"
  shows "takeWhile (\<lambda>c. c \<noteq> CHR ''#'') (s @ c) = s"
proof -
  have "takeWhile (\<lambda>c. c \<noteq> CHR ''#'') (s @ c) = s @ takeWhile (\<lambda>c. c \<noteq> CHR ''#'') c"
    using assms(1) by (intro takeWhile_append2) (auto simp: plain_def list_all_iff)
  also have "takeWhile (\<lambda>c. c \<noteq> CHR ''#'') c = []" using assms(2) by (cases c) (auto simp: is_comment_def)
  finally show ?thesis by simp
qed

lemma parse_script_lines:
  assumes "\<forall>((t, f), c) \<in> set xs. fits t \<and> fault_fits f \<and> is_comment c"
  shows "parse_lines k (map script_line xs) = Inr (map fst xs)"
  using assms
proof (induction xs arbitrary: k)
  case (Cons x xs)
  obtain t f c where x: "x = ((t, f), c)" by (cases x) auto
  with Cons.prems have ok: "fits t" "fault_fits f" "is_comment c" by auto
  have line: "takeWhile (\<lambda>c. c \<noteq> CHR ''#'') (script_line x) = decimal t @ '' '' @ fault_text f"
    using takeWhile_comment [of "decimal t @ '' '' @ fault_text f" c] ok(3) decimal_plain fault_text_plain
    by (simp add: x script_line_def newline_def carriage_return_def)
  have "tight (decimal t @ '' '' @ fault_text f)"
    by (rule tight_append) (simp_all add: word_tight fault_text_tight)
  then have trim: "trim (decimal t @ '' '' @ fault_text f) = decimal t @ '' '' @ fault_text f"
    "decimal t @ '' '' @ fault_text f \<noteq> []" by (simp_all add: trim_tight del: append.simps)
  have "split_at_ws (decimal t @ '' '' @ fault_text f) = Some (decimal t, fault_text f)"
    using split_at_ws_word [OF is_word_decimal] by simp
  with Cons trim line ok trim_tight [OF fault_text_tight, of f] show ?case
    by (simp add: x Let_def fault_from_str_text del: append.simps)
qed simp

lemma script_lines_clean:
  assumes "is_comment c"
  shows "newline \<notin> set (script_line ((t, f), c)) \<and> carriage_return \<notin> set (script_line ((t, f), c))"
  using assms decimal_plain [of t] fault_text_plain [of f]
  by (auto simp: script_line_def is_comment_def plain_def list_all_iff newline_def carriage_return_def)

text \<open>
  C33: a fault script comes back as it was written: the faults printed with their ticks, one to a
  line, comments behind them or not, are read as the same faults at the same ticks, in the order
  of their ticks, those of one tick in the order of the script.
\<close>

theorem script_comes_back:
  assumes "\<forall>((t, f), c) \<in> set xs. fits t \<and> fault_fits f \<and> is_comment c"
  shows "parse_script (concat (map (\<lambda>x. script_line x @ [newline]) xs)) = Inr (sort_key fst (map fst xs))"
proof -
  have clean: "\<forall>l \<in> set (map script_line xs). newline \<notin> set l \<and> carriage_return \<notin> set l"
    using assms script_lines_clean by fastforce
  then have "split_lines (concat (map (\<lambda>l. l @ [newline]) (map script_line xs)) @ []) = (map script_line xs, [])"
    by (intro split_lines_concat) auto
  moreover have "map drop_cr (map script_line xs) = map script_line xs" using clean by (auto intro: map_idI)
  ultimately have "str_lines (concat (map (\<lambda>x. script_line x @ [newline]) xs)) = map script_line xs"
    by (simp add: str_lines_def comp_def)
  with parse_script_lines [OF assms, of 0] show ?thesis by (simp add: parse_script_def)
qed

theorem script_comes_back_witness:
  "parse_script (concat (map (\<lambda>x. script_line x @ [newline])
     [((30, FBlackout), ''# all of them''), ((7, FCrash 2), []), ((30, FRestart 1), [])]))
   = Inr [(7, FCrash 2), (30, FBlackout), (30, FRestart 1)]"
proof -
  have "sort_key fst [(30 :: nat, FBlackout), (7, FCrash 2), (30, FRestart 1)]
      = [(7, FCrash 2), (30, FBlackout), (30, FRestart 1)]" by code_simp
  with script_comes_back [of "[((30, FBlackout), ''# all of them''), ((7, FCrash 2), []), ((30, FRestart 1), [])]"]
  show ?thesis by (simp add: fits_def is_comment_def newline_def carriage_return_def)
qed

end
