(* ===== verification/Sim_Cluster.thy ===== *)
theory Sim_Cluster
  imports Sim_Options Sim_Properties Sim_Faults VSR_Client
begin

text \<open>
  \<open>Simulator\<close> of \<open>src/simulator/lib.rs\<close>: a cluster with its disks, its clients and the network
  between them, and what takes a replica down and brings it back.
\<close>

section \<open>Chance\<close>

text \<open>
  The generator is a parameter: the outcome of the \<open>k\<close>th draw, of each kind.  The simulator
  counts its draws.
\<close>

record dice =
  di_bool :: "nat \<Rightarrow> bool"
  di_nat :: "nat \<Rightarrow> nat"
  di_i32 :: "nat \<Rightarrow> 32 word"
  di_send :: "nat \<Rightarrow> send_choices"

datatype phase = Safety | Liveness | Done

datatype crash_kind = Pause | PowerLoss | ProcessCrash

datatype sim_error =
    BadOptions options_error
  | CompactedPast ReplicaID
  | FeedRejected
  | PropertyFailed property_error
  | NoConvergence string
  | NoLiveness

record counters =
  co_crashes :: nat
  co_restarts :: nat
  co_reboots :: nat
  co_power_losses :: nat
  co_process_crashes :: nat
  co_process_crashes_ahead :: nat
  co_flushes :: nat
  co_restores :: nat
  co_lost_steps :: nat
  co_lost_writes :: nat
  co_writes_out_at_crash :: nat
  co_writes_landed_at_crash :: nat

type_synonym sim_client = "(acc_op, unit) client"

record simulator =
  si_options :: options
  si_draws :: nat
  si_ticks :: nat
  si_requests_sent :: nat
  si_requests_replied :: nat
  si_requests_evicted :: nat
  si_requests_idle :: bool
  si_liveness_mode :: bool
  si_phase :: phase
  si_ticks_since_reply :: nat
  si_liveness_ticks :: nat
  si_requests_done :: bool
  si_partitioned :: "nat set"
  si_counters :: counters
  si_config :: config
  si_disks :: "disk list"
  si_crash_kind :: "crash_kind list"
  si_stepped :: "bool list"
  si_lose_step :: "nat set"
  si_committed :: "acc_op log_entry list"
  si_model :: model
  si_up :: "bool list"
  si_stable_until :: "nat list"
  si_core :: "nat list"
  si_replicas :: "sim_replica list"
  si_clients :: "sim_client list"
  si_client_requests :: "nat list"
  si_completed_position :: i64
  si_client_positions :: "i64 list"
  si_queries :: "((ClientID \<times> QueryNumber) \<times> i64) list"
  si_answers :: "answer list"
  si_replies :: "i64 reply list"
  si_network :: network
  si_properties :: property_states
  si_next_op_id :: nat

section \<open>Drawing\<close>

definition draw_bool :: "dice \<Rightarrow> rat \<Rightarrow> simulator \<Rightarrow> bool \<times> simulator" where
  "draw_bool dc p si = (happens p (di_bool dc (si_draws si)), si\<lparr>si_draws := si_draws si + 1\<rparr>)"

definition draw_nat :: "dice \<Rightarrow> simulator \<Rightarrow> nat \<times> simulator" where
  "draw_nat dc si = (di_nat dc (si_draws si), si\<lparr>si_draws := si_draws si + 1\<rparr>)"

text \<open>\<open>gen_range(a..=b)\<close>, which panics on an empty range.\<close>

definition draw_range :: "dice \<Rightarrow> nat \<Rightarrow> nat \<Rightarrow> simulator \<Rightarrow> (nat \<times> simulator) option" where
  "draw_range dc a b si =
     (if a \<le> b then Some (a + di_nat dc (si_draws si) mod (b - a + 1), si\<lparr>si_draws := si_draws si + 1\<rparr>) else None)"

section \<open>A simulation begins\<close>

definition counters_0 :: counters where
  "counters_0 = \<lparr>co_crashes = 0, co_restarts = 0, co_reboots = 0, co_power_losses = 0, co_process_crashes = 0,
     co_process_crashes_ahead = 0, co_flushes = 0, co_restores = 0, co_lost_steps = 0, co_lost_writes = 0,
     co_writes_out_at_crash = 0, co_writes_landed_at_crash = 0\<rparr>"

definition sim_config :: "options \<Rightarrow> config option" where
  "sim_config so = do {
     cfg \<leftarrow> set_primary_timeout (add_replicas (so_replica_count so) config_new) (so_primary_timeout so);
     cfg \<leftarrow> set_clients_max cfg (so_clients_max so);
     set_in_flight_max cfg (so_in_flight_max so) }"

definition sim_init :: "options \<Rightarrow> (sim_error + simulator) option" where
  "sim_init so = (case options_validate so of
     Inl e \<Rightarrow> Some (Inl (BadOptions e))
   | Inr _ \<Rightarrow> do {
       cfg \<leftarrow> sim_config so;
       rs \<leftarrow> those (map (\<lambda>i. replica_new i cfg acc_default) [0..<so_replica_count so]);
       cs \<leftarrow> those (map (\<lambda>i. client_new i cfg) [0..<so_client_count so]);
       let n = so_replica_count so;
       let m = so_client_count so;
       Some (Inr \<lparr>si_options = so, si_draws = 0, si_ticks = 0, si_requests_sent = 0, si_requests_replied = 0,
         si_requests_evicted = 0, si_requests_idle = False, si_liveness_mode = False, si_phase = Safety,
         si_ticks_since_reply = 0, si_liveness_ticks = 0, si_requests_done = False, si_partitioned = {},
         si_counters = counters_0, si_config = cfg, si_disks = replicate n disk_default,
         si_crash_kind = replicate n Pause, si_stepped = replicate n False, si_lose_step = {}, si_committed = [],
         si_model = model_default, si_up = replicate n True, si_stable_until = replicate n 0, si_core = [0..<n],
         si_replicas = rs, si_clients = cs, si_client_requests = replicate m 0, si_completed_position = 0,
         si_client_positions = replicate m 0, si_queries = [], si_answers = [], si_replies = [],
         si_network = network_new (so_network so), si_properties = default_properties, si_next_op_id = 0\<rparr>) })"

definition sim_context_of :: "simulator \<Rightarrow> sim_context" where
  "sim_context_of si = \<lparr>cx_tick = si_ticks si, cx_config = si_config si, cx_model = si_model si,
     cx_replicas = si_replicas si, cx_disks = si_disks si, cx_committed = si_committed si,
     cx_replies = si_replies si, cx_answers = si_answers si, cx_core = si_core si\<rparr>"

section \<open>Crashes and restarts\<close>

definition sim_recovering :: "simulator \<Rightarrow> nat \<Rightarrow> bool option" where
  "sim_recovering si i = do {
     r \<leftarrow> nth_chk (si_replicas si) i;
     d \<leftarrow> nth_chk (si_disks si) i;
     Some (is_recovering r \<or> ps_recovering (dk_state d)) }"

definition put_site :: "nat \<Rightarrow> disk \<Rightarrow> sim_replica \<Rightarrow> simulator \<Rightarrow> simulator" where
  "put_site i d r si = si\<lparr>si_disks := (si_disks si)[i := d], si_replicas := (si_replicas si)[i := r]\<rparr>"

definition count :: "(counters \<Rightarrow> counters) \<Rightarrow> simulator \<Rightarrow> simulator" where
  "count f si = si\<lparr>si_counters := f (si_counters si)\<rparr>"

definition restart_properties :: "nat \<Rightarrow> simulator \<Rightarrow> simulator" where
  "restart_properties i si = si\<lparr>si_properties := properties_restart (si_properties si) i\<rparr>"

definition reboot_replica :: "dice \<Rightarrow> nat \<Rightarrow> simulator \<Rightarrow> simulator option" where
  "reboot_replica dc i si = do {
     let (nonce, si) = draw_nat dc si;
     d \<leftarrow> nth_chk (si_disks si) i;
     let v = ps_view_number (dk_state d);
     ensure (i < length (si_replicas si) \<and> i < length (si_crash_kind si));
     r \<leftarrow> recover i (si_config si) acc_default v nonce;
     let si = (put_site i (for_recovery v) r si)\<lparr>si_crash_kind := (si_crash_kind si)[i := PowerLoss]\<rparr>;
     Some (count (\<lambda>c. c\<lparr>co_reboots := co_reboots c + 1\<rparr>) (restart_properties i si)) }"

definition bring_up :: "nat \<Rightarrow> simulator \<Rightarrow> simulator option" where
  "bring_up i si = do {
     ensure (i < length (si_up si));
     kind \<leftarrow> nth_chk (si_crash_kind si) i;
     stepped \<leftarrow> nth_chk (si_stepped si) i;
     let si = si\<lparr>si_up := (si_up si)[i := True], si_stepped := (si_stepped si)[i := stepped \<or> kind \<noteq> Pause]\<rparr>;
     Some (count (\<lambda>c. c\<lparr>co_restarts := co_restarts c + 1\<rparr>) si) }"

definition count_crash_write :: "bool option \<Rightarrow> counters \<Rightarrow> counters" where
  "count_crash_write out c = (case out of
     None \<Rightarrow> c
   | Some landed \<Rightarrow> c\<lparr>co_writes_out_at_crash := co_writes_out_at_crash c + 1,
       co_writes_landed_at_crash := co_writes_landed_at_crash c + (if landed then 1 else 0)\<rparr>)"

definition lose_step_counts :: "bool \<Rightarrow> counters \<Rightarrow> counters" where
  "lose_step_counts differs c = c\<lparr>co_lost_steps := co_lost_steps c + 1,
     co_lost_writes := co_lost_writes c + (if differs then 1 else 0)\<rparr>"

definition lose_memory :: "nat \<Rightarrow> bool \<Rightarrow> simulator \<Rightarrow> simulator option" where
  "lose_memory i differs si = do {
     stepped \<leftarrow> nth_chk (si_stepped si) i;
     if stepped then Some (count (lose_step_counts differs) (si\<lparr>si_stepped := (si_stepped si)[i := False]\<rparr>))
     else do { ensure (\<not> differs); Some si } }"

definition rebuild :: "dice \<Rightarrow> nat \<Rightarrow> disk \<Rightarrow> sim_replica \<Rightarrow> simulator \<Rightarrow> simulator option" where
  "rebuild dc i d r si = do {
     let (nonce, si) = draw_nat dc si;
     r' \<leftarrow> disk_restart d i (si_config si) nonce;
     let si = (put_site i d r' si)\<lparr>si_crash_kind := (si_crash_kind si)[i := PowerLoss]\<rparr>;
     Some (if commit_number r' < commit_number r then restart_properties i si else si) }"

definition lose_power :: "dice \<Rightarrow> nat \<Rightarrow> simulator \<Rightarrow> simulator option" where
  "lose_power dc i si = do {
     let (landed, si) = draw_bool dc (1 / 2) si;
     d \<leftarrow> nth_chk (si_disks si) i;
     r \<leftarrow> nth_chk (si_replicas si) i;
     (d, out) \<leftarrow> disk_crash d landed;
     si \<leftarrow> lose_memory i (\<not> disk_matches (dk_state d) r) (count (count_crash_write out) si);
     rebuild dc i d r si }"

definition flush_crashed :: "dice \<Rightarrow> nat \<Rightarrow> simulator \<Rightarrow> simulator option" where
  "flush_crashed dc i si = do {
     d \<leftarrow> nth_chk (si_disks si) i;
     r \<leftarrow> nth_chk (si_replicas si) i;
     (n, si) \<leftarrow> draw_range dc (dk_applied d) (applied r) si;
     d \<leftarrow> flush_up_to d r n;
     let si = si\<lparr>si_disks := (si_disks si)[i := d]\<rparr>;
     Some (if ps_commit_number (dk_state d) < n
           then count (\<lambda>c. c\<lparr>co_process_crashes_ahead := co_process_crashes_ahead c + 1\<rparr>) si else si) }"

definition crash_replica :: "dice \<Rightarrow> nat \<Rightarrow> crash_kind \<Rightarrow> simulator \<Rightarrow> simulator option" where
  "crash_replica dc i kind si = do {
     up \<leftarrow> nth_chk (si_up si) i;
     was \<leftarrow> nth_chk (si_crash_kind si) i;
     if \<not> up \<and> was \<noteq> Pause then Some si
     else do {
       let si = (if up
         then count (\<lambda>c. c\<lparr>co_crashes := co_crashes c + 1\<rparr>)
           (si\<lparr>si_up := (si_up si)[i := False], si_crash_kind := (si_crash_kind si)[i := Pause]\<rparr>)
         else si);
       case kind of
         Pause \<Rightarrow> Some si
       | PowerLoss \<Rightarrow> do {
           si \<leftarrow> lose_power dc i (count (\<lambda>c. c\<lparr>co_power_losses := co_power_losses c + 1\<rparr>) si);
           Some (si\<lparr>si_crash_kind := (si_crash_kind si)[i := PowerLoss]\<rparr>) }
       | ProcessCrash \<Rightarrow> do {
           si \<leftarrow> flush_crashed dc i (count (\<lambda>c. c\<lparr>co_process_crashes := co_process_crashes c + 1\<rparr>) si);
           si \<leftarrow> lose_power dc i si;
           Some (si\<lparr>si_crash_kind := (si_crash_kind si)[i := ProcessCrash]\<rparr>) } } }"

definition flush_replica :: "nat \<Rightarrow> simulator \<Rightarrow> simulator option" where
  "flush_replica i si = do {
     up \<leftarrow> nth_chk (si_up si) i;
     if \<not> up then Some si
     else do {
       d \<leftarrow> nth_chk (si_disks si) i;
       r \<leftarrow> nth_chk (si_replicas si) i;
       let d = disk_flush d r;
       r \<leftarrow> compact r (dk_applied d - so_log_retention (si_options si));
       ensure (i < length (si_stepped si));
       let si = (put_site i d r si)\<lparr>si_stepped := (si_stepped si)[i := True]\<rparr>;
       Some (count (\<lambda>c. c\<lparr>co_flushes := co_flushes c + 1\<rparr>) si) } }"

section \<open>Faults by hand\<close>

fun each :: "('a \<Rightarrow> 's \<Rightarrow> 's option) \<Rightarrow> 'a list \<Rightarrow> 's \<Rightarrow> 's option" where
  "each f [] s = Some s"
| "each f (x # xs) s = do { s \<leftarrow> f x s; each f xs s }"

definition stable_from :: "nat \<Rightarrow> nat \<Rightarrow> simulator \<Rightarrow> simulator option" where
  "stable_from i t si = do {
     ts \<leftarrow> set_chk (si_stable_until si) i t;
     Some (si\<lparr>si_stable_until := ts\<rparr>) }"

fun apply_fault :: "dice \<Rightarrow> fault \<Rightarrow> simulator \<Rightarrow> simulator option" where
  "apply_fault dc (FCrash i) si = do { si \<leftarrow> crash_replica dc i Pause si; stable_from i (si_ticks si) si }"
| "apply_fault dc (FPowerLoss i) si = do { si \<leftarrow> crash_replica dc i PowerLoss si; stable_from i (si_ticks si) si }"
| "apply_fault dc (FProcessCrash i) si = do { si \<leftarrow> crash_replica dc i ProcessCrash si; stable_from i (si_ticks si) si }"
| "apply_fault dc (FLoseStep i) si = Some (si\<lparr>si_lose_step := insert i (si_lose_step si)\<rparr>)"
| "apply_fault dc FBlackout si =
     each (\<lambda>i si. do { si \<leftarrow> crash_replica dc i PowerLoss si; stable_from i (si_ticks si) si })
       [0..<length (si_replicas si)] si"
| "apply_fault dc (FRestart i) si = do {
     up \<leftarrow> nth_chk (si_up si) i;
     si \<leftarrow> (if up then Some si else bring_up i si);
     stable_from i (si_ticks si) si }"
| "apply_fault dc (FReboot i) si = do {
     si \<leftarrow> reboot_replica dc i si;
     si \<leftarrow> bring_up i si;
     stable_from i (si_ticks si) si }"
| "apply_fault dc (FFlush i) si = flush_replica i si"
| "apply_fault dc (FPartition i) si = Some (si\<lparr>si_partitioned := insert i (si_partitioned si)\<rparr>)"
| "apply_fault dc (FHeal i) si = Some (si\<lparr>si_partitioned := si_partitioned si - {i}\<rparr>)"
| "apply_fault dc FHealAll si = Some (si\<lparr>si_partitioned := {}\<rparr>)"

end
