(* ===== verification/Sim_Tick.thy ===== *)
theory Sim_Tick
  imports Sim_Cluster
begin

text \<open>
  The ticks of \<open>Simulator\<close> in \<open>src/simulator/lib.rs\<close>: requests, crashes, flushes, heartbeats,
  the network, the steps of the replicas, and the two phases of a run.  A computation has no
  value where the code panics, and ends with the error the code returns.
\<close>

section \<open>What committed\<close>

definition lift :: "'a option \<Rightarrow> ('e + 'a) option" where
  "lift x = map_option Inr x"

definition failing :: "(property_error + 'a) option \<Rightarrow> (sim_error + 'a) option" where
  "failing x = map_option (map_sum PropertyFailed id) x"

definition record_one ::
  "nat \<times> sim_replica \<Rightarrow> acc_op log_entry list \<Rightarrow> (sim_error + acc_op log_entry list) option" where
  "record_one x committed = (case x of (i, r) \<Rightarrow>
     if commit_number r \<le> length committed then Some (Inr committed)
     else if length committed < log_start r then Some (Inl (CompactedPast i))
     else do {
       es \<leftarrow> those (map (\<lambda>n. nth_chk (replica.log r) (n - log_start r - 1))
               [length committed + 1..<commit_number r + 1]);
       Some (Inr (committed @ es)) })"

definition record_committed :: "simulator \<Rightarrow> (sim_error + simulator) option" where
  "record_committed si =
     and_then (try_each record_one (enumerate 0 (si_replicas si)) (si_committed si)) (\<lambda>committed.
       case feed (si_config si) (si_model si) committed of
         None \<Rightarrow> Some (Inl FeedRejected)
       | Some m \<Rightarrow> Some (Inr (si\<lparr>si_committed := committed, si_model := m\<rparr>)))"

definition check_each ::
  "(sim_context \<Rightarrow> property_states \<Rightarrow> (property_error + property_states) option) \<Rightarrow> simulator
   \<Rightarrow> (sim_error + simulator) option" where
  "check_each check si =
     and_then (failing (check (sim_context_of si) (si_properties si))) (\<lambda>pp. Some (Inr (si\<lparr>si_properties := pp\<rparr>)))"

section \<open>Replies\<close>

definition max_signed :: "i64 \<Rightarrow> i64 \<Rightarrow> i64" where
  "max_signed a b = (if sint a \<le> sint b then b else a)"

definition complete ::
  "ClientID \<Rightarrow> i64 completion option \<Rightarrow> simulator \<Rightarrow> (nat \<times> simulator) option" where
  "complete c outcome si = (case outcome of
     None \<Rightarrow> Some (0, si)
   | Some (CExecuted _ position) \<Rightarrow> do {
       own \<leftarrow> nth_chk (si_client_positions si) c;
       Some (1, si\<lparr>si_completed_position := max_signed (si_completed_position si) position,
                   si_client_positions := (si_client_positions si)[c := max_signed own position]\<rparr>) }
   | Some (CQueried q result) \<Rightarrow> do {
       since \<leftarrow> map_of (si_queries si) (c, q);
       own \<leftarrow> nth_chk (si_client_positions si) c;
       Some (1, si\<lparr>si_queries := bt_remove (c, q) (si_queries si),
                   si_completed_position := max_signed (si_completed_position si) result,
                   si_answers := si_answers si @ [\<lparr>an_tick = si_ticks si, an_client_id = c, an_query_number = q,
                      an_floor = since, an_own = own, an_result = result\<rparr>]\<rparr>) }
   | Some CEvicted \<Rightarrow> do {
       failed \<leftarrow> nth_chk (si_client_requests si) c;
       Some (failed, si\<lparr>si_queries := filter (\<lambda>((client, _), _). client \<noteq> c) (si_queries si),
                        si_requests_evicted := si_requests_evicted si + failed\<rparr>) })"

definition deliver_reply :: "i64 reply \<Rightarrow> simulator \<Rightarrow> simulator option" where
  "deliver_reply reply si = do {
     let c = reply_client_id reply;
     cl \<leftarrow> nth_chk (si_clients si) c;
     (cl, outcome) \<leftarrow> cl_on_reply cl reply;
     let si = si\<lparr>si_clients := (si_clients si)[c := cl]\<rparr>;
     (completed, si) \<leftarrow> complete c outcome si;
     n \<leftarrow> nth_chk (si_client_requests si) c;
     left \<leftarrow> checked_sub n completed;
     Some (si\<lparr>si_client_requests := (si_client_requests si)[c := left],
              si_requests_replied := si_requests_replied si + completed,
              si_replies := si_replies si @ [reply]\<rparr>) }"

section \<open>Requests\<close>

definition build_request :: "dice \<Rightarrow> simulator \<Rightarrow> op_kind \<times> simulator" where
  "build_request dc si =
     (let v = (signed (di_i32 dc (si_draws si)) :: i64);
          (add, si) = draw_bool dc (1 / 2) (si\<lparr>si_draws := si_draws si + 1\<rparr>)
      in (if add then Add v else Sub v, si))"

definition toggle_idle :: "dice \<Rightarrow> simulator \<Rightarrow> simulator" where
  "toggle_idle dc si =
     (if si_requests_idle si
      then (let (off, si) = draw_bool dc (so_request_idle_off_probability (si_options si)) si
            in if off then si\<lparr>si_requests_idle := False\<rparr> else si)
      else (let (on, si) = draw_bool dc (so_request_idle_on_probability (si_options si)) si
            in if on then si\<lparr>si_requests_idle := True\<rparr> else si))"

definition free_client :: "nat \<Rightarrow> simulator \<Rightarrow> nat option" where
  "free_client base si =
     (let n = so_client_count (si_options si);
          queue_max = 2 * so_in_flight_max (si_options si)
      in find (\<lambda>c. c < length (si_client_requests si) \<and> si_client_requests si ! c < queue_max)
           (map (\<lambda>offset. (base + offset) mod n) [0..<n]))"

definition submit :: "dice \<Rightarrow> nat \<Rightarrow> simulator \<Rightarrow> simulator option" where
  "submit dc c si = do {
     pending \<leftarrow> nth_chk (si_client_requests si) c;
     let si = si\<lparr>si_client_requests := (si_client_requests si)[c := pending + 1],
                 si_requests_sent := si_requests_sent si + 1\<rparr>;
     let (query, si) = draw_bool dc (so_query_probability (si_options si)) si;
     cl \<leftarrow> nth_chk (si_clients si) c;
     if query then do {
       let (cl, q) = cl_on_query cl ();
       Some (si\<lparr>si_clients := (si_clients si)[c := cl],
                si_queries := bt_insert (c, q) (si_completed_position si) (si_queries si)\<rparr>) }
     else do {
       let (kind, si) = build_request dc si;
       let op = \<lparr>op_id = si_next_op_id si, op_kind = kind\<rparr>;
       (cl, _) \<leftarrow> cl_on_request cl op;
       Some (si\<lparr>si_next_op_id := si_next_op_id si + 1, si_clients := (si_clients si)[c := cl]\<rparr>) } }"

definition tick_requests :: "dice \<Rightarrow> simulator \<Rightarrow> simulator option" where
  "tick_requests dc si = do {
     let si = toggle_idle dc si;
     if si_requests_idle si \<or> si_liveness_mode si \<or> si_requests_sent si = so_requests_max (si_options si)
     then Some si
     else do {
       let (sends, si) = draw_bool dc (so_request_probability (si_options si)) si;
       if \<not> sends then Some si
       else do {
         ensure (0 < so_client_count (si_options si));
         (base, si) \<leftarrow> draw_range dc 0 (so_client_count (si_options si) - 1) si;
         case free_client base si of None \<Rightarrow> Some si | Some c \<Rightarrow> submit dc c si } } }"

section \<open>Crashes, flushes, heartbeats\<close>

definition draw_crash_kind :: "dice \<Rightarrow> simulator \<Rightarrow> crash_kind \<times> simulator" where
  "draw_crash_kind dc si =
     (let (power, si) = draw_bool dc (so_replica_power_loss_probability (si_options si)) si
      in if power then (PowerLoss, si)
         else let (killed, si) = draw_bool dc (so_replica_process_crash_probability (si_options si)) si
              in (if killed then ProcessCrash else Pause, si))"

definition maybe_crash :: "dice \<Rightarrow> nat \<Rightarrow> simulator \<Rightarrow> simulator option" where
  "maybe_crash dc i si = do {
     let (crashes, si) = draw_bool dc (so_replica_crash_probability (si_options si)) si;
     if \<not> crashes then Some si
     else do {
       let (kind, si) = draw_crash_kind dc si;
       si \<leftarrow> crash_replica dc i kind si;
       stable_from i (si_ticks si + so_replica_crash_stability (si_options si)) si } }"

definition maybe_restart :: "dice \<Rightarrow> nat \<Rightarrow> simulator \<Rightarrow> simulator option" where
  "maybe_restart dc i si = do {
     let (restarts, si) = draw_bool dc (so_replica_restart_probability (si_options si)) si;
     if \<not> restarts then Some si
     else do {
       flags \<leftarrow> those (map (sim_recovering si) [0..<length (si_replicas si)]);
       let f = (length (si_replicas si) - 1) div 2;
       let (reboots, si) = (if length (filter id flags) < f
         then draw_bool dc (so_replica_reboot_probability (si_options si)) si else (False, si));
       si \<leftarrow> (if reboots then reboot_replica dc i si else Some si);
       si \<leftarrow> bring_up i si;
       stable_from i (si_ticks si + so_replica_restart_stability (si_options si)) si } }"

definition tick_crash_one :: "dice \<Rightarrow> nat \<Rightarrow> simulator \<Rightarrow> simulator option" where
  "tick_crash_one dc i si = do {
     stable \<leftarrow> nth_chk (si_stable_until si) i;
     if si_ticks si < stable then Some si
     else do {
       up \<leftarrow> nth_chk (si_up si) i;
       if up then maybe_crash dc i si else maybe_restart dc i si } }"

definition blackout_one :: "dice \<Rightarrow> nat \<Rightarrow> simulator \<Rightarrow> simulator option" where
  "blackout_one dc i si = do {
     si \<leftarrow> crash_replica dc i PowerLoss si;
     stable_from i (si_ticks si + so_replica_crash_stability (si_options si)) si }"

definition tick_crash :: "dice \<Rightarrow> simulator \<Rightarrow> simulator option" where
  "tick_crash dc si =
     (if si_liveness_mode si then Some si
      else do {
        si \<leftarrow> each (tick_crash_one dc) [0..<length (si_replicas si)] si;
        let (dark, si) = (if 0 < so_blackout_probability (si_options si)
          then draw_bool dc (so_blackout_probability (si_options si)) si else (False, si));
        if dark then each (blackout_one dc) [0..<length (si_replicas si)] si else Some si })"

definition tick_flush_one :: "dice \<Rightarrow> nat \<Rightarrow> simulator \<Rightarrow> simulator option" where
  "tick_flush_one dc i si = do {
     up \<leftarrow> nth_chk (si_up si) i;
     let (flushes, si) = (if up then draw_bool dc (so_replica_flush_probability (si_options si)) si else (False, si));
     if flushes then flush_replica i si else Some si }"

definition tick_flush :: "dice \<Rightarrow> simulator \<Rightarrow> simulator option" where
  "tick_flush dc si =
     (if so_replica_flush_probability (si_options si) = 0 then Some si
      else each (tick_flush_one dc) [0..<length (si_replicas si)] si)"

definition idle_one :: "nat \<Rightarrow> simulator \<Rightarrow> simulator option" where
  "idle_one i si = do {
     up \<leftarrow> nth_chk (si_up si) i;
     if \<not> up then Some si
     else do {
       r \<leftarrow> nth_chk (si_replicas si) i;
       r \<leftarrow> on_idle acc_sm r;
       ensure (i < length (si_stepped si));
       Some (si\<lparr>si_replicas := (si_replicas si)[i := r], si_stepped := (si_stepped si)[i := True]\<rparr>) } }"

definition tick_heartbeat :: "simulator \<Rightarrow> simulator option" where
  "tick_heartbeat si =
     (if si_ticks si mod so_heartbeat_interval (si_options si) = 0
      then do {
        si \<leftarrow> each idle_one [0..<length (si_replicas si)] si;
        cs \<leftarrow> those (map cl_on_idle (si_clients si));
        Some (si\<lparr>si_clients := cs\<rparr>) }
      else Some si)"

section \<open>The steps of the replicas\<close>

text \<open>Each message that leaves is checked against the disk, then handed on.\<close>

definition checked_send :: "ReplicaID \<Rightarrow> (sim_mailbox, property_error) sender" where
  "checked_send i p r dst m sent = (case check_promise i r p m of Inl e \<Rightarrow> Inl e | Inr _ \<Rightarrow> Inr (sent @ [(dst, m)]))"

definition post :: "dice \<Rightarrow> origin \<Rightarrow> ReplicaID \<times> sim_message \<Rightarrow> simulator \<Rightarrow> simulator" where
  "post dc from x si =
     si\<lparr>si_network := net_send (si_network si) (si_ticks si) from (fst x) (snd x) (di_send dc (si_draws si)),
        si_draws := si_draws si + 1\<rparr>"

definition post_reply :: "dice \<Rightarrow> i64 reply \<Rightarrow> simulator \<Rightarrow> simulator option" where
  "post_reply dc reply si =
     (case net_send_reply (si_network si) (si_ticks si) reply (di_send dc (si_draws si)) of (nw, now) \<Rightarrow>
        let si = si\<lparr>si_network := nw, si_draws := si_draws si + 1\<rparr>
        in case now of None \<Rightarrow> Some si | Some reply \<Rightarrow> deliver_reply reply si)"

text \<open>The odds of a step: what it does if power is lost, lands or stays out is drawn.\<close>

definition power_odds :: "bool \<Rightarrow> bool \<Rightarrow> simulator \<Rightarrow> rat \<times> rat" where
  "power_odds stepped certain si =
     (if certain then (1, 1)
      else if stepped \<and> \<not> si_liveness_mode si
      then (so_checkpoint_power_loss_probability (si_options si), so_step_power_loss_probability (si_options si))
      else (0, 0))"

definition draw_step :: "dice \<Rightarrow> rat \<times> rat \<Rightarrow> simulator \<Rightarrow> step_choices" where
  "draw_step dc odds si =
     \<lparr>ch_power = (\<lambda>installed. happens (if installed then fst odds else snd odds) (di_bool dc (si_draws si))),
      ch_land = happens (so_write_land_probability (si_options si)) (di_bool dc (si_draws si + 1)),
      ch_out = happens (so_write_out_probability (si_options si)) (di_bool dc (si_draws si + 2))\<rparr>"

definition end_step :: "dice \<Rightarrow> nat \<Rightarrow> disk_step_end \<Rightarrow> simulator \<Rightarrow> simulator option" where
  "end_step dc i st si = (case st of
     PowerLost \<Rightarrow> blackout_one dc i si
   | Persisted \<Rightarrow> do { xs \<leftarrow> set_chk (si_stepped si) i False; Some (si\<lparr>si_stepped := xs\<rparr>) }
   | WriteOut \<Rightarrow> do { xs \<leftarrow> set_chk (si_stepped si) i True; Some (si\<lparr>si_stepped := xs\<rparr>) })"

definition step_one :: "dice \<Rightarrow> nat \<Rightarrow> simulator \<Rightarrow> (sim_error + simulator) option" where
  "step_one dc i si = do {
     stepped \<leftarrow> nth_chk (si_stepped si) i;
     r \<leftarrow> nth_chk (si_replicas si) i;
     d \<leftarrow> nth_chk (si_disks si) i;
     let certain = (stepped \<and> i \<in> si_lose_step si);
     let si = (if certain then si\<lparr>si_lose_step := si_lose_step si - {i}\<rparr> else si);
     let ch = draw_step dc (power_odds stepped certain si) si;
     let si = (si\<lparr>si_draws := si_draws si + 3\<rparr>);
     let si = (if dk_applied d < log_start r
               then count (\<lambda>c. c\<lparr>co_restores := co_restores c + 1\<rparr>) si else si);
     and_then (failing (disk_step (checked_send i) ch d r [] [])) (\<lambda>(d, r, sent, replies, st).
       lift (do {
         let si = fold (post dc (FromReplica i)) sent (put_site i d r si);
         si \<leftarrow> each (post_reply dc) replies si;
         end_step dc i st si })) }"

definition step_up :: "dice \<Rightarrow> nat \<Rightarrow> simulator \<Rightarrow> (sim_error + simulator) option" where
  "step_up dc i si = do {
     up \<leftarrow> nth_chk (si_up si) i;
     if up then step_one dc i si else Some (Inr si) }"

definition drain_client :: "dice \<Rightarrow> nat \<Rightarrow> simulator \<Rightarrow> simulator option" where
  "drain_client dc c si = do {
     cl \<leftarrow> nth_chk (si_clients si) c;
     let (cl, ms) = cl_drain cl;
     Some (fold (post dc (FromClient c)) ms (si\<lparr>si_clients := (si_clients si)[c := cl]\<rparr>)) }"

definition sim_flush :: "dice \<Rightarrow> simulator \<Rightarrow> (sim_error + simulator) option" where
  "sim_flush dc si =
     and_then (record_committed si) (\<lambda>si.
     and_then (check_each properties_before_steps si) (\<lambda>si.
     and_then (try_each (step_up dc) [0..<length (si_replicas si)] si) (\<lambda>si.
       lift (each (drain_client dc) [0..<length (si_clients si)] si))))"

section \<open>The network\<close>

definition cut_off :: "envelope \<Rightarrow> simulator \<Rightarrow> bool" where
  "cut_off e si \<longleftrightarrow> env_to e \<in> si_partitioned si
     \<or> (case env_from e of FromReplica i \<Rightarrow> i \<in> si_partitioned si | FromClient _ \<Rightarrow> False)"

definition deliver_message :: "envelope \<Rightarrow> simulator \<Rightarrow> simulator option" where
  "deliver_message e si = do {
     up \<leftarrow> nth_chk (si_up si) (env_to e);
     if \<not> up \<or> cut_off e si then Some si
     else do {
       r \<leftarrow> nth_chk (si_replicas si) (env_to e);
       r \<leftarrow> on_message acc_sm r (env_message e);
       ensure (env_to e < length (si_stepped si));
       Some (si\<lparr>si_replicas := (si_replicas si)[env_to e := r],
                si_stepped := (si_stepped si)[env_to e := True]\<rparr>) } }"

definition deliver_due_replies :: "simulator \<Rightarrow> simulator option" where
  "deliver_due_replies si =
     (case take_due_replies (si_network si) (si_ticks si) of (nw, due) \<Rightarrow>
        each deliver_reply due (si\<lparr>si_network := nw\<rparr>))"

definition deliver_due :: "simulator \<Rightarrow> simulator option" where
  "deliver_due si =
     (case take_due (si_network si) (si_ticks si) of (nw, due) \<Rightarrow>
        each deliver_message due (si\<lparr>si_network := nw\<rparr>))"

definition tick_network :: "dice \<Rightarrow> simulator \<Rightarrow> (sim_error + simulator) option" where
  "tick_network dc si =
     and_then (lift (deliver_due_replies si)) (\<lambda>si.
     and_then (sim_flush dc si) (\<lambda>si.
     and_then (lift (deliver_due si)) (sim_flush dc)))"

definition tick :: "dice \<Rightarrow> simulator \<Rightarrow> (sim_error + simulator) option" where
  "tick dc si =
     and_then (lift (do {
       si \<leftarrow> tick_requests dc si;
       si \<leftarrow> tick_crash dc si;
       si \<leftarrow> tick_flush dc si;
       tick_heartbeat si })) (\<lambda>si.
     and_then (tick_network dc si) (\<lambda>si.
     and_then (record_committed si) (\<lambda>si.
     and_then (check_each properties_check si) (\<lambda>si.
       Some (Inr (si\<lparr>si_ticks := si_ticks si + 1\<rparr>))))))"

section \<open>The phases of a run\<close>

fun shuffle :: "dice \<Rightarrow> nat \<Rightarrow> nat list \<Rightarrow> simulator \<Rightarrow> nat list \<times> simulator" where
  "shuffle dc 0 xs si = (xs, si)"
| "shuffle dc (Suc i) xs si =
     (let (k, si) = draw_nat dc si;
          j = k mod (Suc i + 1)
      in shuffle dc i (xs[Suc i := xs ! j, j := xs ! Suc i]) si)"

definition settle_core :: "dice \<Rightarrow> nat list \<Rightarrow> nat \<Rightarrow> simulator \<Rightarrow> simulator option" where
  "settle_core dc members i si = do {
     up \<leftarrow> nth_chk (si_up si) i;
     if i \<in> set members then (if up then Some si else bring_up i si) else crash_replica dc i Pause si }"

definition split_recovering :: "simulator \<Rightarrow> nat list \<Rightarrow> (nat list \<times> nat list) option" where
  "split_recovering si candidates = do {
     flags \<leftarrow> those (map (sim_recovering si) candidates);
     Some (map fst (filter (\<lambda>x. \<not> snd x) (zip candidates flags)), map fst (filter snd (zip candidates flags))) }"

definition core_size :: "dice \<Rightarrow> simulator \<Rightarrow> (nat \<times> simulator) option" where
  "core_size dc si =
     (let n = so_replica_count (si_options si)
      in if so_full_core (si_options si) then Some (n, si) else draw_range dc (n div 2 + 1) n si)"

definition fill_core :: "dice \<Rightarrow> nat \<Rightarrow> nat list \<Rightarrow> nat list \<Rightarrow> simulator \<Rightarrow> nat list \<times> simulator" where
  "fill_core dc quorum healthy recovering si =
     (let filler = drop quorum healthy @ recovering;
          (filler, si) = shuffle dc (length filler - 1) filler si
      in (take quorum healthy @ filler, si))"

definition pick_core :: "dice \<Rightarrow> simulator \<Rightarrow> (nat list \<times> simulator) option" where
  "pick_core dc si = do {
     let n = so_replica_count (si_options si);
     let quorum = n div 2 + 1;
     (size, si) \<leftarrow> core_size dc si;
     let (candidates, si) = shuffle dc (n - 1) [0..<n] si;
     (healthy, recovering) \<leftarrow> split_recovering si candidates;
     ensure (quorum \<le> length healthy);
     let (members, si) = fill_core dc quorum healthy recovering si;
     Some (sort (take size members), si) }"

definition transition_to_liveness_mode :: "dice \<Rightarrow> simulator \<Rightarrow> simulator option" where
  "transition_to_liveness_mode dc si = do {
     let si = si\<lparr>si_liveness_mode := True, si_network := set_options (si_network si) network_perfect,
                 si_partitioned := {}\<rparr>;
     (members, si) \<leftarrow> pick_core dc si;
     si \<leftarrow> each (settle_core dc members) [0..<so_replica_count (si_options si)] si;
     Some (si\<lparr>si_core := members\<rparr>) }"

fun pending_in :: "simulator \<Rightarrow> OpNumber \<Rightarrow> nat list \<Rightarrow> string option option" where
  "pending_in si n [] = Some None"
| "pending_in si n (i # members) = do {
     r \<leftarrow> nth_chk (si_replicas si) i;
     d \<leftarrow> nth_chk (si_disks si) i;
     if op_number r \<noteq> n then Some (Some ''pending replica convergence'')
     else if commit_number r \<noteq> op_number r then Some (Some ''pending commit'')
     else if dk_outstanding d \<noteq> None then Some (Some ''pending write'')
     else pending_in si n members }"

definition pending :: "simulator \<Rightarrow> (sim_error + (string option \<times> simulator)) option" where
  "pending si =
     (if si_requests_replied si < si_requests_sent si then Some (Inr (Some ''pending request'', si))
      else if 0 < net_pending (si_network si) then Some (Inr (Some ''pending message'', si))
      else do {
        i \<leftarrow> nth_chk (si_core si) 0;
        r \<leftarrow> nth_chk (si_replicas si) i;
        reason \<leftarrow> pending_in si (op_number r) (si_core si);
        case reason of
          Some why \<Rightarrow> Some (Inr (Some why, si))
        | None \<Rightarrow> and_then (check_each properties_finalize si) (\<lambda>si. Some (Inr (None, si))) })"

record limits =
  lm_ticks_max_requests :: nat
  lm_ticks_max_convergence :: nat

definition limits_default :: limits where
  "limits_default = \<lparr>lm_ticks_max_requests = 1000000, lm_ticks_max_convergence = 1000000\<rparr>"

definition safety_step :: "dice \<Rightarrow> limits \<Rightarrow> simulator \<Rightarrow> (sim_error + simulator) option" where
  "safety_step dc lm si =
     (let replied_before = si_requests_replied si
      in and_then (tick dc si) (\<lambda>si.
        let si = si\<lparr>si_ticks_since_reply := (if replied_before < si_requests_replied si then 0 else si_ticks_since_reply si + 1)\<rparr>;
            finished = (si_requests_replied si = so_requests_max (si_options si))
        in if finished \<or> lm_ticks_max_requests lm \<le> si_ticks_since_reply si
           then lift (do {
             si \<leftarrow> transition_to_liveness_mode dc (si\<lparr>si_requests_done := finished\<rparr>);
             Some (si\<lparr>si_phase := Liveness\<rparr>) })
           else Some (Inr si)))"

definition liveness_step :: "dice \<Rightarrow> limits \<Rightarrow> simulator \<Rightarrow> (sim_error + simulator) option" where
  "liveness_step dc lm si =
     (if lm_ticks_max_convergence lm \<le> si_liveness_ticks si
      then and_then (pending si) (\<lambda>(reason, si).
        Some (Inl (NoConvergence (case reason of None \<Rightarrow> ''nothing'' | Some why \<Rightarrow> why))))
      else and_then (tick dc si) (\<lambda>si.
        and_then (pending (si\<lparr>si_liveness_ticks := si_liveness_ticks si + 1\<rparr>)) (\<lambda>(reason, si).
          if reason \<noteq> None then Some (Inr si)
          else if \<not> si_requests_done si then Some (Inl NoLiveness)
          else Some (Inr (si\<lparr>si_phase := Done\<rparr>)))))"

definition step_run :: "dice \<Rightarrow> limits \<Rightarrow> simulator \<Rightarrow> (sim_error + simulator) option" where
  "step_run dc lm si = (case si_phase si of
     Safety \<Rightarrow> safety_step dc lm si
   | Liveness \<Rightarrow> liveness_step dc lm si
   | Done \<Rightarrow> Some (Inr si))"

text \<open>
  A run with a script: the faults that are due, then a step, until the run is done.  The loop
  need not end, as far as this model goes: it runs out of fuel where the code would go on.
\<close>

fun apply_due :: "dice \<Rightarrow> (nat \<times> fault) list \<Rightarrow> simulator \<Rightarrow> (simulator \<times> (nat \<times> fault) list) option" where
  "apply_due dc [] si = Some (si, [])"
| "apply_due dc ((t, f) # script) si =
     (if t \<le> si_ticks si then do { si \<leftarrow> apply_fault dc f si; apply_due dc script si } else Some (si, (t, f) # script))"

fun run_script :: "nat \<Rightarrow> dice \<Rightarrow> limits \<Rightarrow> (nat \<times> fault) list \<Rightarrow> simulator \<Rightarrow> (sim_error + simulator) option" where
  "run_script 0 dc lm script si = None"
| "run_script (Suc fuel) dc lm script si =
     (if si_phase si = Done then Some (Inr si)
      else do {
        (si, script) \<leftarrow> apply_due dc script si;
        and_then (step_run dc lm si) (run_script fuel dc lm script) })"

end
