(* ===== verification/Sim_Sites.thy ===== *)
theory Sim_Sites
  imports Sim_Tick
begin

text \<open>
  Every replica of a simulation and its disk are a node that the library's contract allows,
  through every crash, reboot, flush and delivery the simulator makes.
\<close>

section \<open>What leaves a replica\<close>

lemma send_all_checked: "send_all (checked_send i) p r ms w = Inr w' \<Longrightarrow> w' = w @ ms"
proof (induction ms arbitrary: w)
  case (Cons x ms)
  obtain dst m where x: "x = (dst, m)" by (cases x)
  have "checked_send i p r dst m w = Inr (w @ [(dst, m)]) \<or> (\<exists>e. checked_send i p r dst m w = Inl e)"
    by (auto simp: checked_send_def split: sum.splits)
  with Cons.prems Cons.IH [of "w @ [(dst, m)]"] x show ?case by auto
qed simp

lemma checked_release:
  assumes "disk_release (checked_send i) d r w reps = Some (Inr (d', r', w', reps'))" and "w = map snd v"
  shows "\<exists>v'. disk_release record_send d r v reps = Some (Inr (d', r', v', reps')) \<and> w' = map snd v'"
proof -
  obtain ra ms where ra: "drain_messages r = (ra, ms)" by (cases "drain_messages r")
  obtain rb rs where rb: "drain_replies ra = (rb, rs)" by (cases "drain_replies ra")
  show ?thesis
    using assms by (auto simp: disk_release_def ra rb send_all_record comp_def dest!: send_all_checked)
qed

lemma checked_land:
  assumes "land_and_release (checked_send i) d r w reps = Some (Inr (d', r', w', reps'))" and "w = map snd v"
  shows "\<exists>v'. land_and_release record_send d r v reps = Some (Inr (d', r', v', reps')) \<and> w' = map snd v'"
  using assms checked_release by (fastforce simp: land_and_release_def bind_eq_Some_conv)

lemma checked_land_out:
  assumes "land_out (checked_send i) ch d r w reps = Some (Inr (d', r', w', reps'))" and "w = map snd v"
  shows "\<exists>v'. land_out record_send ch d r v reps = Some (Inr (d', r', v', reps')) \<and> w' = map snd v'"
  using assms checked_land by (auto simp: land_out_def split: if_splits)

lemma checked_next:
  assumes "next_write (checked_send i) ch d r w reps = Some (Inr (d', r', w', reps'))" and "w = map snd v"
  shows "\<exists>v'. next_write record_send ch d r v reps = Some (Inr (d', r', v', reps')) \<and> w' = map snd v'"
proof (cases "dk_outstanding d = None")
  case False
  with assms show ?thesis by (auto simp: next_write_def)
next
  case True
  with assms(1) obtain ra lw where ra: "take_write r = Some (ra, lw)"
    and rest: "(if lw_sync lw \<and> ch_out ch then Some (Inr (d\<lparr>dk_outstanding := Some lw\<rparr>, ra, w, reps))
      else land_and_release (checked_send i) (d\<lparr>dk_outstanding := Some lw\<rparr>) ra w reps) = Some (Inr (d', r', w', reps'))"
    by (auto simp: next_write_def Let_def bind_eq_Some_conv)
  with True checked_land [OF _ assms(2)] assms(2) show ?thesis
    by (cases "lw_sync lw \<and> ch_out ch") (auto simp: next_write_def)
qed

text \<open>A step that the check of promises lets through is the owner's step.\<close>

lemma checked_step:
  assumes "disk_step (checked_send i) ch d r w reps = Some (Inr (d', r', w', reps', st))" and "w = map snd v"
  shows "\<exists>v'. disk_step record_send ch d r v reps = Some (Inr (d', r', v', reps', st)) \<and> w' = map snd v'"
proof -
  obtain ra ms where ra: "drain_messages_before_persist r = (ra, ms)" by (cases "drain_messages_before_persist r")
  obtain rb rs where rb: "drain_replies ra = (rb, rs)" by (cases "drain_replies ra")
  define da where "da = (if dk_applied d < log_start rb then disk_flush d rb else d)"
  define va where "va = v @ map (Pair (dk_state d)) ms"
  have step: "(if ch_power ch (dk_applied d < log_start rb) then Some (Inr (da, rb, map snd va, reps @ rs, PowerLost))
     else and_then (land_out (checked_send i) ch da rb (map snd va) (reps @ rs)) (\<lambda>(d, r, w, reps).
       and_then (next_write (checked_send i) ch d r w reps) (\<lambda>(d, r, w, reps).
         Some (Inr (d, r, w, reps, if dk_outstanding d \<noteq> None then WriteOut else Persisted)))))
     = Some (Inr (d', r', w', reps', st))"
    using assms by (auto simp: disk_step_def ra rb da_def va_def comp_def Let_def split: if_splits dest!: send_all_checked)
  show ?thesis
  proof (cases "ch_power ch (dk_applied d < log_start rb)")
    case True
    with step show ?thesis by (auto simp: disk_step_def ra rb send_all_record da_def va_def Let_def)
  next
    case False
    with step obtain db rc wb repsb where
      l: "land_out (checked_send i) ch da rb (map snd va) (reps @ rs) = Some (Inr (db, rc, wb, repsb))"
      and n: "next_write (checked_send i) ch db rc wb repsb = Some (Inr (d', r', w', reps'))"
      and st: "st = (if dk_outstanding d' \<noteq> None then WriteOut else Persisted)"
      by auto
    from checked_land_out [OF l refl] obtain vb where
      vb: "land_out record_send ch da rb va (reps @ rs) = Some (Inr (db, rc, vb, repsb))" "wb = map snd vb" by blast
    from checked_next [OF n vb(2)] obtain vc where
      "next_write record_send ch db rc vb repsb = Some (Inr (d', r', vc, reps'))" "w' = map snd vc" by blast
    with vb False st show ?thesis
      by (auto simp: disk_step_def ra rb send_all_record da_def va_def Let_def)
  qed
qed

lemma step_power_lost:
  assumes "disk_step sd ch d r w reps = Some (Inr (d', r', w', reps', PowerLost))"
  shows "\<exists>x. ch_power ch x"
proof -
  obtain ra ms where ra: "drain_messages_before_persist r = (ra, ms)" by (cases "drain_messages_before_persist r")
  obtain rb rs where rb: "drain_replies ra = (rb, rs)" by (cases "drain_replies ra")
  from assms show ?thesis by (auto simp: disk_step_def ra rb Let_def split: if_splits)
qed

section \<open>What an owner may do\<close>

lemma owner_run:
  assumes ok: "owner_ok d r h" and step: "run_step acc_sm (disk_node d r h) (disk_node d r' h)"
  shows "owner_ok d r' h \<and> config r' = config r \<and> self_id r' = self_id r \<and> commit_number r \<le> commit_number r'"
  using owner_ok_run [OF ok step] ok run_step_progress [OF step owner_ok_inv [OF ok]]
  by (simp add: owner_ok_def progress_def disk_node_def)

lemma owner_runs:
  assumes "owner_ok d r h"
    and "on_message acc_sm r m = Some r' \<or> on_idle acc_sm r = Some r' \<or> compact r n = Some r'"
  shows "owner_ok d r' h \<and> config r' = config r \<and> self_id r' = self_id r \<and> commit_number r \<le> commit_number r'"
proof (rule owner_run [OF assms(1)])
  show "run_step acc_sm (disk_node d r h) (disk_node d r' h)"
    using assms(2) run_step.message [of acc_sm "disk_node d r h" m r'] run_step.idle [of acc_sm "disk_node d r h" r']
      run_step.compacted [of "disk_node d r h" n r'] by (auto simp: disk_node_def)
qed

lemma compact_log_start: "compact r n = Some r' \<Longrightarrow> log_start r' \<le> max n (log_start r)"
  by (auto simp: compact_def Let_def bind_eq_Some_conv split: if_splits option.splits)

lemma owner_reboot:
  assumes "recover i cfg acc_default v nonce = Some r" and "i < replica_count cfg"
  shows "owner_ok (for_recovery v) r [] \<and> config r = cfg \<and> self_id r = i \<and> log_start r \<le> dk_applied (for_recovery v)"
proof -
  from assms(1) obtain rn where rn: "replica_new i cfg acc_default = Some rn"
    and r: "r = send_recovery (rn\<lparr>status := Recovering, view_number := v, recovery_nonce := nonce\<rparr>)"
    by (auto simp: recover_def bind_eq_Some_conv)
  then have "log_start r = 0" "config r = cfg" "self_id r = i"
    using mailed_send_recovery [of "\<lambda>_. True" "rn\<lparr>status := Recovering, view_number := v, recovery_nonce := nonce\<rparr>"]
    by (auto elim!: mailedE simp: replica_new_def split: if_splits)
  moreover have "node_init (disk_node (for_recovery v) r [])"
    unfolding disk_node_def for_recovery_def disk_default_def
    using node_init.diskless [OF assms, of "ps_empty\<lparr>ps_view_number := v, ps_recovering := True\<rparr>"] by simp
  ultimately show ?thesis
    by (auto simp: owner_ok_def flush_ok_def for_recovery_def disk_default_def ps_empty_def intro: reachable.init)
qed

lemma owner_flush_up_to:
  assumes "owner_ok d r h" and "flush_up_to d r n = Some d'"
  shows "owner_ok d' r h \<and> dk_state d' = dk_state d \<and> dk_outstanding d' = dk_outstanding d \<and> dk_applied d \<le> dk_applied d'"
  using assms by (auto simp: flush_up_to_def owner_ok_def disk_node_def flush_ok_def bind_eq_Some_conv split: if_splits)

text \<open>A replica that comes back from its disk holds no more compacted than its flush covers.\<close>

lemma start_view_change_log_start:
  assumes "start_view_change sm r v = Some r'" and "2 \<le> replica_count (config r)"
  shows "log_start r' = log_start r"
proof -
  let ?r = "clear_view_change_state ((if status r = ViewChange
     then r\<lparr>view_change_attempts := view_change_attempts r + 1\<rparr> else r)\<lparr>view_number := v, status := ViewChange,
       idle_periods_waiting := 0\<rparr>)"
  have "start_view_change_from ?r = {}" "config ?r = config r" "log_start ?r = log_start r"
    by (simp_all add: clear_view_change_state_def)
  moreover have "start_view_change_from (send_to_others q m) = start_view_change_from q"
    "config (send_to_others q m) = config q" "log_start (send_to_others q m) = log_start q" for q :: "('a, 'b, 'c, 'd, 'e) replica" and m
    using mailed_send_to_others [of "\<lambda>_. True" m q] by (auto elim!: mailedE)
  ultimately show ?thesis
    using assms by (auto simp: start_view_change_def maybe_send_do_view_change_def Let_def split: if_splits)
qed

lemma rebuild_pending_log_start: "rebuild_pending r = Some r' \<Longrightarrow> log_start r' = log_start r \<and> config r' = config r"
  by (auto simp: rebuild_pending_def Let_def bind_eq_Some_conv split: if_splits)

lemma restart_covered:
  assumes step: "restart sm i cfg s appl p nonce = Some r'" and i: "i < replica_count cfg"
    and lnv: "ps_last_normal_view p \<le> ps_view_number p" and three: "3 \<le> replica_count cfg"
  shows "log_start r' \<le> appl"
proof -
  from step obtain r ra rb where r: "restart_from i cfg s appl p nonce = Some r"
    and ra: "apply_committed sm (boot_state sm r appl p) (durable (boot_state sm r appl p)) = Some ra"
    and rb: "rebuild_pending ra = Some rb"
    and last: "r' = rb \<or> (\<exists>v. start_view_change sm rb v = Some r')"
    by (auto simp: restart_def boot_state_def Let_def bind_eq_Some_conv split: if_splits)
  note b = restart_from_booting [OF r i lnv]
  have "log_start ra = log_start (boot_state sm r appl p) \<and> config ra = config (boot_state sm r appl p)"
    using executed_same_log [OF apply_committed_executed [OF ra]] by (simp add: same_log_def)
  moreover have "log_start (boot_state sm r appl p) = log_start r \<and> config (boot_state sm r appl p) = cfg"
    using b by (simp add: boot_state_def Let_def load_client_table_def)
  ultimately have rb': "log_start rb = log_start r" "config rb = cfg"
    using rebuild_pending_log_start [OF rb] by simp_all
  moreover have "log_start r' = log_start rb"
    using last start_view_change_log_start three rb'(2) by fastforce
  ultimately show ?thesis using b(2) by simp
qed

section \<open>A site\<close>

text \<open>
  What holds of a replica \<open>i\<close> of a simulation and its disk, with whether it is up, how it went
  down, whether it stepped, and what was its commit number when it was last checked.  A replica
  that has not stepped since its last write has its memory on disk, unless it was just rebuilt
  from the disk.  \<open>flushed\<close> asks that the state machine's flush covers what the log lost.
\<close>

definition site_ok ::
  "bool \<Rightarrow> config \<Rightarrow> nat \<Rightarrow> disk \<Rightarrow> sim_replica \<Rightarrow> bool \<Rightarrow> crash_kind \<Rightarrow> bool \<Rightarrow> nat \<Rightarrow> bool" where
  "site_ok flushed cfg i d r up kind stepped seen \<longleftrightarrow>
     (\<exists>h. owner_ok d r h) \<and> self_id r = i \<and> config r = cfg
     \<and> (\<not> stepped \<and> (up \<or> kind = Pause) \<longrightarrow> dk_outstanding d = None \<and> disk_matches (dk_state d) r)
     \<and> (flushed \<or> \<not> up \<longrightarrow> log_start r \<le> dk_applied d)
     \<and> seen \<le> commit_number r"

definition last_commit_of :: "nat list \<Rightarrow> nat \<Rightarrow> nat" where
  "last_commit_of lc i = (if i < length lc then lc ! i else 0)"

definition sites_at :: "bool \<Rightarrow> simulator \<Rightarrow> nat \<Rightarrow> bool" where
  "sites_at flushed si i = site_ok flushed (si_config si) i (si_disks si ! i) (si_replicas si ! i) (si_up si ! i)
     (si_crash_kind si ! i) (si_stepped si ! i) (last_commit_of (pp_last_commit (si_properties si)) i)"

definition sites_shape :: "simulator \<Rightarrow> bool" where
  "sites_shape si \<longleftrightarrow> length (si_replicas si) = replica_count (si_config si)
     \<and> length (si_disks si) = replica_count (si_config si) \<and> length (si_up si) = replica_count (si_config si)
     \<and> length (si_crash_kind si) = replica_count (si_config si) \<and> length (si_stepped si) = replica_count (si_config si)
     \<and> 3 \<le> replica_count (si_config si)"

text \<open>\<open>flushed\<close> picks the replicas whose flush covers what their log lost although they are up.\<close>

definition sites_inv :: "(nat \<Rightarrow> bool) \<Rightarrow> simulator \<Rightarrow> bool" where
  "sites_inv flushed si \<longleftrightarrow> sites_shape si \<and> (\<forall>i < replica_count (si_config si). sites_at (flushed i) si i)"

abbreviation all_sites :: "simulator \<Rightarrow> bool" where
  "all_sites \<equiv> sites_inv (\<lambda>_. True)"

abbreviation some_sites :: "simulator \<Rightarrow> bool" where
  "some_sites \<equiv> sites_inv (\<lambda>_. False)"

text \<open>What the invariant reads of a simulation.\<close>

definition sites :: "simulator \<Rightarrow> config \<times> disk list \<times> sim_replica list \<times> bool list \<times> crash_kind list \<times> bool list \<times> nat list" where
  "sites si = (si_config si, si_disks si, si_replicas si, si_up si, si_crash_kind si, si_stepped si,
     pp_last_commit (si_properties si))"

lemma sites_inv_cong: "sites si' = sites si \<Longrightarrow> sites_inv b si' = sites_inv b si"
  by (simp add: sites_def sites_inv_def sites_shape_def sites_at_def)

lemma sites_inv_weaken: "sites_inv b si \<Longrightarrow> (\<And>i. i < replica_count (si_config si) \<Longrightarrow> c i \<Longrightarrow> b i) \<Longrightarrow> sites_inv c si"
  by (auto simp: sites_inv_def sites_at_def site_ok_def)

lemma sites_invD:
  assumes "sites_inv b si" and "i < replica_count (si_config si)"
  shows "sites_at (b i) si i" and "i < length (si_replicas si)" and "i < length (si_disks si)" and "i < length (si_up si)"
    and "i < length (si_crash_kind si)" and "i < length (si_stepped si)" and "3 \<le> replica_count (si_config si)"
  using assms by (auto simp: sites_inv_def sites_shape_def)

text \<open>A change at one site.\<close>

lemma sites_inv_change:
  assumes "sites_inv b si" and "si_config si' = si_config si"
    and "\<exists>d. si_disks si' = (si_disks si)[i := d]" and "\<exists>r. si_replicas si' = (si_replicas si)[i := r]"
    and "\<exists>u. si_up si' = (si_up si)[i := u]" and "\<exists>k. si_crash_kind si' = (si_crash_kind si)[i := k]"
    and "\<exists>s. si_stepped si' = (si_stepped si)[i := s]"
    and "pp_last_commit (si_properties si') = pp_last_commit (si_properties si)
      \<or> pp_last_commit (si_properties si') = (pp_last_commit (si_properties si))[i := 0]"
    and "i < replica_count (si_config si) \<Longrightarrow> sites_at (c i) si' i" and "\<And>j. j \<noteq> i \<Longrightarrow> c j \<Longrightarrow> b j"
  shows "sites_inv c si'"
proof -
  have "sites_at (c j) si' j" if "j < replica_count (si_config si)" for j
  proof (cases "j = i")
    case True
    with assms(9) that show ?thesis by simp
  next
    case False
    with assms(2-8) have "sites_at x si' j = sites_at x si j" for x
      by (auto simp: sites_at_def last_commit_of_def)
    with assms(1) assms(10) [OF False] that show ?thesis by (auto simp: sites_inv_def sites_at_def site_ok_def)
  qed
  moreover have "sites_shape si'" using assms(1-7) by (auto simp: sites_inv_def sites_shape_def)
  ultimately show ?thesis using assms(2) by (simp add: sites_inv_def)
qed

end
