(* ===== verification/Sim_Sound.thy ===== *)
theory Sim_Sound
  imports Sim_Sites
begin

text \<open>
  What the simulator does to a replica and its disk keeps the site as it should be: crashes,
  restarts, reboots, flushes, deliveries, and the steps of the owner.
\<close>

section \<open>What leaves the sites alone\<close>

lemma ex_same [simp]: "\<exists>x. xs = xs[i := x]"
  by (metis list_update_id)

lemma ex_set [simp]: "\<exists>x. xs[i := y] = xs[i := x]"
  by blast

lemma sites_draw [simp]:
  "draw_bool dc p si = (x, si') \<Longrightarrow> sites si' = sites si"
  "draw_nat dc si = (n, si') \<Longrightarrow> sites si' = sites si"
  "draw_range dc a b si = Some (n, si') \<Longrightarrow> sites si' = sites si"
  by (auto simp: draw_bool_def draw_nat_def draw_range_def sites_def split: if_splits)

lemma sites_count [simp]: "sites (count f si) = sites si"
  by (simp add: count_def sites_def)

lemma sites_stable [simp]: "stable_from i t si = Some si' \<Longrightarrow> sites si' = sites si"
  by (auto simp: stable_from_def bind_eq_Some_conv sites_def)

lemma count_fields [simp]:
  "si_config (count f si) = si_config si" "si_disks (count f si) = si_disks si" "si_up (count f si) = si_up si"
  "si_replicas (count f si) = si_replicas si" "si_crash_kind (count f si) = si_crash_kind si"
  "si_stepped (count f si) = si_stepped si" "si_properties (count f si) = si_properties si"
  "si_options (count f si) = si_options si" "si_draws (count f si) = si_draws si"
  by (simp_all add: count_def)

lemma put_site_fields [simp]:
  "si_config (put_site i d r si) = si_config si" "si_disks (put_site i d r si) = (si_disks si)[i := d]"
  "si_up (put_site i d r si) = si_up si" "si_replicas (put_site i d r si) = (si_replicas si)[i := r]"
  "si_crash_kind (put_site i d r si) = si_crash_kind si" "si_stepped (put_site i d r si) = si_stepped si"
  "si_properties (put_site i d r si) = si_properties si" "si_options (put_site i d r si) = si_options si"
  by (simp_all add: put_site_def)

lemma restart_properties_fields [simp]:
  "si_config (restart_properties i si) = si_config si" "si_disks (restart_properties i si) = si_disks si"
  "si_up (restart_properties i si) = si_up si" "si_replicas (restart_properties i si) = si_replicas si"
  "si_crash_kind (restart_properties i si) = si_crash_kind si" "si_stepped (restart_properties i si) = si_stepped si"
  "pp_last_commit (si_properties (restart_properties i si)) = (pp_last_commit (si_properties si))[i := 0]"
  by (simp_all add: restart_properties_def properties_restart_def)

lemma last_commit_of_reset [simp]: "last_commit_of (xs[i := 0]) i = 0"
  by (simp add: last_commit_of_def)

lemma nth_chk_eq_Some: "nth_chk xs i = Some x \<longleftrightarrow> i < length xs \<and> x = xs ! i"
  by (auto simp: nth_chk_def)

section \<open>Restarts\<close>

lemma bring_up_ok:
  assumes inv: "sites_inv b si" and step: "bring_up i si = Some si'"
  shows "sites_inv b si'"
proof (rule sites_inv_change [OF inv, of si' i b])
  assume i: "i < replica_count (si_config si)"
  from sites_invD(1) [OF inv i] sites_invD(2-) [OF inv i] step show "sites_at (b i) si' i"
    by (auto simp: bring_up_def bind_eq_Some_conv nth_chk_eq_Some sites_at_def site_ok_def Let_def split: if_splits)
qed (use step in \<open>auto simp: bring_up_def bind_eq_Some_conv Let_def split: if_splits\<close>)

lemma reboot_ok:
  assumes inv: "sites_inv b si" and step: "reboot_replica dc i si = Some sa" "bring_up i sa = Some si'"
  shows "sites_inv b si'"
proof -
  from step(1) obtain d r v n where d: "nth_chk (si_disks si) i = Some d"
    and r: "recover i (si_config si) acc_default v n = Some r"
    and sa: "si_config sa = si_config si" "si_disks sa = (si_disks si)[i := for_recovery v]"
      "si_replicas sa = (si_replicas si)[i := r]" "si_up sa = si_up si" "si_crash_kind sa = (si_crash_kind si)[i := PowerLoss]"
      "si_stepped sa = si_stepped si" "pp_last_commit (si_properties sa) = (pp_last_commit (si_properties si))[i := 0]"
    by (auto simp: reboot_replica_def draw_nat_def bind_eq_Some_conv Let_def split: if_splits)
  show ?thesis
  proof (rule sites_inv_change [OF inv, of si' i b])
    assume i: "i < replica_count (si_config si)"
    from owner_reboot [OF r i] sites_invD(2-) [OF inv i] step(2) sa show "sites_at (b i) si' i"
      by (auto simp: bring_up_def bind_eq_Some_conv nth_chk_eq_Some sites_at_def site_ok_def Let_def split: if_splits)
  qed (use step(2) sa in \<open>auto simp: bring_up_def bind_eq_Some_conv Let_def split: if_splits\<close>)
qed

end
