(* ===== verification/Sim_Crash.thy ===== *)
theory Sim_Crash
  imports Sim_Sound
begin

text \<open>
  Crashes, flushes, deliveries and the owner's step of a simulation, site by site.
\<close>

section \<open>Crashes\<close>

lemma lose_memory_fields:
  assumes "lose_memory i differs si = Some si'"
  shows "si_config si' = si_config si" "si_disks si' = si_disks si" "si_replicas si' = si_replicas si"
    "si_up si' = si_up si" "si_crash_kind si' = si_crash_kind si" "si_stepped si' = (si_stepped si)[i := False]"
    "si_properties si' = si_properties si"
proof -
  obtain stepped where st: "nth_chk (si_stepped si) i = Some stepped"
    using assms by (auto simp: lose_memory_def bind_eq_Some_conv)
  have "(si_stepped si)[i := False] = si_stepped si" if "\<not> stepped"
    using st that by (auto simp: nth_chk_eq_Some intro: list_update_same_conv [THEN iffD2])
  with assms st show "si_config si' = si_config si" "si_disks si' = si_disks si" "si_replicas si' = si_replicas si"
    "si_up si' = si_up si" "si_crash_kind si' = si_crash_kind si" "si_stepped si' = (si_stepped si)[i := False]"
    "si_properties si' = si_properties si"
    by (auto simp: lose_memory_def split: if_splits)
qed

lemma rebuild_fields:
  assumes "rebuild dc i d r si = Some si'"
  obtains r' nonce where "disk_restart d i (si_config si) nonce = Some r'"
    and "si_config si' = si_config si" and "si_disks si' = (si_disks si)[i := d]"
    and "si_replicas si' = (si_replicas si)[i := r']" and "si_up si' = si_up si"
    and "si_crash_kind si' = (si_crash_kind si)[i := PowerLoss]" and "si_stepped si' = si_stepped si"
    and "pp_last_commit (si_properties si') = (if commit_number r' < commit_number r
         then (pp_last_commit (si_properties si))[i := 0] else pp_last_commit (si_properties si))"
proof -
  from assms obtain r' where "disk_restart d i (si_config si) (di_nat dc (si_draws si)) = Some r'"
    and "si' = (let sc = (put_site i d r' (si\<lparr>si_draws := si_draws si + 1\<rparr>))
           \<lparr>si_crash_kind := (si_crash_kind si)[i := PowerLoss]\<rparr>
         in if commit_number r' < commit_number r then restart_properties i sc else sc)"
    by (auto simp: rebuild_def draw_nat_def bind_eq_Some_conv Let_def)
  then show ?thesis by (intro that) (auto simp: Let_def)
qed

lemma lose_power_ok:
  assumes inv: "sites_inv b si" and down: "i < length (si_up si) \<Longrightarrow> \<not> si_up si ! i"
    and step: "lose_power dc i si = Some si'"
  shows "sites_inv b si'" and "si_up si' = si_up si"
proof -
  from step obtain d r d' out landed sa sb where d: "nth_chk (si_disks si) i = Some d"
    and r: "nth_chk (si_replicas si) i = Some r" and crash: "disk_crash d landed = Some (d', out)"
    and sa: "sa = count (count_crash_write out) (si\<lparr>si_draws := si_draws si + 1\<rparr>)"
    and sb: "lose_memory i (\<not> disk_matches (dk_state d') r) sa = Some sb" and re: "rebuild dc i d' r sb = Some si'"
    by (auto simp: lose_power_def draw_bool_def bind_eq_Some_conv)
  have same: "si_config sa = si_config si" "si_disks sa = si_disks si" "si_replicas sa = si_replicas si"
    "si_up sa = si_up si" "si_crash_kind sa = si_crash_kind si" "si_stepped sa = si_stepped si"
    "si_properties sa = si_properties si" by (simp_all add: sa)
  from rebuild_fields [OF re] lose_memory_fields [OF sb] same obtain r' nonce
    where r': "disk_restart d' i (si_config si) nonce = Some r'"
    and si': "si_config si' = si_config si" "si_disks si' = (si_disks si)[i := d']"
      "si_replicas si' = (si_replicas si)[i := r']" "si_up si' = si_up si"
      "si_crash_kind si' = (si_crash_kind si)[i := PowerLoss]"
      "si_stepped si' = (si_stepped si)[i := False]"
      "pp_last_commit (si_properties si') = (if commit_number r' < commit_number r
         then (pp_last_commit (si_properties si))[i := 0] else pp_last_commit (si_properties si))"
    by metis
  show "si_up si' = si_up si" by (rule si')
  show "sites_inv b si'"
  proof (rule sites_inv_change [OF inv, of si' i b])
    assume i: "i < replica_count (si_config si)"
    from sites_invD(1) [OF inv i] sites_invD(2-) [OF inv i] d r
    obtain h where ok: "owner_ok d r h" and same: "self_id r = i" "config r = si_config si"
      and seen: "last_commit_of (pp_last_commit (si_properties si)) i \<le> commit_number r"
      by (auto simp: sites_at_def site_ok_def nth_chk_eq_Some)
    from owner_restart [OF ok crash, of nonce r'] r' same
    have new: "owner_ok d' r' h" "config r' = si_config si" "self_id r' = i" by simp_all
    have "ps_ok (dk_state d')" using owner_ok_inv [OF new(1)] by (simp add: node_inv_def disk_inv_def disk_node_def)
    then have "log_start r' \<le> dk_applied d'"
      using restart_covered [OF r' [unfolded disk_restart_def] i] sites_invD(7) [OF inv i] by (simp add: ps_ok_def)
    with new seen down sites_invD(2-) [OF inv i] show "sites_at (b i) si' i"
      by (auto simp: sites_at_def site_ok_def si' not_less)
  qed (use si' in auto)
qed

text \<open>The state machine's flush covers what the log of a replica lost.\<close>

definition covered :: "simulator \<Rightarrow> nat \<Rightarrow> bool" where
  "covered si i \<longleftrightarrow> log_start (si_replicas si ! i) \<le> dk_applied (si_disks si ! i)"

lemma sites_inv_covered: "all_sites si \<longleftrightarrow> some_sites si \<and> (\<forall>i < replica_count (si_config si). covered si i)"
  by (auto simp: sites_inv_def sites_at_def site_ok_def covered_def)

lemma sites_fields:
  assumes "sites si' = sites si"
  shows "si_config si' = si_config si" "si_disks si' = si_disks si" "si_replicas si' = si_replicas si"
    "si_up si' = si_up si" "si_crash_kind si' = si_crash_kind si" "si_stepped si' = si_stepped si"
    "pp_last_commit (si_properties si') = pp_last_commit (si_properties si)" "covered si' j = covered si j"
  using assms by (simp_all add: sites_def covered_def)

lemma take_down_ok:
  assumes inv: "sites_inv b si" and c: "i < replica_count (si_config si) \<Longrightarrow> covered si i"
    and si': "si' = count f (si\<lparr>si_up := (si_up si)[i := False], si_crash_kind := (si_crash_kind si)[i := Pause]\<rparr>)"
    and up: "i < length (si_up si)" "si_up si ! i"
  shows "sites_inv b si'"
proof (rule sites_inv_change [OF inv, of si' i b])
  assume i: "i < replica_count (si_config si)"
  from sites_invD(1) [OF inv i] sites_invD(2-) [OF inv i] up c [OF i] show "sites_at (b i) si' i"
    by (auto simp: sites_at_def site_ok_def si' covered_def)
qed (auto simp: si')

lemma flush_crashed_ok:
  assumes inv: "sites_inv b si" and step: "flush_crashed dc i si = Some si'"
  shows "sites_inv b si' \<and> si_up si' = si_up si"
proof -
  from step obtain d r n d' where d: "nth_chk (si_disks si) i = Some d" and r: "nth_chk (si_replicas si) i = Some r"
    and d': "flush_up_to d r n = Some d'"
    and si': "si_config si' = si_config si" "si_disks si' = (si_disks si)[i := d']"
      "si_replicas si' = si_replicas si" "si_up si' = si_up si" "si_crash_kind si' = si_crash_kind si"
      "si_stepped si' = si_stepped si" "si_properties si' = si_properties si"
    by (auto simp: flush_crashed_def draw_range_def bind_eq_Some_conv Let_def split: if_splits)
  show ?thesis
  proof (intro conjI sites_inv_change [OF inv, of si' i b])
    assume i: "i < replica_count (si_config si)"
    note D = sites_invD [OF inv i]
    from D(1-3) d r obtain h where ok: "owner_ok d r h" by (auto simp: sites_at_def site_ok_def nth_chk_eq_Some)
    from owner_flush_up_to [OF ok d'] D d r show "sites_at (b i) si' i"
      by (auto simp: sites_at_def site_ok_def si' nth_chk_eq_Some)
  qed (use si' in auto)
qed

lemma kind_ok:
  assumes inv: "sites_inv b si" and "i < length (si_up si) \<Longrightarrow> \<not> si_up si ! i" and "k \<noteq> Pause"
  shows "sites_inv b (si\<lparr>si_crash_kind := (si_crash_kind si)[i := k]\<rparr>)"
proof (rule sites_inv_change [OF inv, of _ i b])
  assume i: "i < replica_count (si_config si)"
  from sites_invD [OF inv i] assms(2,3) show "sites_at (b i) (si\<lparr>si_crash_kind := (si_crash_kind si)[i := k]\<rparr>) i"
    by (auto simp: sites_at_def site_ok_def)
qed auto

lemma crash_replica_ok:
  assumes inv: "sites_inv b si" and c: "i < replica_count (si_config si) \<Longrightarrow> covered si i"
    and step: "crash_replica dc i kind si = Some si'"
  shows "sites_inv b si'"
proof -
  from step obtain up was where up: "nth_chk (si_up si) i = Some up" and was: "nth_chk (si_crash_kind si) i = Some was"
    and rest: "(if \<not> up \<and> was \<noteq> Pause then Some si else do {
       let sa = (if up then count (\<lambda>c. c\<lparr>co_crashes := co_crashes c + 1\<rparr>)
           (si\<lparr>si_up := (si_up si)[i := False], si_crash_kind := (si_crash_kind si)[i := Pause]\<rparr>) else si);
       case kind of
         Pause \<Rightarrow> Some sa
       | PowerLoss \<Rightarrow> do {
           si \<leftarrow> lose_power dc i (count (\<lambda>c. c\<lparr>co_power_losses := co_power_losses c + 1\<rparr>) sa);
           Some (si\<lparr>si_crash_kind := (si_crash_kind si)[i := PowerLoss]\<rparr>) }
       | ProcessCrash \<Rightarrow> do {
           si \<leftarrow> flush_crashed dc i (count (\<lambda>c. c\<lparr>co_process_crashes := co_process_crashes c + 1\<rparr>) sa);
           si \<leftarrow> lose_power dc i si;
           Some (si\<lparr>si_crash_kind := (si_crash_kind si)[i := ProcessCrash]\<rparr>) } }) = Some si'"
    unfolding crash_replica_def bind_eq_Some_conv by blast
  define sa where "sa = (if up then count (\<lambda>c. c\<lparr>co_crashes := co_crashes c + 1\<rparr>)
     (si\<lparr>si_up := (si_up si)[i := False], si_crash_kind := (si_crash_kind si)[i := Pause]\<rparr>) else si)"
  have sa: "sites_inv b sa" "i < length (si_up sa) \<Longrightarrow> \<not> si_up sa ! i"
    using take_down_ok [OF inv c] up inv by (auto simp: sa_def nth_chk_eq_Some)
  have sac: "sites_inv b (count f sa)" "i < length (si_up (count f sa)) \<Longrightarrow> \<not> si_up (count f sa) ! i" for f
    using sa sites_inv_cong [of "count f sa" sa] by simp_all
  show ?thesis
  proof (cases "\<not> up \<and> was \<noteq> Pause")
    case True
    with rest inv show ?thesis by simp
  next
    case False
    show ?thesis
    proof (cases kind)
      case Pause
      with rest False sa show ?thesis by (auto simp: sa_def [symmetric] Let_def)
    next
      case PowerLoss
      with rest False obtain sb where
        lp: "lose_power dc i (count (\<lambda>c. c\<lparr>co_power_losses := co_power_losses c + 1\<rparr>) sa) = Some sb"
        and si': "si' = sb\<lparr>si_crash_kind := (si_crash_kind sb)[i := PowerLoss]\<rparr>"
        unfolding sa_def [symmetric] Let_def by (auto simp: bind_eq_Some_conv)
      show ?thesis unfolding si' by (rule kind_ok) (use lose_power_ok [OF sac lp] sac(2) in auto)
    next
      case ProcessCrash
      with rest False obtain sb sc where
        fc: "flush_crashed dc i (count (\<lambda>c. c\<lparr>co_process_crashes := co_process_crashes c + 1\<rparr>) sa) = Some sb"
        and lp: "lose_power dc i sb = Some sc"
        and si': "si' = sc\<lparr>si_crash_kind := (si_crash_kind sc)[i := ProcessCrash]\<rparr>"
        unfolding sa_def [symmetric] Let_def by (auto simp: bind_eq_Some_conv)
      note f = flush_crashed_ok [OF sac(1) fc]
      show ?thesis unfolding si'
        by (rule kind_ok) (use lose_power_ok [OF conjunct1 [OF f] _ lp] conjunct2 [OF f] sac(2) in auto)
    qed
  qed
qed

section \<open>Flushes, idle periods, deliveries\<close>

lemma flush_replica_ok:
  assumes inv: "sites_inv b si" and step: "flush_replica i si = Some si'"
  shows "sites_inv b si'"
proof (cases "nth_chk (si_up si) i = Some False")
  case True
  with step inv show ?thesis by (simp add: flush_replica_def)
next
  case False
  with step obtain d r r' where d: "nth_chk (si_disks si) i = Some d" and r: "nth_chk (si_replicas si) i = Some r"
    and r': "compact r (dk_applied (disk_flush d r) - so_log_retention (si_options si)) = Some r'"
    and si': "si_config si' = si_config si" "si_disks si' = (si_disks si)[i := disk_flush d r]"
      "si_replicas si' = (si_replicas si)[i := r']" "si_up si' = si_up si" "si_crash_kind si' = si_crash_kind si"
      "si_stepped si' = (si_stepped si)[i := True]" "si_properties si' = si_properties si"
    by (auto simp: flush_replica_def bind_eq_Some_conv Let_def split: if_splits)
  show ?thesis
  proof (rule sites_inv_change [OF inv, of si' i b])
    assume i: "i < replica_count (si_config si)"
    note D = sites_invD [OF inv i]
    from D(1-3) d r obtain h where ok: "owner_ok d r h" by (auto simp: sites_at_def site_ok_def nth_chk_eq_Some)
    note new = owner_runs [OF owner_flush [OF ok] disjI2 [OF disjI2 [OF r']]]
    have "log_start r' \<le> dk_applied (disk_flush d r)"
      using compact_log_start [OF r'] owner_ok_bounds(1) [OF ok] by (simp add: disk_flush_def)
    with new D d r show "sites_at (b i) si' i"
      by (auto simp: sites_at_def site_ok_def si' nth_chk_eq_Some)
  qed (use si' in auto)
qed

text \<open>A replica that is up, and handed something, has stepped.\<close>

lemma site_steps:
  assumes inv: "some_sites si" and up: "nth_chk (si_up si) i = Some True" and r: "nth_chk (si_replicas si) i = Some r"
    and r': "on_message acc_sm r m = Some r' \<or> on_idle acc_sm r = Some r'"
    and si': "si' = si\<lparr>si_replicas := (si_replicas si)[i := r'], si_stepped := (si_stepped si)[i := True]\<rparr>"
  shows "some_sites si'"
proof (rule sites_inv_change [OF inv, of si' i])
  assume i: "i < replica_count (si_config si)"
  note D = sites_invD [OF inv i]
  from D(1-3) r obtain h where ok: "owner_ok (si_disks si ! i) r h"
    by (auto simp: sites_at_def site_ok_def nth_chk_eq_Some)
  from owner_runs [OF ok, of m r' 0] r' D r up show "sites_at False si' i"
    by (auto simp: sites_at_def site_ok_def si' nth_chk_eq_Some)
qed (auto simp: si')

lemma idle_one_ok: "some_sites si \<Longrightarrow> idle_one i si = Some si' \<Longrightarrow> some_sites si'"
  unfolding idle_one_def bind_eq_Some_conv
  by (auto simp: Let_def bind_eq_Some_conv split: if_splits intro: site_steps)

lemma deliver_message_ok: "some_sites si \<Longrightarrow> deliver_message e si = Some si' \<Longrightarrow> some_sites si'"
  unfolding deliver_message_def bind_eq_Some_conv
  by (auto simp: Let_def bind_eq_Some_conv split: if_splits intro: site_steps)

end
