(* ===== verification/Sim_Reach.thy ===== *)
theory Sim_Reach
  imports Sim_Crash
begin

text \<open>
  A simulation, from its start through ticks, phases and faults by hand: every replica and its
  disk stay a node that the library's contract allows.
\<close>

section \<open>Loops\<close>

lemma each_inv:
  assumes "each f xs s = Some s'" and "P s" and "\<And>x s s'. x \<in> set xs \<Longrightarrow> P s \<Longrightarrow> f x s = Some s' \<Longrightarrow> P s'"
  shows "P s'"
  using assms by (induction xs arbitrary: s) (auto simp: bind_eq_Some_conv)

lemma try_each_upto:
  assumes "try_each f [k..<n] s = Some (Inr s')" and "P k s" and "k \<le> n"
    and "\<And>i s s'. i < n \<Longrightarrow> P i s \<Longrightarrow> f i s = Some (Inr s') \<Longrightarrow> P (Suc i) s'"
  shows "P n s'"
  using assms
proof (induction "n - k" arbitrary: k s)
  case (Suc m)
  then have "k < n" by simp
  with Suc.prems(1) obtain sa where sa: "f k s = Some (Inr sa)" "try_each f [Suc k..<n] sa = Some (Inr s')"
    by (auto simp: upt_rec [of k n])
  from Suc.hyps(1) [OF _ sa(2) Suc.prems(4) [OF \<open>k < n\<close> Suc.prems(2) sa(1)]] Suc.hyps(2) \<open>k < n\<close> Suc.prems(4)
  show ?case by auto
qed simp

lemma failing_iff [simp]:
  "failing x = Some (Inr a) \<longleftrightarrow> x = Some (Inr a)"
  "failing x = Some (Inl e) \<longleftrightarrow> (\<exists>pe. x = Some (Inl pe) \<and> e = PropertyFailed pe)"
  by (cases x; force simp: failing_def map_sum_def split: sum.splits)+

lemma lift_iff [simp]: "lift x = Some (Inr a) \<longleftrightarrow> x = Some a" "lift x \<noteq> Some (Inl e)"
  by (auto simp: lift_def)

section \<open>What leaves the sites alone\<close>

lemma sites_complete: "complete c out si = Some (n, si') \<Longrightarrow> sites si' = sites si"
  by (auto simp: complete_def bind_eq_Some_conv sites_def split: option.splits completion.splits)

lemma sites_deliver_reply: "deliver_reply reply si = Some si' \<Longrightarrow> sites si' = sites si"
proof -
  assume "deliver_reply reply si = Some si'"
  then obtain cl n sa left where "complete (reply_client_id reply) n (si\<lparr>si_clients := (si_clients si)[reply_client_id reply := cl]\<rparr>) = Some (left, sa)"
    and "sites si' = sites sa"
    by (auto simp: deliver_reply_def Let_def bind_eq_Some_conv sites_def split: if_splits)
  with sites_complete show ?thesis by (fastforce simp: sites_def)
qed

lemma sites_post [simp]: "sites (post dc from x si) = sites si"
  by (simp add: post_def sites_def)

lemma sites_posts [simp]: "sites (fold (post dc from) xs si) = sites si"
  by (induction xs arbitrary: si) simp_all

lemma sites_post_reply: "post_reply dc reply si = Some si' \<Longrightarrow> sites si' = sites si"
  by (auto simp: post_reply_def Let_def sites_def split: prod.splits option.splits dest!: sites_deliver_reply)

lemma sites_post_replies: "each (post_reply dc) reps si = Some si' \<Longrightarrow> sites si' = sites si"
  by (erule each_inv [where P = "\<lambda>s. sites s = sites si"]) (auto dest: sites_post_reply)

lemma sites_drain_clients: "each (drain_client dc) cs si = Some si' \<Longrightarrow> sites si' = sites si"
proof (erule each_inv [where P = "\<lambda>s. sites s = sites si"])
  fix c s s' assume "sites s = sites si" and "drain_client dc c s = Some s'"
  then show "sites s' = sites si"
    by (auto simp: drain_client_def bind_eq_Some_conv split: prod.splits) (simp add: sites_def)
qed simp

lemma sites_deliver_due_replies: "deliver_due_replies si = Some si' \<Longrightarrow> sites si' = sites si"
proof -
  assume "deliver_due_replies si = Some si'"
  then obtain nw due where "each deliver_reply due (si\<lparr>si_network := nw\<rparr>) = Some si'"
    by (auto simp: deliver_due_replies_def split: prod.splits)
  then have "sites si' = sites (si\<lparr>si_network := nw\<rparr>)"
    by (rule each_inv [where P = "\<lambda>s. sites s = sites (si\<lparr>si_network := nw\<rparr>)"]) (auto dest: sites_deliver_reply)
  then show ?thesis by (simp add: sites_def)
qed

lemma sites_record_committed: "record_committed si = Some (Inr si') \<Longrightarrow> sites si' = sites si"
  by (auto simp: record_committed_def sites_def split: option.splits)

lemma sites_before_steps: "check_each properties_before_steps si = Some (Inr si') \<Longrightarrow> sites si' = sites si"
  by (auto simp: check_each_def properties_before_steps_def sites_def)

lemma sites_finalize: "check_each properties_finalize si = Some (Inr si') \<Longrightarrow> sites si' = sites si"
  by (auto simp: check_each_def properties_finalize_def sites_def)

lemma sites_toggle_idle [simp]: "sites (toggle_idle dc si) = sites si"
  by (simp add: toggle_idle_def draw_bool_def sites_def)

lemma sites_submit: "submit dc c si = Some si' \<Longrightarrow> sites si' = sites si"
  by (auto simp: submit_def build_request_def draw_bool_def Let_def bind_eq_Some_conv sites_def
      split: if_splits prod.splits)

lemma sites_draws [simp]: "sites (si\<lparr>si_draws := k\<rparr>) = sites si"
  by (simp add: sites_def)

lemma sites_tick_requests: "tick_requests dc si = Some si' \<Longrightarrow> sites si' = sites si"
  by (auto simp: tick_requests_def draw_bool_def draw_range_def Let_def bind_eq_Some_conv
      split: if_splits option.splits dest!: sites_submit)

section \<open>The parts of a tick\<close>

lemma all_coveredD: "all_sites si \<Longrightarrow> i < replica_count (si_config si) \<Longrightarrow> covered si i"
  by (simp add: sites_inv_covered)

lemma blackout_one_ok:
  assumes "sites_inv b si" and "i < replica_count (si_config si) \<Longrightarrow> covered si i" and "blackout_one dc i si = Some si'"
  shows "sites_inv b si'"
proof -
  from assms(3) obtain sa where "crash_replica dc i PowerLoss si = Some sa" and "sites si' = sites sa"
    by (auto simp: blackout_one_def bind_eq_Some_conv)
  with crash_replica_ok [OF assms(1,2)] sites_inv_cong show ?thesis by blast
qed

lemma sites_inv_same: "sites_inv b si \<Longrightarrow> sites si' = sites si \<Longrightarrow> sites_inv b si'"
  using sites_inv_cong by blast

lemma sites_draw_crash_kind: "draw_crash_kind dc si = (kind, si') \<Longrightarrow> sites si' = sites si"
  by (auto simp: draw_crash_kind_def draw_bool_def Let_def split: if_splits)

lemma maybe_crash_ok:
  assumes "all_sites si" and "maybe_crash dc i si = Some si'"
  shows "all_sites si'"
proof -
  obtain c sa where sa: "draw_bool dc (so_replica_crash_probability (si_options si)) si = (c, sa)" by (rule prod.exhaust)
  obtain k sb where sb: "draw_crash_kind dc sa = (k, sb)" by (rule prod.exhaust)
  have oka: "all_sites sa" using assms(1) sites_draw(1) [OF sa] by (rule sites_inv_same)
  have okb: "all_sites sb" using oka sites_draw_crash_kind [OF sb] by (rule sites_inv_same)
  show ?thesis
  proof (cases c)
    case True
    with assms(2) obtain sc where sc: "crash_replica dc i k sb = Some sc" and "sites si' = sites sc"
      by (auto simp: maybe_crash_def sa sb bind_eq_Some_conv)
    with crash_replica_ok [OF okb all_coveredD [OF okb] sc] show ?thesis by (auto intro: sites_inv_same)
  next
    case False
    with assms(2) oka show ?thesis by (simp add: maybe_crash_def sa)
  qed
qed

lemma maybe_restart_ok:
  assumes "all_sites si" and "maybe_restart dc i si = Some si'"
  shows "all_sites si'"
proof -
  obtain c sa where sa: "draw_bool dc (so_replica_restart_probability (si_options si)) si = (c, sa)" by (rule prod.exhaust)
  have oka: "all_sites sa" using assms(1) sites_draw(1) [OF sa] by (rule sites_inv_same)
  show ?thesis
  proof (cases c)
    case True
    with assms(2) obtain flags where rest: "(let (reboots, sb) = (if length (filter id flags) < (length (si_replicas sa) - 1) div 2
        then draw_bool dc (so_replica_reboot_probability (si_options sa)) sa else (False, sa))
      in do {
        sc \<leftarrow> (if reboots then reboot_replica dc i sb else Some sb);
        sd \<leftarrow> bring_up i sc;
        stable_from i (si_ticks sd + so_replica_restart_stability (si_options sd)) sd }) = Some si'"
      by (auto simp: maybe_restart_def sa bind_eq_Some_conv)
    obtain reboots sb where sb: "(if length (filter id flags) < (length (si_replicas sa) - 1) div 2
      then draw_bool dc (so_replica_reboot_probability (si_options sa)) sa else (False, sa)) = (reboots, sb)"
      by (rule prod.exhaust)
    from rest obtain sc sd where sc: "(if reboots then reboot_replica dc i sb else Some sb) = Some sc"
      and sd: "bring_up i sc = Some sd" and si': "sites si' = sites sd"
      unfolding sb by (auto simp: bind_eq_Some_conv)
    from sb have "sites sb = sites sa" by (auto split: if_splits)
    with oka have okb: "all_sites sb" by (rule sites_inv_same)
    have "all_sites sd"
      using sc sd bring_up_ok [OF okb] reboot_ok [OF okb] by (cases reboots) auto
    then show ?thesis using si' by (rule sites_inv_same)
  next
    case False
    with assms(2) oka show ?thesis by (simp add: maybe_restart_def sa)
  qed
qed

lemma tick_crash_one_ok: "all_sites si \<Longrightarrow> tick_crash_one dc i si = Some si' \<Longrightarrow> all_sites si'"
  by (auto simp: tick_crash_one_def bind_eq_Some_conv split: if_splits intro: maybe_crash_ok maybe_restart_ok)

lemma blackout_ok: "each (blackout_one dc) is si = Some si' \<Longrightarrow> all_sites si \<Longrightarrow> all_sites si'"
  by (erule each_inv) (auto intro: blackout_one_ok all_coveredD)

lemma tick_crash_ok:
  assumes "all_sites si" and "tick_crash dc si = Some si'"
  shows "all_sites si'"
proof (cases "si_liveness_mode si")
  case False
  with assms(2) obtain sa where sa: "each (tick_crash_one dc) [0..<length (si_replicas si)] si = Some sa"
    and rest: "(let (dark, sb) = (if 0 < so_blackout_probability (si_options sa)
          then draw_bool dc (so_blackout_probability (si_options sa)) sa else (False, sa))
        in if dark then each (blackout_one dc) [0..<length (si_replicas sb)] sb else Some sb) = Some si'"
    by (auto simp: tick_crash_def bind_eq_Some_conv)
  obtain dark sb where sb: "(if 0 < so_blackout_probability (si_options sa)
      then draw_bool dc (so_blackout_probability (si_options sa)) sa else (False, sa)) = (dark, sb)" by (rule prod.exhaust)
  have "all_sites sa" using sa assms(1) by (rule each_inv) (rule tick_crash_one_ok)
  then have okb: "all_sites sb" by (rule sites_inv_same) (use sb in \<open>auto split: if_splits\<close>)
  then show ?thesis using rest by (cases dark) (auto simp: sb intro: blackout_ok)
qed (use assms in \<open>simp add: tick_crash_def\<close>)

lemma tick_flush_one_ok:
  assumes "all_sites si" and "tick_flush_one dc i si = Some si'"
  shows "all_sites si'"
proof -
  from assms(2) obtain up where up: "nth_chk (si_up si) i = Some up"
    and rest: "(let (flushes, sa) = (if up then draw_bool dc (so_replica_flush_probability (si_options si)) si else (False, si))
      in if flushes then flush_replica i sa else Some sa) = Some si'"
    by (auto simp: tick_flush_one_def bind_eq_Some_conv)
  obtain flushes sa where sa: "(if up then draw_bool dc (so_replica_flush_probability (si_options si)) si else (False, si))
    = (flushes, sa)" by (rule prod.exhaust)
  have "all_sites sa" using assms(1) by (rule sites_inv_same) (use sa in \<open>auto split: if_splits\<close>)
  with rest show ?thesis by (cases flushes) (auto simp: sa intro: flush_replica_ok)
qed

lemma tick_flush_ok:
  assumes "all_sites si" and "tick_flush dc si = Some si'"
  shows "all_sites si'"
proof (cases "so_replica_flush_probability (si_options si) = 0")
  case False
  with assms(2) have "each (tick_flush_one dc) [0..<length (si_replicas si)] si = Some si'" by (simp add: tick_flush_def)
  then show ?thesis using assms(1) by (rule each_inv) (rule tick_flush_one_ok)
qed (use assms in \<open>simp add: tick_flush_def\<close>)

lemma tick_heartbeat_ok:
  assumes "some_sites si" and "tick_heartbeat si = Some si'"
  shows "some_sites si'"
proof (cases "si_ticks si mod so_heartbeat_interval (si_options si) = 0")
  case True
  with assms(2) obtain sa where sa: "each idle_one [0..<length (si_replicas si)] si = Some sa" and "sites si' = sites sa"
    by (auto simp: tick_heartbeat_def bind_eq_Some_conv sites_def)
  moreover have "some_sites sa" using sa assms(1) by (rule each_inv) (auto intro: idle_one_ok)
  ultimately show ?thesis using sites_inv_cong by blast
qed (use assms in \<open>simp add: tick_heartbeat_def\<close>)

lemma deliver_due_ok:
  assumes "some_sites si" and "deliver_due si = Some si'"
  shows "some_sites si'"
proof -
  from assms(2) obtain nw due where "each deliver_message due (si\<lparr>si_network := nw\<rparr>) = Some si'"
    by (auto simp: deliver_due_def split: prod.splits)
  then show ?thesis
  proof (rule each_inv)
    show "some_sites (si\<lparr>si_network := nw\<rparr>)" using assms(1) sites_inv_cong [of "si\<lparr>si_network := nw\<rparr>" si] by (simp add: sites_def)
  qed (auto intro: deliver_message_ok)
qed

end
