(* ===== verification/Sim_Ticks.thy ===== *)
theory Sim_Ticks
  imports Sim_Reach
begin

text \<open>
  The steps of the replicas, whole ticks and whole runs of a simulation, and what follows for
  the checks that the simulator makes.
\<close>

section \<open>The owner's step\<close>

lemma no_power_loss:
  assumes "disk_step sd (draw_step dc (power_odds stepped certain si) sa) d r w reps = Some (Inr (d', r', w', reps', PowerLost))"
    and "certain \<Longrightarrow> stepped"
  shows stepped
  using step_power_lost [OF assms(1)] assms(2)
  by (auto simp: draw_step_def power_odds_def happens_def split: if_splits)

lemma step_one_cases:
  assumes "step_one dc i si = Some (Inr si')"
  obtains stepped r d d' r' st ch sent reps sa where "nth_chk (si_stepped si) i = Some stepped"
    and "nth_chk (si_replicas si) i = Some r" and "nth_chk (si_disks si) i = Some d"
    and "disk_step (checked_send i) ch d r [] [] = Some (Inr (d', r', sent, reps, st))"
    and "st = PowerLost \<longrightarrow> stepped" and "sites sa = sites (put_site i d' r' si)" and "end_step dc i st sa = Some si'"
proof -
  from assms obtain stepped r d where g: "nth_chk (si_stepped si) i = Some stepped"
    "nth_chk (si_replicas si) i = Some r" "nth_chk (si_disks si) i = Some d"
    by (auto simp: step_one_def bind_eq_Some_conv)
  define certain where "certain = (stepped \<and> i \<in> si_lose_step si)"
  define s1 where "s1 = (if certain then si\<lparr>si_lose_step := si_lose_step si - {i}\<rparr> else si)"
  define s2 where "s2 = (if dk_applied d < log_start r
     then count (\<lambda>c. c\<lparr>co_restores := co_restores c + 1\<rparr>) (s1\<lparr>si_draws := si_draws s1 + 3\<rparr>)
     else s1\<lparr>si_draws := si_draws s1 + 3\<rparr>)"
  let ?ch = "draw_step dc (power_odds stepped certain s1) s1"
  have "and_then (failing (disk_step (checked_send i) ?ch d r [] [])) (\<lambda>(d, r, sent, replies, st).
       lift (do {
         let si = fold (post dc (FromReplica i)) sent (put_site i d r s2);
         si \<leftarrow> each (post_reply dc) replies si;
         end_step dc i st si })) = Some (Inr si')"
    using assms by (simp add: step_one_def g Let_def certain_def s1_def s2_def cong: if_cong)
  then obtain d' r' sent reps st sa where
    step: "disk_step (checked_send i) ?ch d r [] [] = Some (Inr (d', r', sent, reps, st))"
    and sa: "each (post_reply dc) reps (fold (post dc (FromReplica i)) sent (put_site i d' r' s2)) = Some sa"
    and last: "end_step dc i st sa = Some si'"
    by (auto simp: bind_eq_Some_conv Let_def)
  have "sites (put_site i d' r' s2) = sites (put_site i d' r' si)"
    by (simp add: sites_def s2_def s1_def)
  with sites_post_replies [OF sa] have "sites sa = sites (put_site i d' r' si)" by simp
  moreover have "st = PowerLost \<longrightarrow> stepped"
    using no_power_loss [of "checked_send i" dc stepped certain s1 s1] step by (auto simp: certain_def)
  ultimately show ?thesis using g step last by (intro that)
qed

lemma step_one_ok:
  assumes inv: "sites_inv b si" and step: "step_one dc i si = Some (Inr si')"
  shows "sites_inv (b(i := True)) si'"
proof -
  from step obtain stepped r d d' r' st ch sent reps sa where g: "nth_chk (si_stepped si) i = Some stepped"
    "nth_chk (si_replicas si) i = Some r" "nth_chk (si_disks si) i = Some d"
    and ds: "disk_step (checked_send i) ch d r [] [] = Some (Inr (d', r', sent, reps, st))"
    and pl: "st = PowerLost \<longrightarrow> stepped" and sa: "sites sa = sites (put_site i d' r' si)"
    and last: "end_step dc i st sa = Some si'"
    by (rule step_one_cases)
  note f = sites_fields [OF sa]
  have new: "\<exists>h. owner_ok d' r' h" "same_memory r r'" "log_start r' \<le> dk_applied d'"
    "st = Persisted \<Longrightarrow> dk_outstanding d' = None \<and> disk_matches (dk_state d') r'" if "i < replica_count (si_config si)"
  proof -
    from sites_invD(1) [OF inv that] g obtain h where ok: "owner_ok d r h"
      by (auto simp: sites_at_def site_ok_def nth_chk_eq_Some)
    from checked_step [OF ds, of "[]"] obtain v where "disk_step record_send ch d r [] [] = Some (Inr (d', r', v, reps, st))"
      by auto
    from disk_step_ok [OF ok this] show "\<exists>h. owner_ok d' r' h" "same_memory r r'" "log_start r' \<le> dk_applied d'"
      "st = Persisted \<Longrightarrow> dk_outstanding d' = None \<and> disk_matches (dk_state d') r'"
      by (auto simp: part_ok_def)
  qed
  have site: "sites_at ((b(i := True)) i) s i" if i: "i < replica_count (si_config si)"
    and s: "si_config s = si_config sa" "si_disks s = si_disks sa" "si_replicas s = si_replicas sa" "si_up s = si_up sa"
      "si_crash_kind s = si_crash_kind sa" "pp_last_commit (si_properties s) = pp_last_commit (si_properties sa)"
      "\<not> si_stepped s ! i \<Longrightarrow> st = Persisted" for s
    using new [OF i] sites_invD [OF inv i] g s f
    by (auto simp: sites_at_def site_ok_def nth_chk_eq_Some same_memory_def)
  show ?thesis
  proof (cases st)
    case PowerLost
    have mid: "sites_inv (b(i := True)) sa"
      by (rule sites_inv_change [OF inv, of sa i]) (use f site [of sa] g pl PowerLost in \<open>auto simp: nth_chk_eq_Some\<close>)
    have "covered sa i" if "i < replica_count (si_config sa)"
      using new(3) that f g by (auto simp: covered_def nth_chk_eq_Some)
    from blackout_one_ok [OF mid this, of dc si'] last PowerLost show ?thesis by (simp add: end_step_def)
  next
    case Persisted
    with last have "si' = sa\<lparr>si_stepped := (si_stepped sa)[i := False]\<rparr>" by (auto simp: end_step_def bind_eq_Some_conv)
    then show ?thesis
      by (intro sites_inv_change [OF inv, of si' i]) (use f site [of si'] Persisted in auto)
  next
    case WriteOut
    with last have "si' = sa\<lparr>si_stepped := (si_stepped sa)[i := True]\<rparr>" "i < length (si_stepped sa)"
      by (auto simp: end_step_def bind_eq_Some_conv)
    then show ?thesis
      by (intro sites_inv_change [OF inv, of si' i]) (use f site [of si'] in auto)
  qed
qed

lemma step_up_ok:
  assumes inv: "sites_inv b si" and step: "step_up dc i si = Some (Inr si')"
  shows "sites_inv (b(i := True)) si'"
proof (cases "nth_chk (si_up si) i")
  case (Some up)
  show ?thesis
  proof (cases up)
    case True
    with step have "step_one dc i si = Some (Inr si')" unfolding step_up_def Some by simp
    with inv show ?thesis by (rule step_one_ok)
  next
    case False
    with step have "si' = si" unfolding step_up_def Some by simp
    with inv False Some show ?thesis
      by (auto simp: sites_inv_def sites_at_def site_ok_def nth_chk_eq_Some)
  qed
next
  case None
  with step show ?thesis unfolding step_up_def None by simp
qed

lemma lose_power_config: "lose_power dc i si = Some si' \<Longrightarrow> si_config si' = si_config si"
  by (auto simp: lose_power_def draw_bool_def bind_eq_Some_conv dest!: lose_memory_fields(1) elim!: rebuild_fields)

lemma flush_crashed_config: "flush_crashed dc i si = Some si' \<Longrightarrow> si_config si' = si_config si"
  by (auto simp: flush_crashed_def draw_range_def bind_eq_Some_conv Let_def split: if_splits)

lemma crash_replica_config: "crash_replica dc i kind si = Some si' \<Longrightarrow> si_config si' = si_config si"
  by (auto simp: crash_replica_def bind_eq_Some_conv Let_def split: if_splits crash_kind.splits
      dest!: lose_power_config flush_crashed_config)

lemma step_up_config:
  assumes "step_up dc i si = Some (Inr si')"
  shows "si_config si' = si_config si"
proof -
  from assms have "si' = si \<or> step_one dc i si = Some (Inr si')"
    by (auto simp: step_up_def bind_eq_Some_conv split: if_splits)
  then show ?thesis
  proof
    assume "step_one dc i si = Some (Inr si')"
    then obtain d' r' st sa where "sites sa = sites (put_site i d' r' si)" and "end_step dc i st sa = Some si'"
      by (rule step_one_cases)
    then show ?thesis
      by (auto simp: end_step_def blackout_one_def bind_eq_Some_conv sites_def split: disk_step_end.splits
          dest!: crash_replica_config sites_stable)
  qed simp
qed

lemma sim_flush_ok:
  assumes inv: "some_sites si" and step: "sim_flush dc si = Some (Inr si')"
  shows "all_sites si'"
proof -
  from step obtain sa sb sc where sa: "record_committed si = Some (Inr sa)"
    and sb: "check_each properties_before_steps sa = Some (Inr sb)"
    and sc: "try_each (step_up dc) [0..<length (si_replicas sb)] sb = Some (Inr sc)"
    and last: "each (drain_client dc) [0..<length (si_clients sc)] sc = Some si'"
    by (auto simp: sim_flush_def)
  have okb: "some_sites sb"
    using inv sites_record_committed [OF sa] sites_before_steps [OF sb] by (auto intro: sites_inv_same)
  have "sites_inv (\<lambda>j. j < length (si_replicas sb)) sc \<and> si_config sc = si_config sb"
    using sc
  proof (rule try_each_upto [where P = "\<lambda>k s. sites_inv (\<lambda>j. j < k) s \<and> si_config s = si_config sb"])
    fix k s s' assume s: "sites_inv (\<lambda>j. j < k) s \<and> si_config s = si_config sb" "step_up dc k s = Some (Inr s')"
    from step_up_ok [OF conjunct1 [OF s(1)] s(2)] have "sites_inv (\<lambda>j. j < Suc k) s'"
      by (rule sites_inv_weaken) (auto simp: less_Suc_eq)
    with s step_up_config show "sites_inv (\<lambda>j. j < Suc k) s' \<and> si_config s' = si_config sb" by fastforce
  qed (use okb in simp_all)
  moreover have "length (si_replicas sb) = replica_count (si_config sb)"
    using okb by (simp add: sites_inv_def sites_shape_def)
  ultimately have "all_sites sc" by (auto elim: sites_inv_weaken)
  then show ?thesis using sites_drain_clients [OF last] by (rule sites_inv_same)
qed

section \<open>Ticks\<close>

lemma commit_numbers_recorded:
  assumes "try_each f (enumerate k rs) st = Some (Inr st')"
    and "\<And>i r st st'. f (i, r) st = Some (Inr st') \<Longrightarrow> i < length st \<and> st' = st[i := g r]"
  shows "length st' = length st \<and> (\<forall>j < k. st' ! j = st ! j) \<and> (\<forall>j < length rs. st' ! (k + j) = g (rs ! j))"
  using assms(1)
proof (induction rs arbitrary: k st)
  case (Cons r rs)
  then obtain sa where sa: "f (k, r) st = Some (Inr sa)" "try_each f (enumerate (Suc k) rs) sa = Some (Inr st')" by auto
  note now = assms(2) [OF sa(1)]
  note IH = Cons.IH [OF sa(2)]
  have "st' ! (k + j) = g ((r # rs) ! j)" if "j < length (r # rs)" for j
    using that IH now by (cases j) auto
  with IH now show ?case by auto
qed simp

lemma check_commit_number_result:
  assumes "check_commit_number cx lc = Some (Inr lc')"
  shows "length lc' = length (cx_replicas cx) \<and> (\<forall>i < length (cx_replicas cx). lc' ! i = commit_number (cx_replicas cx ! i))"
proof -
  from assms have "length lc' = length (resized (length (cx_replicas cx)) 0 lc)
     \<and> (\<forall>j < 0. lc' ! j = resized (length (cx_replicas cx)) 0 lc ! j)
     \<and> (\<forall>j < length (cx_replicas cx). lc' ! (0 + j) = commit_number (cx_replicas cx ! j))"
    unfolding check_commit_number_def
    by (rule commit_numbers_recorded) (auto simp: check_commit_of_def bind_eq_Some_conv nth_chk_eq_Some)
  then show ?thesis by simp
qed

lemma check_properties_ok:
  assumes inv: "sites_inv b si" and step: "check_each properties_check si = Some (Inr si')"
  shows "sites_inv b si'"
proof -
  from step obtain pp where check: "properties_check (sim_context_of si) (si_properties si) = Some (Inr pp)"
    and si': "si' = si\<lparr>si_properties := pp\<rparr>" by (auto simp: check_each_def)
  define lc where "lc = pp_last_commit pp"
  from check have lc: "check_commit_number (sim_context_of si) (pp_last_commit (si_properties si)) = Some (Inr lc)"
    by (auto simp: properties_check_def lc_def)
  have len: "length (si_replicas si) = replica_count (si_config si)" using inv by (simp add: sites_inv_def sites_shape_def)
  from check_commit_number_result [OF lc] have "last_commit_of lc i = commit_number (si_replicas si ! i)"
    if "i < replica_count (si_config si)" for i using that len by (simp add: last_commit_of_def sim_context_of_def)
  with inv show ?thesis by (auto simp: sites_inv_def sites_shape_def sites_at_def site_ok_def si' lc_def)
qed

lemma tick_network_ok:
  assumes "some_sites si" and "tick_network dc si = Some (Inr si')"
  shows "all_sites si'"
proof -
  from assms(2) obtain sa sb sc where sa: "deliver_due_replies si = Some sa" and sb: "sim_flush dc sa = Some (Inr sb)"
    and sc: "deliver_due sb = Some sc" and si': "sim_flush dc sc = Some (Inr si')"
    by (auto simp: tick_network_def)
  have "some_sites sa" using assms(1) sites_deliver_due_replies [OF sa] by (rule sites_inv_same)
  from sim_flush_ok [OF this sb] have "some_sites sb" by (rule sites_inv_weaken) simp
  from sim_flush_ok [OF deliver_due_ok [OF this sc] si'] show ?thesis .
qed

text \<open>Everything of a tick but the checks at its end.\<close>

lemma tick_parts:
  assumes "tick dc si = Some (Inr si')"
  obtains sa sb sc sd se sf sg where "tick_requests dc si = Some sa" and "tick_crash dc sa = Some sb"
    and "tick_flush dc sb = Some sc" and "tick_heartbeat sc = Some sd" and "tick_network dc sd = Some (Inr se)"
    and "record_committed se = Some (Inr sf)" and "check_each properties_check sf = Some (Inr sg)"
    and "si' = sg\<lparr>si_ticks := si_ticks sg + 1\<rparr>"
  using assms by (auto simp: tick_def bind_eq_Some_conv)

lemma tick_start_ok:
  assumes "all_sites si" and "tick_requests dc si = Some sa" and "tick_crash dc sa = Some sb"
    and "tick_flush dc sb = Some sc" and "tick_heartbeat sc = Some sd"
  shows "some_sites sd"
proof -
  have "all_sites sa" using assms(1) sites_tick_requests [OF assms(2)] by (rule sites_inv_same)
  then have "all_sites sc" using assms(3,4) by (auto intro: tick_crash_ok tick_flush_ok)
  then have "some_sites sc" by (rule sites_inv_weaken) simp
  then show ?thesis using assms(5) by (rule tick_heartbeat_ok)
qed

lemma tick_ok:
  assumes "all_sites si" and "tick dc si = Some (Inr si')"
  shows "all_sites si'"
proof -
  from assms(2) obtain sa sb sc sd se sf sg where p: "tick_requests dc si = Some sa" "tick_crash dc sa = Some sb"
    "tick_flush dc sb = Some sc" "tick_heartbeat sc = Some sd" and n: "tick_network dc sd = Some (Inr se)"
    and f: "record_committed se = Some (Inr sf)" and g: "check_each properties_check sf = Some (Inr sg)"
    and si': "si' = sg\<lparr>si_ticks := si_ticks sg + 1\<rparr>" by (rule tick_parts)
  have "all_sites se" using tick_start_ok [OF assms(1) p] n by (rule tick_network_ok)
  then have "all_sites sf" using sites_record_committed [OF f] by (rule sites_inv_same)
  then have "all_sites sg" using g by (rule check_properties_ok)
  then show ?thesis by (rule sites_inv_same) (simp add: si' sites_def)
qed

section \<open>Phases and faults\<close>

lemma sites_shuffle: "shuffle dc n xs si = (ys, si') \<Longrightarrow> sites si' = sites si"
proof (induction n arbitrary: xs si)
  case (Suc n)
  obtain k sa where k: "draw_nat dc si = (k, sa)" by (rule prod.exhaust)
  from Suc.prems have "sites si' = sites sa" by (simp add: k Let_def) (rule Suc.IH)
  also have "\<dots> = sites si" using k by (rule sites_draw)
  finally show ?case .
qed simp

lemma settle_core_cases:
  assumes "settle_core dc members i si = Some si'"
  obtains "si' = si" | "bring_up i si = Some si'" | "crash_replica dc i Pause si = Some si'"
proof -
  obtain up where "nth_chk (si_up si) i = Some up" using assms by (cases "nth_chk (si_up si) i") (simp_all add: settle_core_def)
  with assms have "(if i \<in> set members then (if up then Some si else bring_up i si) else crash_replica dc i Pause si) = Some si'"
    unfolding settle_core_def by simp
  then show thesis using that by (metis option.inject)
qed

lemma settle_core_ok:
  assumes "all_sites si" and "settle_core dc members i si = Some si'"
  shows "all_sites si'"
  using assms(2)
proof (cases rule: settle_core_cases)
  case 2
  with assms(1) show ?thesis by (rule bring_up_ok)
next
  case 3
  with assms(1) show ?thesis using crash_replica_ok [OF assms(1) all_coveredD [OF assms(1)]] by blast
qed (use assms in simp)

lemma sites_core_size: "core_size dc si = Some (n, si') \<Longrightarrow> sites si' = sites si"
  by (auto simp: core_size_def Let_def split: if_splits)

lemma sites_fill_core: "fill_core dc q healthy recovering si = (members, si') \<Longrightarrow> sites si' = sites si"
  by (auto simp: fill_core_def Let_def split: prod.splits dest: sites_shuffle)

lemma sites_pick_core:
  assumes "pick_core dc si = Some (members, si')"
  shows "sites si' = sites si"
proof -
  let ?n = "so_replica_count (si_options si)"
  from assms obtain size sa where sa: "core_size dc si = Some (size, sa)"
    and rest: "(let (candidates, sb) = shuffle dc (?n - 1) [0..<?n] sa in do {
       (healthy, recovering) \<leftarrow> split_recovering sb candidates;
       ensure (?n div 2 + 1 \<le> length healthy);
       let (members, sc) = fill_core dc (?n div 2 + 1) healthy recovering sb;
       Some (sort (take size members), sc) }) = Some (members, si')"
    by (cases "core_size dc si") (auto simp: pick_core_def Let_def)
  obtain candidates sb where sb: "shuffle dc (?n - 1) [0..<?n] sa = (candidates, sb)" by (rule prod.exhaust)
  from rest have "\<exists>q h v ms. fill_core dc q h v sb = (ms, si')"
    unfolding sb by (force simp: bind_eq_Some_conv split: if_splits prod.splits)
  then show ?thesis using sites_fill_core sites_shuffle [OF sb] sites_core_size [OF sa] by metis
qed

lemma transition_ok:
  assumes "all_sites si" and "transition_to_liveness_mode dc si = Some si'"
  shows "all_sites si'"
proof -
  define sa where "sa = si\<lparr>si_liveness_mode := True, si_network := set_options (si_network si) network_perfect,
    si_partitioned := {}\<rparr>"
  from assms(2) obtain members sb sc where sb: "pick_core dc sa = Some (members, sb)"
    and sc: "each (settle_core dc members) [0..<so_replica_count (si_options sb)] sb = Some sc"
    and si': "si' = sc\<lparr>si_core := members\<rparr>"
    by (auto simp: transition_to_liveness_mode_def sa_def bind_eq_Some_conv)
  have "sites sb = sites si" using sites_pick_core [OF sb] by (simp add: sa_def sites_def)
  with assms(1) have "all_sites sb" by (rule sites_inv_same)
  with sc have "all_sites sc" by (rule each_inv) (rule settle_core_ok)
  then show ?thesis by (rule sites_inv_same) (simp add: si' sites_def)
qed

lemma sites_pending: "pending si = Some (Inr (reason, si')) \<Longrightarrow> sites si' = sites si"
  by (auto simp: pending_def bind_eq_Some_conv split: if_splits option.splits dest: sites_finalize)

lemma safety_step_cases:
  assumes "safety_step dc lm si = Some (Inr si')"
  obtains sa n fin where "tick dc si = Some (Inr sa)" and "si' = sa\<lparr>si_ticks_since_reply := n\<rparr>
      \<or> (\<exists>sc. transition_to_liveness_mode dc (sa\<lparr>si_ticks_since_reply := n, si_requests_done := fin\<rparr>) = Some sc
           \<and> si' = sc\<lparr>si_phase := Liveness\<rparr>)"
proof -
  from assms obtain sa where sa: "tick dc si = Some (Inr sa)" unfolding safety_step_def Let_def by (auto simp: and_then_Inr)
  define n where "n = (if si_requests_replied si < si_requests_replied sa then 0 else si_ticks_since_reply sa + 1)"
  define sb where "sb = sa\<lparr>si_ticks_since_reply := n\<rparr>"
  define fin where "fin = (si_requests_replied sb = so_requests_max (si_options sb))"
  from assms have "(if fin \<or> lm_ticks_max_requests lm \<le> si_ticks_since_reply sb
           then lift (do {
             si \<leftarrow> transition_to_liveness_mode dc (sb\<lparr>si_requests_done := fin\<rparr>);
             Some (si\<lparr>si_phase := Liveness\<rparr>) })
           else Some (Inr sb)) = (Some (Inr si') :: (sim_error + simulator) option)"
    unfolding safety_step_def Let_def sa and_then_Inr n_def [symmetric] sb_def [symmetric] fin_def [symmetric] .
  then show thesis using that [OF sa] by (auto simp: sb_def bind_eq_Some_conv split: if_splits)
qed

lemma liveness_step_cases:
  assumes "liveness_step dc lm si = Some (Inr si')"
  obtains sa n reason sc where "tick dc si = Some (Inr sa)"
    and "pending (sa\<lparr>si_liveness_ticks := n\<rparr>) = Some (Inr (reason, sc))" and "sites si' = sites sc"
proof -
  from assms obtain sa reason sc where sa: "tick dc si = Some (Inr sa)"
    and sc: "pending (sa\<lparr>si_liveness_ticks := si_liveness_ticks sa + 1\<rparr>) = Some (Inr (reason, sc))"
    and "si' = sc \<or> si' = sc\<lparr>si_phase := Done\<rparr>"
    unfolding liveness_step_def by (auto split: if_splits)
  then show thesis using that by (auto simp: sites_def)
qed

lemma step_run_ok:
  assumes "all_sites si" and "step_run dc lm si = Some (Inr si')"
  shows "all_sites si'"
proof (cases "si_phase si")
  case Safety
  with assms(2) have "safety_step dc lm si = Some (Inr si')" by (simp add: step_run_def)
  then obtain sa n fin where sa: "tick dc si = Some (Inr sa)" and "si' = sa\<lparr>si_ticks_since_reply := n\<rparr>
      \<or> (\<exists>sc. transition_to_liveness_mode dc (sa\<lparr>si_ticks_since_reply := n, si_requests_done := fin\<rparr>) = Some sc
           \<and> si' = sc\<lparr>si_phase := Liveness\<rparr>)" by (rule safety_step_cases)
  then show ?thesis
  proof (elim disjE exE conjE)
    assume si': "si' = sa\<lparr>si_ticks_since_reply := n\<rparr>"
    show ?thesis using tick_ok [OF assms(1) sa] by (rule sites_inv_same) (simp add: si' sites_def)
  next
    fix sc
    assume sc: "transition_to_liveness_mode dc (sa\<lparr>si_ticks_since_reply := n, si_requests_done := fin\<rparr>) = Some sc"
      and si': "si' = sc\<lparr>si_phase := Liveness\<rparr>"
    have "all_sites (sa\<lparr>si_ticks_since_reply := n, si_requests_done := fin\<rparr>)"
      using tick_ok [OF assms(1) sa] by (rule sites_inv_same) (simp add: sites_def)
    from transition_ok [OF this sc] show ?thesis by (rule sites_inv_same) (simp add: si' sites_def)
  qed
next
  case Liveness
  with assms(2) have "liveness_step dc lm si = Some (Inr si')" by (simp add: step_run_def)
  then obtain sa n reason sc where sa: "tick dc si = Some (Inr sa)"
    and sc: "pending (sa\<lparr>si_liveness_ticks := n\<rparr>) = Some (Inr (reason, sc))" and si': "sites si' = sites sc"
    by (rule liveness_step_cases)
  show ?thesis
    using tick_ok [OF assms(1) sa] by (rule sites_inv_same) (use si' sites_pending [OF sc] in \<open>simp add: sites_def\<close>)
qed (use assms in \<open>simp add: step_run_def\<close>)

end
