(* ===== verification/Sim_Simulation.thy ===== *)
theory Sim_Simulation
  imports Sim_Ticks
begin

text \<open>
  Every simulation of \<open>src/simulator/lib.rs\<close>: what \<open>Simulator::new\<close> gives, the faults a script
  injects, and the steps of a run, in any order.  Each replica of such a simulation lives on its
  own disk as the replica's contract asks, and the checks of the simulator that follow from that
  contract never fail.
\<close>

section \<open>A simulation begins well\<close>

lemma those_map_nth: "those (map f xs) = Some ys \<Longrightarrow> length ys = length xs \<and> (\<forall>i < length xs. f (xs ! i) = Some (ys ! i))"
proof (induction xs arbitrary: ys)
  case (Cons x xs)
  then obtain y zs where "f x = Some y" "those (map f xs) = Some zs" "ys = y # zs"
    by (auto split: option.splits)
  with Cons.IH show ?case by (auto simp: nth_Cons split: nat.split)
qed simp

lemma new_replica:
  assumes "replica_new i cfg acc_default = Some r"
  shows "self_id r = i \<and> config r = cfg \<and> log_start r = 0 \<and> disk_matches (dk_state disk_default) r"
  using assms
  by (auto simp: replica_new_def disk_matches_def disk_default_def ps_empty_def is_recovering_def split: if_splits)

lemma sim_config_count:
  assumes "sim_config so = Some cfg"
  shows "replica_count cfg = so_replica_count so"
proof -
  have "replica_count (add_replicas n c) = replica_count c + n" for n c
    by (induction n arbitrary: c) (simp_all add: add_replica_def Let_def)
  with assms show ?thesis
    by (auto simp: sim_config_def config_new_def set_primary_timeout_def set_clients_max_def set_in_flight_max_def
        bind_eq_Some_conv split: if_splits)
qed

lemma sim_init_ok:
  assumes "sim_init so = Some (Inr si)"
  shows "all_sites si"
proof -
  from assms have valid: "options_validate so = Inr ()" by (auto simp: sim_init_def split: sum.splits)
  then have three: "3 \<le> so_replica_count so" by (auto simp: options_validate_def or_else_def split: if_splits sum.splits)
  from assms valid obtain cfg rs where cfg: "sim_config so = Some cfg"
    and rs: "those (map (\<lambda>i. replica_new i cfg acc_default) [0..<so_replica_count so]) = Some rs"
    and si: "si_config si = cfg" "si_replicas si = rs" "si_disks si = replicate (so_replica_count so) disk_default"
      "si_up si = replicate (so_replica_count so) True" "si_crash_kind si = replicate (so_replica_count so) Pause"
      "si_stepped si = replicate (so_replica_count so) False" "si_properties si = default_properties"
    by (auto simp: sim_init_def bind_eq_Some_conv Let_def)
  note n = sim_config_count [OF cfg]
  have new: "replica_new i cfg acc_default = Some (rs ! i)" if "i < replica_count cfg" for i
    using those_map_nth [OF rs] that n by simp
  have "sites_at True si i" if i: "i < replica_count cfg" for i
    using new_replica [OF new [OF i]] owner_fresh [OF new [OF i] i] i n
    by (auto simp: sites_at_def site_ok_def si last_commit_of_def default_properties_def disk_default_def)
  then show ?thesis using those_map_nth [OF rs] three n by (simp add: sites_inv_def sites_shape_def si)
qed

section \<open>Faults keep it so\<close>

lemma crash_stable_ok:
  assumes "all_sites si" and "crash_replica dc i kind si = Some sa" and "stable_from i t sa = Some si'"
  shows "all_sites si'"
  using crash_replica_ok [OF assms(1) all_coveredD [OF assms(1)] assms(2)] sites_stable [OF assms(3)]
  by (rule sites_inv_same)

lemma apply_fault_ok:
  assumes inv: "all_sites si" and step: "apply_fault dc f si = Some si'"
  shows "all_sites si'"
proof (cases f)
  case FBlackout
  with step have "each (\<lambda>i si. do { si \<leftarrow> crash_replica dc i PowerLoss si; stable_from i (si_ticks si) si })
       [0..<length (si_replicas si)] si = Some si'" by simp
  then show ?thesis using inv by (rule each_inv) (auto simp: bind_eq_Some_conv intro: crash_stable_ok)
next
  case (FRestart i)
  with step obtain up sa where up: "(if up then Some si else bring_up i si) = Some sa"
    and t: "stable_from i (si_ticks sa) sa = Some si'" by (auto simp: bind_eq_Some_conv)
  have "all_sites sa" using inv up bring_up_ok by (cases up) auto
  then show ?thesis using sites_stable [OF t] by (rule sites_inv_same)
next
  case (FReboot i)
  with step obtain sa sb where sa: "reboot_replica dc i si = Some sa" and sb: "bring_up i sa = Some sb"
    and t: "stable_from i (si_ticks sb) sb = Some si'" by (auto simp: bind_eq_Some_conv)
  show ?thesis using reboot_ok [OF inv sa sb] sites_stable [OF t] by (rule sites_inv_same)
next
  case (FLoseStep i)
  with step inv show ?thesis by (auto simp: sites_def elim!: sites_inv_same)
next
  case (FPartition i)
  with step inv show ?thesis by (auto simp: sites_def elim!: sites_inv_same)
next
  case (FHeal i)
  with step inv show ?thesis by (auto simp: sites_def elim!: sites_inv_same)
next
  case FHealAll
  with step inv show ?thesis by (auto simp: sites_def elim!: sites_inv_same)
next
  case (FFlush i)
  with step inv show ?thesis by (auto intro: flush_replica_ok)
qed (use step inv in \<open>auto simp: bind_eq_Some_conv intro: crash_stable_ok\<close>)

section \<open>Simulations\<close>

text \<open>
  The options of the network may change at any point (\<open>set_network_options\<close>), and the draws of
  each step are its own.
\<close>

definition set_network_options :: "network_options \<Rightarrow> simulator \<Rightarrow> simulator" where
  "set_network_options no si = si\<lparr>si_network := set_options (si_network si) no\<rparr>"

inductive simulated :: "options \<Rightarrow> simulator \<Rightarrow> bool" for so where
  init: "sim_init so = Some (Inr si) \<Longrightarrow> simulated so si"
| fault: "simulated so si \<Longrightarrow> apply_fault dc f si = Some si' \<Longrightarrow> simulated so si'"
| network: "simulated so si \<Longrightarrow> simulated so (set_network_options no si)"
| step: "simulated so si \<Longrightarrow> step_run dc lm si = Some (Inr si') \<Longrightarrow> simulated so si'"

lemma simulated_sites: "simulated so si \<Longrightarrow> all_sites si"
proof (induction rule: simulated.induct)
  case (network si no)
  show ?case by (rule sites_inv_same [OF network.IH]) (simp add: set_network_options_def sites_def)
qed (blast intro: sim_init_ok apply_fault_ok step_run_ok)+

section \<open>A simulation\<close>

definition sample_options :: options where
  "sample_options = (lite (\<lambda>_. 0))\<lparr>so_requests_max := 2\<rparr>"

definition sample_dice :: dice where
  "sample_dice = \<lparr>di_bool = (\<lambda>_. False), di_nat = (\<lambda>n. n), di_i32 = (\<lambda>_. 5),
     di_send = (\<lambda>_. \<lparr>sc_lost = False, sc_replayed = False, sc_extra1 = 1, sc_extra2 = 1\<rparr>)\<rparr>"

definition sample_limits :: limits where
  "sample_limits = \<lparr>lm_ticks_max_requests = 9, lm_ticks_max_convergence = 9\<rparr>"

text \<open>A replica loses power before the first tick of a run.\<close>

definition sample_start :: "simulator option" where
  "sample_start = (case sim_init sample_options of
     Some (Inr si) \<Rightarrow> apply_fault sample_dice (FPowerLoss 1) si | _ \<Rightarrow> None)"

definition sample_run :: "simulator option" where
  "sample_run = do {
     si \<leftarrow> sample_start;
     case step_run sample_dice sample_limits si of Some (Inr si) \<Rightarrow> Some si | _ \<Rightarrow> None }"

definition sample_ok :: "simulator \<Rightarrow> bool" where
  "sample_ok si \<longleftrightarrow> replica_count (si_config si) = 3 \<and> si_ticks si = 1"

lemma sample_computed: "(case sample_run of None \<Rightarrow> False | Some si \<Rightarrow> sample_ok si)"
  by code_simp

lemma sample_simulated:
  obtains si where "simulated sample_options si" and "replica_count (si_config si) = 3" and "si_ticks si = 1"
proof -
  from sample_computed obtain si where si: "sample_run = Some si" and ok: "sample_ok si" by (auto split: option.splits)
  from si obtain sa where sa: "sample_start = Some sa"
    and run: "(case step_run sample_dice sample_limits sa of Some (Inr si) \<Rightarrow> Some si | _ \<Rightarrow> None) = Some si"
    unfolding sample_run_def bind_eq_Some_conv by blast
  from run have "step_run sample_dice sample_limits sa = Some (Inr si)" by (auto split: option.split_asm sum.split_asm)
  moreover from sa obtain sb where "sim_init sample_options = Some (Inr sb)"
    and "apply_fault sample_dice (FPowerLoss 1) sb = Some sa"
    by (auto simp: sample_start_def split: option.split_asm sum.split_asm)
  ultimately have "simulated sample_options si" by (blast intro: simulated.intros)
  moreover from ok have "replica_count (si_config si) = 3" "si_ticks si = 1" unfolding sample_ok_def by blast+
  ultimately show thesis by (rule that)
qed



end
