(* ===== verification/Sim_Checks.thy ===== *)
theory Sim_Checks
  imports Sim_Simulation
begin

text \<open>
  The checks of \<open>src/simulator/properties.rs\<close> in a simulation.  Those that state what a replica
  and its disk promise on their own never fail, whatever the dice and the faults: the log is as
  long as the operation number says, only what is committed was compacted or applied, no commit
  is undone, and what was executed is on disk.
\<close>

section \<open>The loops of the checks\<close>

text \<open>The first failure of a loop, with what the loop kept until then.\<close>

lemma try_each_fails:
  assumes "try_each f (enumerate k rs) s = Some (Inl e)" and "P k s"
    and "\<And>j s s'. j < length rs \<Longrightarrow> P (k + j) s \<Longrightarrow> f (k + j, rs ! j) s = Some (Inr s') \<Longrightarrow> P (Suc (k + j)) s'"
  shows "\<exists>j s. j < length rs \<and> P (k + j) s \<and> f (k + j, rs ! j) s = Some (Inl e)"
  using assms
proof (induction rs arbitrary: k s)
  case (Cons r rs)
  show ?case
  proof (cases "f (k, r) s = Some (Inl e)")
    case True
    with Cons.prems(2) show ?thesis by (intro exI [of _ 0] exI [of _ s]) simp
  next
    case False
    with Cons.prems(1) obtain sa where sa: "f (k, r) s = Some (Inr sa)" "try_each f (enumerate (Suc k) rs) sa = Some (Inl e)"
      by (auto simp: and_then_Inl)
    have "P (Suc k) sa" using Cons.prems(3) [of 0 s sa] Cons.prems(2) sa(1) by simp
    moreover have "P (Suc (Suc k + j)) t'"
      if "j < length rs" "P (Suc k + j) t" "f (Suc k + j, rs ! j) t = Some (Inr t')" for j t t'
      using Cons.prems(3) [of "Suc j" t t'] that by simp
    ultimately obtain j t where "j < length rs" "P (Suc k + j) t" "f (Suc k + j, rs ! j) t = Some (Inl e)"
      using Cons.IH [OF sa(2)] by blast
    then show ?thesis by (intro exI [of _ "Suc j"] exI [of _ t]) simp
  qed
qed simp

lemma try_each_fails_plain:
  "try_each f xs s = Some (Inl e) \<Longrightarrow> \<exists>x t. x \<in> set xs \<and> f x t = Some (Inl e)"
  by (induction xs arbitrary: s) (fastforce simp: and_then_Inl)+

lemma require_Inl: "require b x = Some (Inl e) \<longleftrightarrow> \<not> b \<and> e = x"
  by (auto simp: require_def)

lemma resized_last_commit: "j < n \<Longrightarrow> resized n 0 lc ! j = last_commit_of lc j"
  by (auto simp: resized_def last_commit_of_def nth_append min_def)

section \<open>Errors that no simulation ends with\<close>

fun contract_error :: "property_error \<Rightarrow> bool" where
  "contract_error (OpNumberOff _) = True"
| "contract_error (CompactedPastCommit _) = True"
| "contract_error (CommitBackwards _) = True"
| "contract_error (AppliedPastCommit _) = True"
| "contract_error (NotOnDisk _ _) = True"
| "contract_error _ = False"

lemma site_bounds:
  assumes "all_sites si" and "i < replica_count (si_config si)"
  shows "log_start (si_replicas si ! i) \<le> applied (si_replicas si ! i)"
    and "applied (si_replicas si ! i) \<le> commit_number (si_replicas si ! i)"
    and "last_commit_of (pp_last_commit (si_properties si)) i \<le> commit_number (si_replicas si ! i)"
proof -
  from sites_invD(1) [OF assms] obtain h where "owner_ok (si_disks si ! i) (si_replicas si ! i) h"
    and seen: "last_commit_of (pp_last_commit (si_properties si)) i \<le> commit_number (si_replicas si ! i)"
    by (auto simp: sites_at_def site_ok_def)
  from owner_ok_inv [OF this(1)] have "log_inv (si_replicas si ! i)"
    by (simp add: node_inv_def replica_inv_def disk_node_def)
  with seen show "log_start (si_replicas si ! i) \<le> applied (si_replicas si ! i)"
    "applied (si_replicas si ! i) \<le> commit_number (si_replicas si ! i)"
    "last_commit_of (pp_last_commit (si_properties si)) i \<le> commit_number (si_replicas si ! i)"
    by (simp_all add: log_inv_def)
qed

lemma site_entry:
  assumes inv: "all_sites si" and i: "i < replica_count (si_config si)"
    and n: "dk_applied (si_disks si ! i) < n" "n \<le> applied (si_replicas si ! i)"
  shows "\<exists>e. executed_entry (si_replicas si ! i) n = Some e \<and> disk_holds (si_disks si ! i) n e"
proof -
  let ?d = "si_disks si ! i" and ?r = "si_replicas si ! i"
  from sites_invD(1) [OF inv i] obtain h where ok: "owner_ok ?d ?r h" and c: "log_start ?r \<le> dk_applied ?d"
    by (auto simp: sites_at_def site_ok_def)
  from c n have "log_start (nd_rep (disk_node ?d ?r h)) < n" "n \<le> applied (nd_rep (disk_node ?d ?r h))"
    by (simp_all add: disk_node_def)
  from node_inv_entry [OF owner_ok_inv [OF ok] this] have same: "ps_entry (dk_state ?d) n = entry ?r n"
    by (simp add: disk_node_def)
  have "n \<le> op_number ?r" using owner_ok_inv [OF ok] n(2) by (simp add: node_inv_def replica_inv_def log_inv_def disk_node_def)
  then have "n - Suc (log_start ?r) < length (replica.log ?r)" using c n(1) by (simp add: op_number_def)
  then obtain e where "entry ?r n = Some e" using c n(1) by (simp add: entry_def nth_chk_def)
  with same show ?thesis by (auto simp: executed_entry_def entry_def disk_holds_def)
qed

lemma context_fields [simp]:
  "cx_replicas (sim_context_of si) = si_replicas si" "cx_disks (sim_context_of si) = si_disks si"
  by (simp_all add: sim_context_of_def)

lemma check_commit_number_fails:
  assumes inv: "all_sites si"
    and fails: "check_commit_number (sim_context_of si) (pp_last_commit (si_properties si)) = Some (Inl e)"
  shows "\<not> contract_error e"
proof -
  let ?lc = "pp_last_commit (si_properties si)" and ?n = "length (si_replicas si)"
  have n: "?n = replica_count (si_config si)" using inv by (simp add: sites_inv_def sites_shape_def)
  let ?P = "\<lambda>k st. length st = ?n \<and> (\<forall>j. k \<le> j \<and> j < ?n \<longrightarrow> st ! j = last_commit_of ?lc j)"
  have kept: "?P (Suc (0 + j)) st'"
    if "?P (0 + j) st" "(\<lambda>(i, r). check_commit_of i r) (0 + j, si_replicas si ! j) st = Some (Inr st')" for j st st'
    using that by (auto simp: check_commit_of_def bind_eq_Some_conv nth_chk_eq_Some)
  have "\<exists>j st. j < ?n \<and> ?P (0 + j) st
      \<and> (\<lambda>(i, r). check_commit_of i r) (0 + j, si_replicas si ! j) st = Some (Inl e)"
    using fails [unfolded check_commit_number_def context_fields]
  proof (rule try_each_fails)
    show "?P 0 (resized ?n 0 ?lc)" by (simp add: resized_last_commit)
  qed (erule (1) kept)
  then obtain j st where j: "j < ?n" and st: "?P j st" and e: "check_commit_of j (si_replicas si ! j) st = Some (Inl e)"
    by auto
  note b = site_bounds [OF inv j [unfolded n]]
  have "nth_chk st j = Some (last_commit_of ?lc j)" using st j by (simp add: nth_chk_eq_Some)
  with e b show ?thesis by (auto simp: check_commit_of_def and_then_require op_number_def split: if_splits)
qed

lemma check_executed_fails: "check_executed i ps v = Some (Inl e) \<Longrightarrow> \<not> contract_error e"
  by (induction i ps v rule: check_executed.induct) (auto simp: and_then_require split: if_splits)

lemma check_state_fails:
  assumes inv: "all_sites si" and fails: "check_state (sim_context_of si) v = Some (Inl e)"
  shows "\<not> contract_error e"
proof -
  have n: "length (si_replicas si) = replica_count (si_config si)" using inv by (simp add: sites_inv_def sites_shape_def)
  from try_each_fails [OF fails [unfolded check_state_def context_fields], of "\<lambda>_ _. True"]
  obtain j w where j: "j < length (si_replicas si)"
    and e: "check_state_of (sim_context_of si) j (si_replicas si ! j) w = Some (Inl e)" by auto
  from e site_bounds(2) [OF inv j [unfolded n]] show ?thesis
    by (cases "w ! j") (auto simp: check_state_of_def and_then_Inl require_Inl nth_chk_eq_Some bind_eq_Some_conv Let_def dest: check_executed_fails)
qed

lemma check_executed_durable_holds:
  assumes inv: "all_sites si"
  shows "check_executed_durable (sim_context_of si) v \<noteq> Some (Inl e)"
proof
  assume fails: "check_executed_durable (sim_context_of si) v = Some (Inl e)"
  have n: "length (si_replicas si) = replica_count (si_config si)" using inv by (simp add: sites_inv_def sites_shape_def)
  from try_each_fails [OF fails [unfolded check_executed_durable_def context_fields], of "\<lambda>_ _. True"]
  obtain j w where j: "j < length (si_replicas si)"
    and e: "check_executed_durable_of (sim_context_of si) j (si_replicas si ! j) w = Some (Inl e)" by auto
  then obtain k where "try_each (\<lambda>n u.
       require (case executed_entry (si_replicas si ! j) n of None \<Rightarrow> False | Some e \<Rightarrow> disk_holds (si_disks si ! j) n e) (NotOnDisk j n))
       [max k (dk_applied (si_disks si ! j)) + 1..<applied (si_replicas si ! j) + 1] () = Some (Inl e)"
    by (auto simp: check_executed_durable_of_def bind_eq_Some_conv and_then_Inl nth_chk_eq_Some)
  from try_each_fails_plain [OF this] obtain m where
    m: "m \<in> set [max k (dk_applied (si_disks si ! j)) + 1..<applied (si_replicas si ! j) + 1]"
    and not: "\<not> (case executed_entry (si_replicas si ! j) m of None \<Rightarrow> False | Some e \<Rightarrow> disk_holds (si_disks si ! j) m e)"
    by (auto simp: require_def split: if_splits)
  from m have "dk_applied (si_disks si ! j) < m" "m \<le> applied (si_replicas si ! j)" by auto
  with site_entry [OF inv j [unfolded n], of m] not show False by auto
qed

section \<open>The other checks\<close>

lemma check_prefix_fails: "check_prefix cx v = Some (Inl e) \<Longrightarrow> \<not> contract_error e"
  by (fastforce simp: check_prefix_def bind_eq_Some_conv and_then_Inl require_Inl dest!: try_each_fails_plain)

lemma check_no_duplicates_fails: "check_no_duplicates cx v = Some (Inl e) \<Longrightarrow> \<not> contract_error e"
  by (auto simp: check_no_duplicates_def and_then_Inl dest!: try_each_fails_plain split: log_entry.splits if_splits)

lemma check_reply_fails: "check_reply m reply st = Some (Inl e) \<Longrightarrow> \<not> contract_error e"
  by (cases reply) (auto simp: and_then_Inl require_Inl split: option.splits)

lemma check_replies_fails: "check_replies cx v = Some (Inl e) \<Longrightarrow> \<not> contract_error e"
  by (auto simp: check_replies_def and_then_Inl bind_eq_Some_conv dest!: try_each_fails_plain check_reply_fails)

lemma check_queries_fails: "check_queries cx v = Some (Inl e) \<Longrightarrow> \<not> contract_error e"
  by (auto simp: check_queries_def and_then_Inl bind_eq_Some_conv require_Inl Let_def dest!: try_each_fails_plain)

lemma check_durability_fails: "check_durability cx v = Some (Inl e) \<Longrightarrow> \<not> contract_error e"
  by (fastforce simp: check_durability_def bind_eq_Some_conv and_then_Inl require_Inl Let_def dest!: try_each_fails_plain)

lemmas checks_fail = check_prefix_fails check_no_duplicates_fails check_replies_fails check_queries_fails
  check_durability_fails

lemma properties_check_fails:
  assumes "all_sites si" and "properties_check (sim_context_of si) (si_properties si) = Some (Inl e)"
  shows "\<not> contract_error e"
  using assms check_commit_number_fails [OF assms(1)] check_state_fails [OF assms(1)]
    check_executed_durable_holds [OF assms(1)]
  unfolding properties_check_def and_then_Inl by (blast dest: checks_fail)

lemma send_all_fails: "send_all (checked_send i) p r ms w = Inl e \<Longrightarrow> \<not> contract_error e"
  by (induction ms arbitrary: w) (auto simp: checked_send_def check_promise_def split: sum.splits if_splits)

lemma disk_release_fails: "disk_release (checked_send i) d r w reps = Some (Inl e) \<Longrightarrow> \<not> contract_error e"
  by (auto simp: disk_release_def and_then_Inl Let_def split: prod.splits dest: send_all_fails)

lemma land_and_release_fails: "land_and_release (checked_send i) d r w reps = Some (Inl e) \<Longrightarrow> \<not> contract_error e"
  by (auto simp: land_and_release_def bind_eq_Some_conv dest: disk_release_fails)

lemma next_write_fails: "next_write (checked_send i) ch d r w reps = Some (Inl e) \<Longrightarrow> \<not> contract_error e"
  by (auto simp: next_write_def bind_eq_Some_conv Let_def split: if_splits dest: land_and_release_fails)

lemma land_out_fails: "land_out (checked_send i) ch d r w reps = Some (Inl e) \<Longrightarrow> \<not> contract_error e"
  by (auto simp: land_out_def split: if_splits dest: land_and_release_fails)

lemma disk_step_fails:
  assumes "disk_step (checked_send i) ch d r w reps = Some (Inl e)"
  shows "\<not> contract_error e"
proof -
  obtain ra ms where ra: "drain_messages_before_persist r = (ra, ms)" by (rule prod.exhaust)
  obtain rb rs where rb: "drain_replies ra = (rb, rs)" by (rule prod.exhaust)
  from assms show ?thesis
    by (auto simp: disk_step_def ra rb and_then_Inl Let_def split: if_splits
        dest: send_all_fails land_out_fails next_write_fails)
qed

lemma step_up_fails: "step_up dc i si = Some (Inl (PropertyFailed e)) \<Longrightarrow> \<not> contract_error e"
  by (auto simp: step_up_def step_one_def bind_eq_Some_conv and_then_Inl Let_def split: if_splits dest: disk_step_fails)

lemma record_committed_fails: "record_committed si \<noteq> Some (Inl (PropertyFailed e))"
  by (auto simp: record_committed_def and_then_Inl record_one_def bind_eq_Some_conv split: option.splits if_splits
      dest!: try_each_fails_plain)

lemma sim_flush_fails: "sim_flush dc si = Some (Inl (PropertyFailed e)) \<Longrightarrow> \<not> contract_error e"
  by (auto simp: sim_flush_def and_then_Inl record_committed_fails check_each_def properties_before_steps_def
      dest!: try_each_fails_plain step_up_fails check_durability_fails)

lemma tick_network_fails: "tick_network dc si = Some (Inl (PropertyFailed e)) \<Longrightarrow> \<not> contract_error e"
  by (auto simp: tick_network_def and_then_Inl dest: sim_flush_fails)

lemma tick_fails:
  assumes inv: "all_sites si" and fails: "tick dc si = Some (Inl (PropertyFailed e))"
  shows "\<not> contract_error e"
proof (rule ccontr)
  assume "\<not> \<not> contract_error e"
  with fails obtain sa sb sc sd se sf where p: "tick_requests dc si = Some sa" "tick_crash dc sa = Some sb"
    "tick_flush dc sb = Some sc" "tick_heartbeat sc = Some sd" and n: "tick_network dc sd = Some (Inr se)"
    and f: "record_committed se = Some (Inr sf)"
    and g: "properties_check (sim_context_of sf) (si_properties sf) = Some (Inl e)"
    by (auto simp: tick_def and_then_Inl bind_eq_Some_conv record_committed_fails check_each_def dest: tick_network_fails)
  have "all_sites se" using tick_start_ok [OF inv p] n by (rule tick_network_ok)
  then have "all_sites sf" using sites_record_committed [OF f] by (rule sites_inv_same)
  from properties_check_fails [OF this g] \<open>\<not> \<not> contract_error e\<close> show False by simp
qed

text \<open>
  C23: no tick of any simulation ends with one of the errors that the checks give when a replica
  broke its own promises: its log shorter or longer than its operation number, something
  compacted or applied that was not committed, a commit undone, or an operation executed that
  its disk does not hold.
\<close>

theorem simulation_checks_hold:
  assumes "simulated so si"
  shows "\<forall>dc e. tick dc si = Some (Inl (PropertyFailed e)) \<longrightarrow> \<not> contract_error e"
  using tick_fails [OF simulated_sites [OF assms]] by blast

theorem simulation_checks_hold_witness:
  "\<exists>si. simulated sample_options si \<and> si_ticks si = 1
     \<and> (\<forall>i n. tick sample_dice si \<noteq> Some (Inl (PropertyFailed (NotOnDisk i n))))"
proof -
  obtain si where s: "simulated sample_options si" "si_ticks si = 1" by (rule sample_simulated)
  with simulation_checks_hold [OF s(1)] show ?thesis by fastforce
qed

end
