(* ===== verification/KV_Codec.thy ===== *)
theory KV_Codec
  imports KV_Text
begin

text \<open>
  The kvstore's encodings: operations, log entries, results and client records of
  \<open>src/examples/kvstore/node.rs\<close>, with the cursor \<open>Tokens\<close> that reads them back, and the
  frames that nodes exchange, one line each, of \<open>src/examples/kvstore/main.rs\<close>.  An encoder
  has no value where \<open>push_number\<close> panics; a decoder's errors are values.
\<close>

section \<open>Operations, entries, results\<close>

datatype kv_op = Put string string

type_synonym kv_result = "string option"
type_synonym kv_entry = "kv_op log_entry"
type_synonym kv_client_record = "kv_result client_record"
type_synonym kv_segment = "kv_op log_segment"

fun write_op :: "string \<Rightarrow> kv_op \<Rightarrow> string" where
  "write_op out (Put k v) = out @ ''PUT '' @ k @ '' '' @ v"

fun push_numbers :: "string \<Rightarrow> nat list \<Rightarrow> string option" where
  "push_numbers out [] = Some out"
| "push_numbers out (n # ns) = do { out \<leftarrow> push_number (out @ '' '') n; push_numbers out ns }"

fun write_entry :: "string \<Rightarrow> kv_entry \<Rightarrow> string option" where
  "write_entry out (ERegister c) = push_number (out @ ''REG '') c"
| "write_entry out (ERequest c s n a op) = do {
     out \<leftarrow> push_numbers (out @ ''REQ'') [c, s, n, a];
     Some (write_op (out @ '' '') op) }"

fun push_entries :: "string \<Rightarrow> kv_entry list \<Rightarrow> string option" where
  "push_entries out [] = Some out"
| "push_entries out (e # es) = do { out \<leftarrow> write_entry (out @ '' '') e; push_entries out es }"

definition encode_entries :: "kv_entry list \<Rightarrow> string option" where
  "encode_entries log = push_entries (decimal (length log)) log"

fun encode_result :: "kv_result \<Rightarrow> string" where
  "encode_result (Some v) = ''+'' @ v"
| "encode_result None = ''-''"

definition encode_client :: "kv_client_record \<Rightarrow> string" where
  "encode_client rec =
     decimal (rec_session rec) @ '' '' @ decimal (rec_request_number rec) @ '' '' @ decimal (rec_op_number rec)
       @ '' '' @ decimal (length (rec_replies rec))
       @ concat (map (\<lambda>rep. '' '' @ encode_result rep) (rec_replies rec))"

section \<open>The cursor\<close>

text \<open>
  The errors, by the text they carry.  \<open>SlicePanic\<close> stands for the panic of a slice that does
  not start at a character: a character beyond ASCII takes two bytes or more.
\<close>

datatype kv_error =
    TruncatedMessage | BadNumber string | BadOp string | BadEntry string | Trailing string
  | BadFlag string | BadBase string | BadRound | BadNonce | UnknownMessage string | SlicePanic

type_synonym 'a parser = "string list \<Rightarrow> kv_error + ('a \<times> string list)"

definition p_return :: "'a \<Rightarrow> 'a parser" where
  "p_return x ws = Inr (x, ws)"

definition p_fail :: "kv_error \<Rightarrow> 'a parser" where
  "p_fail e ws = Inl e"

definition p_bind :: "'a parser \<Rightarrow> ('a \<Rightarrow> 'b parser) \<Rightarrow> 'b parser" where
  "p_bind p f ws = (case p ws of Inl e \<Rightarrow> Inl e | Inr (x, ws) \<Rightarrow> f x ws)"

fun tok_word :: "string parser" where
  "tok_word [] = Inl TruncatedMessage"
| "tok_word (w # ws) = Inr (w, ws)"

definition tok_parse :: "(string \<Rightarrow> kv_error) \<Rightarrow> nat parser" where
  "tok_parse err = p_bind tok_word (\<lambda>w.
     case parse_number w of Some n \<Rightarrow> p_return n | None \<Rightarrow> p_fail (err w))"

definition tok_num :: "nat parser" where
  "tok_num = tok_parse BadNumber"

definition tok_op :: "kv_op parser" where
  "tok_op = p_bind tok_word (\<lambda>kind.
     if kind = ''PUT'' then p_bind tok_word (\<lambda>k. p_bind tok_word (\<lambda>v. p_return (Put k v)))
     else p_fail (BadOp kind))"

definition tok_entry :: "kv_entry parser" where
  "tok_entry = p_bind tok_word (\<lambda>kind.
     if kind = ''REG'' then p_bind tok_num (\<lambda>c. p_return (ERegister c))
     else if kind = ''REQ'' then
       p_bind tok_num (\<lambda>c. p_bind tok_num (\<lambda>s. p_bind tok_num (\<lambda>n. p_bind tok_num (\<lambda>a.
       p_bind tok_op (\<lambda>op. p_return (ERequest c s n a op))))))
     else p_fail (BadEntry kind))"

fun tok_repeat :: "nat \<Rightarrow> 'a parser \<Rightarrow> 'a list parser" where
  "tok_repeat 0 p = p_return []"
| "tok_repeat (Suc k) p = p_bind p (\<lambda>x. p_bind (tok_repeat k p) (\<lambda>xs. p_return (x # xs)))"

definition tok_result :: "kv_result parser" where
  "tok_result = p_bind tok_word (\<lambda>w.
     if w = ''-'' then p_return None
     else if of_char (hd w) < (128 :: nat) then p_return (Some (tl w)) else p_fail SlicePanic)"

definition tok_client :: "ClientID \<Rightarrow> kv_client_record parser" where
  "tok_client c =
     p_bind tok_num (\<lambda>s. p_bind tok_num (\<lambda>n. p_bind tok_num (\<lambda>k. p_bind tok_num (\<lambda>count.
     p_bind (tok_repeat count tok_result) (\<lambda>reps.
     p_return \<lparr>rec_client_id = c, rec_session = s, rec_request_number = n, rec_replies = reps,
       rec_op_number = k\<rparr>)))))"

definition tok_entries :: "kv_entry list parser" where
  "tok_entries = p_bind tok_num (\<lambda>count. tok_repeat count tok_entry)"

definition tok_done :: "unit parser" where
  "tok_done ws = (case ws of [] \<Rightarrow> Inr ((), []) | w # _ \<Rightarrow> Inl (Trailing w))"

definition decode_entry :: "string \<Rightarrow> kv_error + kv_entry" where
  "decode_entry text =
     (case p_bind tok_entry (\<lambda>e. p_bind tok_done (\<lambda>_. p_return e)) (split_whitespace text) of
        Inl e \<Rightarrow> Inl e | Inr (e, _) \<Rightarrow> Inr e)"

section \<open>Frames\<close>

record store_chunk =
  sc_pairs :: "(string \<times> string) list"
  sc_clients :: "kv_client_record list"

type_synonym kv_message = "(kv_op, string, store_chunk) message"
type_synonym kv_reply = "kv_result reply"

datatype frame = FMessage kv_message | FReply kv_reply

definition encode_chunk :: "store_chunk \<Rightarrow> string" where
  "encode_chunk chunk =
     decimal (length (sc_clients chunk))
       @ concat (map (\<lambda>rec. '' '' @ decimal (rec_client_id rec) @ '' '' @ encode_client rec) (sc_clients chunk))
       @ '' '' @ decimal (length (sc_pairs chunk))
       @ concat (map (\<lambda>(k, v). '' '' @ k @ '' '' @ v) (sc_pairs chunk))"

fun encode_base :: "log_base \<Rightarrow> string" where
  "encode_base (BaseOp n) = ''- '' @ decimal n"
| "encode_base (BaseCheckpoint n) = ''+ '' @ decimal n"

definition encode_segment :: "kv_segment \<Rightarrow> string option" where
  "encode_segment seg = do {
     es \<leftarrow> encode_entries (seg_entries seg);
     Some (encode_base (seg_base seg) @ '' '' @ es) }"

text \<open>\<open>format!\<close> of a name and numbers, one space before each.\<close>

definition formatted :: "string \<Rightarrow> nat list \<Rightarrow> string" where
  "formatted name ns = name @ concat (map (\<lambda>n. '' '' @ decimal n) ns)"

fun encode_message :: "kv_message \<Rightarrow> string option" where
  "encode_message (Register c) = Some (formatted ''REGISTER'' [c])"
| "encode_message (Request c s n a op) = do {
     out \<leftarrow> push_numbers ''REQUEST'' [c, s, n, a];
     Some (write_op (out @ '' '') op) }"
| "encode_message (Query c n q) = Some (formatted ''QUERY'' [c, n] @ '' '' @ q)"
| "encode_message (ConfirmView v rd) = Some (formatted ''CONFIRMVIEW'' [v, rd])"
| "encode_message (ConfirmViewOk v rd i) = Some (formatted ''CONFIRMVIEWOK'' [v, rd, i])"
| "encode_message (Prepare v n e k) = do {
     out \<leftarrow> push_numbers ''PREPARE'' [v, n, k];
     write_entry (out @ '' '') e }"
| "encode_message (PrepareOk v n i) = Some (formatted ''PREPAREOK'' [v, n, i])"
| "encode_message (Commit v k) = Some (formatted ''COMMIT'' [v, k])"
| "encode_message (GetState i v n) = Some (formatted ''GETSTATE'' [i, v, n])"
| "encode_message (NewState i v seg k) = do {
     s \<leftarrow> encode_segment seg;
     Some (formatted ''NEWSTATE'' [i, v, k] @ '' '' @ s) }"
| "encode_message (GetChunk i n x) = Some (formatted ''GETCHUNK'' [i, n, x])"
| "encode_message (NewChunk i n x chunk l) =
     Some (formatted ''NEWCHUNK'' [i, n, x, if l then 1 else 0] @ '' '' @ encode_chunk chunk)"
| "encode_message (StartViewChange v i) = Some (formatted ''STARTVIEWCHANGE'' [v, i])"
| "encode_message (DoViewChange v i lnv seg k) = do {
     s \<leftarrow> encode_segment seg;
     Some (formatted ''DOVIEWCHANGE'' [v, i, lnv, k] @ '' '' @ s) }"
| "encode_message (StartView v seg k) = do {
     s \<leftarrow> encode_segment seg;
     Some (formatted ''STARTVIEW'' [v, k] @ '' '' @ s) }"
| "encode_message (Recovery i x v) = Some (formatted ''RECOVERY'' [i, x, v])"
| "encode_message (RecoveryResponse v x i None) = Some (formatted ''RECOVERYRESPONSE'' [v, x, i] @ '' -'')"
| "encode_message (RecoveryResponse v x i (Some st)) = do {
     s \<leftarrow> encode_segment (rs_segment st);
     Some (formatted ''RECOVERYRESPONSE'' [v, x, i] @ '' + '' @ decimal (rs_commit_number st) @ '' '' @ s) }"

fun encode_reply :: "kv_reply \<Rightarrow> string" where
  "encode_reply (Registered v c s) = formatted ''REGISTERED'' [v, c, s]"
| "encode_reply (Executed v c s n out) = formatted ''EXECUTED'' [v, c, s, n] @ '' '' @ encode_result out"
| "encode_reply (Evicted v c s) = formatted ''EVICTED'' [v, c, s]"
| "encode_reply (Queried v c n out) = formatted ''QUERIED'' [v, c, n] @ '' '' @ encode_result out"

fun encode :: "frame \<Rightarrow> string option" where
  "encode (FMessage m) = encode_message m"
| "encode (FReply rep) = Some (encode_reply rep)"

section \<open>Reading frames\<close>

definition tok_pair :: "(string \<times> string) parser" where
  "tok_pair = p_bind tok_word (\<lambda>k. p_bind tok_word (\<lambda>v. p_return (k, v)))"

definition tok_chunk :: "store_chunk parser" where
  "tok_chunk =
     p_bind tok_num (\<lambda>count.
     p_bind (tok_repeat count (p_bind tok_num tok_client)) (\<lambda>clients.
     p_bind tok_num (\<lambda>count.
     p_bind (tok_repeat count tok_pair) (\<lambda>pairs.
     p_return \<lparr>sc_pairs = pairs, sc_clients = clients\<rparr>))))"

definition tok_flag :: "bool parser" where
  "tok_flag = p_bind tok_word (\<lambda>w.
     if w = ''0'' then p_return False else if w = ''1'' then p_return True else p_fail (BadFlag w))"

definition tok_segment :: "kv_segment parser" where
  "tok_segment =
     p_bind (p_bind tok_word (\<lambda>w.
       if w = ''-'' then p_bind tok_num (\<lambda>n. p_return (BaseOp n))
       else if w = ''+'' then p_bind tok_num (\<lambda>n. p_return (BaseCheckpoint n))
       else p_fail (BadBase w))) (\<lambda>base.
     p_bind tok_entries (\<lambda>es. p_return \<lparr>seg_base = base, seg_entries = es\<rparr>))"

definition tok_recovery_state :: "kv_op recovery_state option parser" where
  "tok_recovery_state = p_bind tok_word (\<lambda>w.
     if w = ''+'' then p_bind tok_num (\<lambda>k. p_bind tok_segment (\<lambda>seg.
       p_return (Some \<lparr>rs_segment = seg, rs_commit_number = k\<rparr>)))
     else p_return None)"

definition tok_message :: "string \<Rightarrow> kv_message parser option" where
  "tok_message kind =
     (if kind = ''REGISTER'' then Some (p_bind tok_num (\<lambda>c. p_return (Register c)))
      else if kind = ''REQUEST'' then Some (p_bind tok_num (\<lambda>c. p_bind tok_num (\<lambda>s. p_bind tok_num (\<lambda>n.
        p_bind tok_num (\<lambda>a. p_bind tok_op (\<lambda>op. p_return (Request c s n a op)))))))
      else if kind = ''QUERY'' then Some (p_bind tok_num (\<lambda>c. p_bind tok_num (\<lambda>n. p_bind tok_word (\<lambda>q.
        p_return (Query c n q)))))
      else if kind = ''CONFIRMVIEW'' then Some (p_bind tok_num (\<lambda>v. p_bind (tok_parse (\<lambda>_. BadRound)) (\<lambda>rd.
        p_return (ConfirmView v rd))))
      else if kind = ''CONFIRMVIEWOK'' then Some (p_bind tok_num (\<lambda>v. p_bind (tok_parse (\<lambda>_. BadRound)) (\<lambda>rd.
        p_bind tok_num (\<lambda>i. p_return (ConfirmViewOk v rd i)))))
      else if kind = ''PREPARE'' then Some (p_bind tok_num (\<lambda>v. p_bind tok_num (\<lambda>n. p_bind tok_num (\<lambda>k.
        p_bind tok_entry (\<lambda>e. p_return (Prepare v n e k))))))
      else if kind = ''PREPAREOK'' then Some (p_bind tok_num (\<lambda>v. p_bind tok_num (\<lambda>n. p_bind tok_num (\<lambda>i.
        p_return (PrepareOk v n i)))))
      else if kind = ''COMMIT'' then Some (p_bind tok_num (\<lambda>v. p_bind tok_num (\<lambda>k. p_return (Commit v k))))
      else if kind = ''GETSTATE'' then Some (p_bind tok_num (\<lambda>i. p_bind tok_num (\<lambda>v. p_bind tok_num (\<lambda>n.
        p_return (GetState i v n)))))
      else if kind = ''NEWSTATE'' then Some (p_bind tok_num (\<lambda>i. p_bind tok_num (\<lambda>v. p_bind tok_num (\<lambda>k.
        p_bind tok_segment (\<lambda>seg. p_return (NewState i v seg k))))))
      else if kind = ''GETCHUNK'' then Some (p_bind tok_num (\<lambda>i. p_bind tok_num (\<lambda>n. p_bind tok_num (\<lambda>x.
        p_return (GetChunk i n x)))))
      else if kind = ''NEWCHUNK'' then Some (p_bind tok_num (\<lambda>i. p_bind tok_num (\<lambda>n. p_bind tok_num (\<lambda>x.
        p_bind tok_flag (\<lambda>l. p_bind tok_chunk (\<lambda>chunk. p_return (NewChunk i n x chunk l)))))))
      else if kind = ''STARTVIEWCHANGE'' then Some (p_bind tok_num (\<lambda>v. p_bind tok_num (\<lambda>i.
        p_return (StartViewChange v i))))
      else if kind = ''DOVIEWCHANGE'' then Some (p_bind tok_num (\<lambda>v. p_bind tok_num (\<lambda>i. p_bind tok_num (\<lambda>lnv.
        p_bind tok_num (\<lambda>k. p_bind tok_segment (\<lambda>seg. p_return (DoViewChange v i lnv seg k)))))))
      else if kind = ''STARTVIEW'' then Some (p_bind tok_num (\<lambda>v. p_bind tok_num (\<lambda>k. p_bind tok_segment (\<lambda>seg.
        p_return (StartView v seg k)))))
      else if kind = ''RECOVERY'' then Some (p_bind tok_num (\<lambda>i. p_bind (tok_parse (\<lambda>_. BadNonce)) (\<lambda>x.
        p_bind tok_num (\<lambda>v. p_return (Recovery i x v)))))
      else if kind = ''RECOVERYRESPONSE'' then Some (p_bind tok_num (\<lambda>v. p_bind (tok_parse (\<lambda>_. BadNonce)) (\<lambda>x.
        p_bind tok_num (\<lambda>i. p_bind tok_recovery_state (\<lambda>st. p_return (RecoveryResponse v x i st))))))
      else None)"

definition tok_reply :: "string \<Rightarrow> kv_reply parser option" where
  "tok_reply kind =
     (if kind = ''REGISTERED'' then Some (p_bind tok_num (\<lambda>v. p_bind tok_num (\<lambda>c. p_bind tok_num (\<lambda>s.
        p_return (Registered v c s)))))
      else if kind = ''EXECUTED'' then Some (p_bind tok_num (\<lambda>v. p_bind tok_num (\<lambda>c. p_bind tok_num (\<lambda>s.
        p_bind tok_num (\<lambda>n. p_bind tok_result (\<lambda>out. p_return (Executed v c s n out)))))))
      else if kind = ''EVICTED'' then Some (p_bind tok_num (\<lambda>v. p_bind tok_num (\<lambda>c. p_bind tok_num (\<lambda>s.
        p_return (Evicted v c s)))))
      else if kind = ''QUERIED'' then Some (p_bind tok_num (\<lambda>v. p_bind tok_num (\<lambda>c. p_bind tok_num (\<lambda>n.
        p_bind tok_result (\<lambda>out. p_return (Queried v c n out))))))
      else None)"

text \<open>What follows a whole frame on its line is not looked at.\<close>

definition decode :: "string \<Rightarrow> kv_error + frame" where
  "decode line =
     (case p_bind tok_word (\<lambda>kind. case tok_message kind of
          Some p \<Rightarrow> p_bind p (\<lambda>m. p_return (FMessage m))
        | None \<Rightarrow> (case tok_reply kind of
            Some p \<Rightarrow> p_bind p (\<lambda>rep. p_return (FReply rep))
          | None \<Rightarrow> p_fail (UnknownMessage kind))) (split_whitespace line) of
        Inl e \<Rightarrow> Inl e | Inr (f, _) \<Rightarrow> Inr f)"

text \<open>The lines of a stream that end in a newline.\<close>

definition read_lines :: "string \<Rightarrow> string list" where
  "read_lines s = map drop_cr (fst (split_lines s))"

text \<open>What a sender writes to a connection, and the frames the reader takes from it.\<close>

fun write_frames :: "frame list \<Rightarrow> string option" where
  "write_frames [] = Some []"
| "write_frames (f # fs) = do {
     line \<leftarrow> encode f;
     rest \<leftarrow> write_frames fs;
     Some (line @ [newline] @ rest) }"

definition read_frames :: "string \<Rightarrow> frame list" where
  "read_frames s = concat (map (\<lambda>l. case decode l of Inr f \<Rightarrow> [f] | Inl _ \<Rightarrow> []) (read_lines s))"

section \<open>Client commands\<close>

datatype command = CSet string string | CGet string

definition to_ascii_uppercase :: "char \<Rightarrow> char" where
  "to_ascii_uppercase c = (let n = of_char c :: nat in if 97 \<le> n \<and> n \<le> 122 then char_of (n - 32) else c)"

text \<open>
  A line with no command asks for nothing; an answer that needs no command executed, an error
  among them, is the error value.  \<open>CanUnknown\<close> is the answer to an unknown command, with its
  name.
\<close>

datatype canned = Pong | UsageSet | UsageGet | CanUnknown string

definition match_command :: "string \<Rightarrow> string list \<Rightarrow> canned + command option" where
  "match_command upper words =
     (if upper = ''PING'' \<and> length words = 1 then Inl Pong
      else if upper = ''SET'' then
        (if length words = 3 then Inr (Some (CSet (words ! 1) (words ! 2))) else Inl UsageSet)
      else if upper = ''GET'' then
        (if length words = 2 then Inr (Some (CGet (words ! 1))) else Inl UsageGet)
      else Inl (CanUnknown (words ! 0)))"

definition parse_command :: "string \<Rightarrow> canned + command option" where
  "parse_command line = (let words = split_whitespace line in
     case words of [] \<Rightarrow> Inr None | name # _ \<Rightarrow> match_command (map to_ascii_uppercase name) words)"

end
