(* ===== verification/KV_Roundtrip.thy ===== *)
theory KV_Roundtrip
  imports KV_Codec
begin

text \<open>
  What the kvstore writes it reads back: entries, client records, chunks and segments word by
  word, frames line by line, and a stream of frames up to where it was cut off.
\<close>

section \<open>Words with a space before each\<close>

definition spaced :: "string list \<Rightarrow> string" where
  "spaced ws = concat (map (\<lambda>w. '' '' @ w) ws)"

lemma spaced_simps [simp]:
  "spaced [] = []" "spaced (w # ws) = CHR '' '' # w @ spaced ws" "spaced (xs @ ys) = spaced xs @ spaced ys"
  by (simp_all add: spaced_def)

lemma split_whitespace_spaced:
  "is_word w \<Longrightarrow> list_all is_word ws \<Longrightarrow> split_whitespace (w @ spaced ws) = w # ws"
  by (induction ws arbitrary: w) simp_all

lemma word_no_newline: "is_word w \<Longrightarrow> newline \<notin> set w \<and> carriage_return \<notin> set w"
  by (auto simp: is_word_def list_all_iff)

lemma newline_neq: "newline \<noteq> CHR '' ''" "carriage_return \<noteq> CHR '' ''"
  by (simp_all add: newline_def carriage_return_def)

lemma spaced_no_newline: "list_all is_word ws \<Longrightarrow> newline \<notin> set (spaced ws) \<and> carriage_return \<notin> set (spaced ws)"
  by (induction ws) (simp_all add: word_no_newline newline_neq)

section \<open>What may be written\<close>

fun wf_op :: "kv_op \<Rightarrow> bool" where
  "wf_op (Put k v) \<longleftrightarrow> is_word k \<and> is_word v"

fun wf_entry :: "kv_entry \<Rightarrow> bool" where
  "wf_entry (ERegister c) \<longleftrightarrow> fits c"
| "wf_entry (ERequest c s n a op) \<longleftrightarrow> fits c \<and> fits s \<and> fits n \<and> fits a \<and> wf_op op"

fun wf_result :: "kv_result \<Rightarrow> bool" where
  "wf_result (Some v) \<longleftrightarrow> list_all (\<lambda>c. \<not> is_ws c) v"
| "wf_result None \<longleftrightarrow> True"

definition wf_record :: "kv_client_record \<Rightarrow> bool" where
  "wf_record rec \<longleftrightarrow> fits (rec_client_id rec) \<and> fits (rec_session rec) \<and> fits (rec_request_number rec)
     \<and> fits (rec_op_number rec) \<and> fits (length (rec_replies rec)) \<and> list_all wf_result (rec_replies rec)"

definition wf_chunk :: "store_chunk \<Rightarrow> bool" where
  "wf_chunk chunk \<longleftrightarrow> fits (length (sc_clients chunk)) \<and> fits (length (sc_pairs chunk))
     \<and> list_all wf_record (sc_clients chunk) \<and> list_all (\<lambda>(k, v). is_word k \<and> is_word v) (sc_pairs chunk)"

definition wf_segment :: "kv_segment \<Rightarrow> bool" where
  "wf_segment seg \<longleftrightarrow> fits (base_start (seg_base seg)) \<and> fits (length (seg_entries seg))
     \<and> list_all wf_entry (seg_entries seg)"

fun wf_message :: "kv_message \<Rightarrow> bool" where
  "wf_message (Register c) \<longleftrightarrow> fits c"
| "wf_message (Request c s n a op) \<longleftrightarrow> list_all fits [c, s, n, a] \<and> wf_op op"
| "wf_message (Query c n q) \<longleftrightarrow> list_all fits [c, n] \<and> is_word q"
| "wf_message (ConfirmView v rd) \<longleftrightarrow> list_all fits [v, rd]"
| "wf_message (ConfirmViewOk v rd i) \<longleftrightarrow> list_all fits [v, rd, i]"
| "wf_message (Prepare v n e k) \<longleftrightarrow> list_all fits [v, n, k] \<and> wf_entry e"
| "wf_message (PrepareOk v n i) \<longleftrightarrow> list_all fits [v, n, i]"
| "wf_message (Commit v k) \<longleftrightarrow> list_all fits [v, k]"
| "wf_message (GetState i v n) \<longleftrightarrow> list_all fits [i, v, n]"
| "wf_message (NewState i v seg k) \<longleftrightarrow> list_all fits [i, v, k] \<and> wf_segment seg"
| "wf_message (GetChunk i n x) \<longleftrightarrow> list_all fits [i, n, x]"
| "wf_message (NewChunk i n x chunk l) \<longleftrightarrow> list_all fits [i, n, x] \<and> wf_chunk chunk"
| "wf_message (StartViewChange v i) \<longleftrightarrow> list_all fits [v, i]"
| "wf_message (DoViewChange v i lnv seg k) \<longleftrightarrow> list_all fits [v, i, lnv, k] \<and> wf_segment seg"
| "wf_message (StartView v seg k) \<longleftrightarrow> list_all fits [v, k] \<and> wf_segment seg"
| "wf_message (Recovery i x v) \<longleftrightarrow> list_all fits [i, x, v]"
| "wf_message (RecoveryResponse v x i st) \<longleftrightarrow> list_all fits [v, x, i]
     \<and> (case st of None \<Rightarrow> True | Some s \<Rightarrow> fits (rs_commit_number s) \<and> wf_segment (rs_segment s))"

fun wf_reply :: "kv_reply \<Rightarrow> bool" where
  "wf_reply (Registered v c s) \<longleftrightarrow> list_all fits [v, c, s]"
| "wf_reply (Executed v c s n out) \<longleftrightarrow> list_all fits [v, c, s, n] \<and> wf_result out"
| "wf_reply (Evicted v c s) \<longleftrightarrow> list_all fits [v, c, s]"
| "wf_reply (Queried v c n out) \<longleftrightarrow> list_all fits [v, c, n] \<and> wf_result out"

fun wf_frame :: "frame \<Rightarrow> bool" where
  "wf_frame (FMessage m) \<longleftrightarrow> wf_message m"
| "wf_frame (FReply rep) \<longleftrightarrow> wf_reply rep"

section \<open>The words of what is written\<close>

fun op_words :: "kv_op \<Rightarrow> string list" where
  "op_words (Put k v) = [''PUT'', k, v]"

fun entry_words :: "kv_entry \<Rightarrow> string list" where
  "entry_words (ERegister c) = [''REG'', decimal c]"
| "entry_words (ERequest c s n a op) = ''REQ'' # map decimal [c, s, n, a] @ op_words op"

definition entries_words :: "kv_entry list \<Rightarrow> string list" where
  "entries_words es = decimal (length es) # concat (map entry_words es)"

definition client_words :: "kv_client_record \<Rightarrow> string list" where
  "client_words rec = map decimal [rec_session rec, rec_request_number rec, rec_op_number rec, length (rec_replies rec)]
     @ map encode_result (rec_replies rec)"

definition chunk_words :: "store_chunk \<Rightarrow> string list" where
  "chunk_words chunk = decimal (length (sc_clients chunk))
     # concat (map (\<lambda>rec. decimal (rec_client_id rec) # client_words rec) (sc_clients chunk))
     @ decimal (length (sc_pairs chunk)) # concat (map (\<lambda>(k, v). [k, v]) (sc_pairs chunk))"

fun base_words :: "log_base \<Rightarrow> string list" where
  "base_words (BaseOp n) = [''-'', decimal n]"
| "base_words (BaseCheckpoint n) = [''+'', decimal n]"

definition segment_words :: "kv_segment \<Rightarrow> string list" where
  "segment_words seg = base_words (seg_base seg) @ entries_words (seg_entries seg)"

fun message_words :: "kv_message \<Rightarrow> string \<times> string list" where
  "message_words (Register c) = (''REGISTER'', [decimal c])"
| "message_words (Request c s n a op) = (''REQUEST'', map decimal [c, s, n, a] @ op_words op)"
| "message_words (Query c n q) = (''QUERY'', [decimal c, decimal n, q])"
| "message_words (ConfirmView v rd) = (''CONFIRMVIEW'', map decimal [v, rd])"
| "message_words (ConfirmViewOk v rd i) = (''CONFIRMVIEWOK'', map decimal [v, rd, i])"
| "message_words (Prepare v n e k) = (''PREPARE'', map decimal [v, n, k] @ entry_words e)"
| "message_words (PrepareOk v n i) = (''PREPAREOK'', map decimal [v, n, i])"
| "message_words (Commit v k) = (''COMMIT'', map decimal [v, k])"
| "message_words (GetState i v n) = (''GETSTATE'', map decimal [i, v, n])"
| "message_words (NewState i v seg k) = (''NEWSTATE'', map decimal [i, v, k] @ segment_words seg)"
| "message_words (GetChunk i n x) = (''GETCHUNK'', map decimal [i, n, x])"
| "message_words (NewChunk i n x chunk l) =
     (''NEWCHUNK'', map decimal [i, n, x, if l then 1 else 0] @ chunk_words chunk)"
| "message_words (StartViewChange v i) = (''STARTVIEWCHANGE'', map decimal [v, i])"
| "message_words (DoViewChange v i lnv seg k) = (''DOVIEWCHANGE'', map decimal [v, i, lnv, k] @ segment_words seg)"
| "message_words (StartView v seg k) = (''STARTVIEW'', map decimal [v, k] @ segment_words seg)"
| "message_words (Recovery i x v) = (''RECOVERY'', map decimal [i, x, v])"
| "message_words (RecoveryResponse v x i st) = (''RECOVERYRESPONSE'', map decimal [v, x, i]
     @ (case st of None \<Rightarrow> [''-''] | Some s \<Rightarrow> ''+'' # decimal (rs_commit_number s) # segment_words (rs_segment s)))"

fun reply_words :: "kv_reply \<Rightarrow> string \<times> string list" where
  "reply_words (Registered v c s) = (''REGISTERED'', map decimal [v, c, s])"
| "reply_words (Executed v c s n out) = (''EXECUTED'', map decimal [v, c, s, n] @ [encode_result out])"
| "reply_words (Evicted v c s) = (''EVICTED'', map decimal [v, c, s])"
| "reply_words (Queried v c n out) = (''QUERIED'', map decimal [v, c, n] @ [encode_result out])"

fun frame_words :: "frame \<Rightarrow> string \<times> string list" where
  "frame_words (FMessage m) = message_words m"
| "frame_words (FReply rep) = reply_words rep"

section \<open>Writing them\<close>

lemma push_numbers_eq: "list_all fits ns \<Longrightarrow> push_numbers out ns = Some (out @ spaced (map decimal ns))"
  by (induction ns arbitrary: out) (simp_all add: push_number_eq)

lemma write_op_eq: "write_op (out @ '' '') op = out @ spaced (op_words op)"
  by (cases op) simp

lemma write_entry_eq: "wf_entry e \<Longrightarrow> write_entry (out @ '' '') e = Some (out @ spaced (entry_words e))"
  by (cases e) (simp_all add: push_number_eq push_numbers_eq write_op_eq [simplified] del: push_numbers.simps)

lemma push_entries_eq:
  "list_all wf_entry es \<Longrightarrow> push_entries out es = Some (out @ spaced (concat (map entry_words es)))"
  by (induction es arbitrary: out) (simp_all add: write_entry_eq [simplified])

lemma encode_entries_eq:
  "list_all wf_entry es \<Longrightarrow> encode_entries es = Some (decimal (length es) @ spaced (concat (map entry_words es)))"
  by (simp add: encode_entries_def push_entries_eq)

lemma concat_spaced: "concat (map (\<lambda>x. '' '' @ f x) xs) = spaced (map f xs)"
  by (simp add: spaced_def comp_def)

lemma spaced_client: "spaced (client_words rec) = '' '' @ encode_client rec"
  by (simp add: client_words_def encode_client_def concat_spaced [of encode_result, simplified])

lemma spaced_concat: "spaced (concat (map f xs)) = concat (map (\<lambda>x. spaced (f x)) xs)"
  by (induction xs) simp_all

lemma spaced_chunk: "spaced (chunk_words chunk) = '' '' @ encode_chunk chunk"
  by (simp add: chunk_words_def encode_chunk_def spaced_concat spaced_client case_prod_unfold)

definition segment_text :: "kv_segment \<Rightarrow> string" where
  "segment_text seg = encode_base (seg_base seg) @ '' '' @ decimal (length (seg_entries seg))
     @ spaced (concat (map entry_words (seg_entries seg)))"

lemma encode_segment_eq: "wf_segment seg \<Longrightarrow> encode_segment seg = Some (segment_text seg)"
  by (simp add: encode_segment_def wf_segment_def encode_entries_eq segment_text_def)

lemma spaced_segment: "spaced (segment_words seg) = '' '' @ segment_text seg"
  by (cases "seg_base seg") (simp_all add: segment_text_def segment_words_def entries_words_def)

lemma formatted_eq: "formatted name ns = name @ spaced (map decimal ns)"
  by (simp add: formatted_def concat_spaced [of decimal, simplified])

lemma encode_message_eq:
  assumes "wf_message m"
  shows "encode_message m = Some (fst (message_words m) @ spaced (snd (message_words m)))"
  using assms
  by (cases m rule: encode_message.cases)
    (simp_all add: formatted_eq push_numbers_eq write_op_eq [simplified] write_entry_eq [simplified]
      encode_segment_eq spaced_segment spaced_chunk del: push_numbers.simps)

lemma encode_eq:
  assumes "wf_frame f"
  shows "encode f = Some (fst (frame_words f) @ spaced (snd (frame_words f)))"
proof (cases f)
  case (FMessage m)
  then show ?thesis using assms by (simp add: encode_message_eq)
next
  case (FReply rep)
  then show ?thesis by (cases rep) (simp_all add: formatted_eq)
qed

section \<open>They are words\<close>

lemma is_word_result: "wf_result out \<Longrightarrow> is_word (encode_result out)"
  by (cases out) (simp_all add: is_word_Cons is_ws_def)

lemma entry_words_ok: "wf_entry e \<Longrightarrow> list_all is_word (entry_words e)"
proof (cases e)
  case (ERequest c s n a op)
  then show "wf_entry e \<Longrightarrow> list_all is_word (entry_words e)"
    by (cases op) (simp_all add: is_word_Cons is_ws_def)
qed (simp_all add: is_word_Cons is_ws_def)

lemma list_all_concat: "list_all P (concat (map f xs)) \<longleftrightarrow> list_all (\<lambda>x. list_all P (f x)) xs"
  by (induction xs) simp_all

lemma segment_words_ok: "wf_segment seg \<Longrightarrow> list_all is_word (segment_words seg)"
  by (cases "seg_base seg")
    (auto simp: wf_segment_def segment_words_def entries_words_def list_all_concat is_word_Cons is_ws_def
      entry_words_ok elim!: list.pred_mono_strong)

lemma client_words_ok: "wf_record rec \<Longrightarrow> list_all is_word (client_words rec)"
  by (auto simp: wf_record_def client_words_def list.pred_map comp_def is_word_result elim!: list.pred_mono_strong)

lemma chunk_words_ok: "wf_chunk chunk \<Longrightarrow> list_all is_word (chunk_words chunk)"
  by (auto simp: wf_chunk_def chunk_words_def list_all_concat client_words_ok split_beta elim!: list.pred_mono_strong)

lemma frame_words_ok:
  assumes "wf_frame f"
  shows "is_word (fst (frame_words f)) \<and> list_all is_word (snd (frame_words f))"
proof (cases f)
  case (FMessage m)
  have "wf_op op \<Longrightarrow> list_all is_word (op_words op)" for op
    by (cases op) (simp add: is_word_Cons is_ws_def)
  with FMessage assms show ?thesis
    by (cases m rule: message_words.cases)
      (auto simp: is_word_Cons is_ws_def entry_words_ok segment_words_ok chunk_words_ok split: option.split)
next
  case (FReply rep)
  with assms show ?thesis by (cases rep) (auto simp: is_word_Cons is_ws_def is_word_result)
qed

section \<open>Reading them\<close>

lemma p_bind_Inr [simp]: "p ws = Inr (x, ws') \<Longrightarrow> p_bind p f ws = f x ws'"
  by (simp add: p_bind_def)

lemma tok_word_Cons: "p_bind tok_word f (w # ws) = f w ws"
  by simp

lemma tok_parse_decimal [simp]: "fits n \<Longrightarrow> tok_parse err (decimal n # ws) = Inr (n, ws)"
  by (simp add: tok_parse_def p_return_def)

lemma tok_num_decimal [simp]: "fits n \<Longrightarrow> tok_num (decimal n # ws) = Inr (n, ws)"
  by (simp add: tok_num_def)

lemma tok_op_words [simp]: "tok_op (op_words op @ ws) = Inr (op, ws)"
  by (cases op) (simp add: tok_op_def p_return_def)

lemma tok_entry_words [simp]: "wf_entry e \<Longrightarrow> tok_entry (entry_words e @ ws) = Inr (e, ws)"
  by (cases e) (simp_all add: tok_entry_def p_return_def)

lemma tok_repeat_words:
  assumes "\<And>x ws. x \<in> set xs \<Longrightarrow> p (f x @ ws) = Inr (x, ws)"
  shows "tok_repeat (length xs) p (concat (map f xs) @ ws) = Inr (xs, ws)"
  using assms by (induction xs) (simp_all add: p_return_def)

lemma tok_result_word [simp]: "tok_result (encode_result out # ws) = Inr (out, ws)"
  by (cases out) (simp_all add: tok_result_def p_return_def)

lemma tok_entries_words [simp]:
  assumes "list_all wf_entry es" and "fits (length es)"
  shows "tok_entries (entries_words es @ ws) = Inr (es, ws)"
  using assms tok_repeat_words [of es tok_entry entry_words ws]
  by (simp add: tok_entries_def entries_words_def list_all_iff)

lemma tok_client_words [simp]:
  assumes "wf_record rec"
  shows "tok_client (rec_client_id rec) (client_words rec @ ws) = Inr (rec, ws)"
proof -
  have "concat (map (\<lambda>x. [encode_result x]) reps) = map encode_result reps" for reps by (induction reps) simp_all
  then have "tok_repeat (length reps) tok_result (map encode_result reps @ ws) = Inr (reps, ws)" for reps
    using tok_repeat_words [of reps tok_result "\<lambda>x. [encode_result x]" ws] by simp
  with assms show ?thesis by (simp add: wf_record_def tok_client_def client_words_def p_return_def)
qed

lemma tok_chunk_words [simp]:
  assumes "wf_chunk chunk"
  shows "tok_chunk (chunk_words chunk @ ws) = Inr (chunk, ws)"
proof -
  have "tok_repeat (length recs) (p_bind tok_num tok_client)
      (concat (map (\<lambda>rec. decimal (rec_client_id rec) # client_words rec) recs) @ ws) = Inr (recs, ws)"
    if "list_all wf_record recs" for recs ws
    using that by (intro tok_repeat_words) (auto simp: list_all_iff wf_record_def)
  moreover have "tok_repeat (length ps) tok_pair (concat (map (\<lambda>(k, v). [k, v]) ps) @ ws) = Inr (ps, ws)" for ps ws
    by (intro tok_repeat_words) (auto simp: tok_pair_def p_return_def)
  ultimately show ?thesis using assms by (simp add: tok_chunk_def chunk_words_def wf_chunk_def p_return_def)
qed

lemma tok_segment_words [simp]:
  assumes "wf_segment seg"
  shows "tok_segment (segment_words seg @ ws) = Inr (seg, ws)"
  using assms by (cases "seg_base seg") (simp_all add: tok_segment_def segment_words_def wf_segment_def p_return_def)

lemma words_end [simp]:
  "tok_op (op_words op) = Inr (op, [])" "wf_entry e \<Longrightarrow> tok_entry (entry_words e) = Inr (e, [])"
  "wf_segment seg \<Longrightarrow> tok_segment (segment_words seg) = Inr (seg, [])"
  "wf_chunk chunk \<Longrightarrow> tok_chunk (chunk_words chunk) = Inr (chunk, [])"
  using tok_op_words [of op "[]"] tok_entry_words [of e "[]"] tok_segment_words [of seg "[]"]
    tok_chunk_words [of chunk "[]"] by simp_all

section \<open>Frames\<close>

lemma decimal_bit: "decimal 0 = ''0''" "decimal (Suc 0) = ''1''"
  by code_simp+

lemma tok_flag_decimal [simp]:
  "tok_flag (decimal (Suc 0) # ws) = Inr (True, ws)" "tok_flag (decimal 0 # ws) = Inr (False, ws)"
  by (simp_all add: decimal_bit tok_flag_def p_return_def)

lemma tok_recovery_words [simp]:
  "tok_recovery_state [''-''] = Inr (None, [])"
  "fits (rs_commit_number st) \<Longrightarrow> wf_segment (rs_segment st) \<Longrightarrow>
   tok_recovery_state (''+'' # decimal (rs_commit_number st) # segment_words (rs_segment st)) = Inr (Some st, [])"
  by (simp_all add: tok_recovery_state_def p_return_def)

lemma tok_message_words:
  assumes "wf_message m"
  shows "\<exists>p. tok_message (fst (message_words m)) = Some p \<and> p (snd (message_words m)) = Inr (m, [])"
proof (cases m rule: encode_message.cases)
qed (use assms in \<open>simp_all add: tok_message_def p_return_def\<close>)

lemma tok_reply_words:
  assumes "wf_reply rep"
  shows "\<exists>p. tok_message (fst (reply_words rep)) = None \<and> tok_reply (fst (reply_words rep)) = Some p
     \<and> p (snd (reply_words rep)) = Inr (rep, [])"
  using assms by (cases rep) (simp_all add: tok_message_def tok_reply_def p_return_def)

lemma decode_words:
  assumes "wf_frame f"
  shows "decode (fst (frame_words f) @ spaced (snd (frame_words f))) = Inr f"
proof -
  have ws: "split_whitespace (fst (frame_words f) @ spaced (snd (frame_words f))) = fst (frame_words f) # snd (frame_words f)"
    using frame_words_ok [OF assms] by (simp add: split_whitespace_spaced)
  show ?thesis
  proof (cases f)
    case (FMessage m)
    with assms obtain p where p: "tok_message (fst (message_words m)) = Some p" "p (snd (message_words m)) = Inr (m, [])"
      using tok_message_words [of m] by auto
    have "p_bind p (\<lambda>m. p_return (FMessage m)) (snd (message_words m)) = Inr (FMessage m, [])"
      using p(2) by (simp add: p_bind_def p_return_def)
    with FMessage p(1) ws show ?thesis by (simp add: decode_def tok_word_Cons)
  next
    case (FReply rep)
    with assms obtain p where p: "tok_message (fst (reply_words rep)) = None"
      "tok_reply (fst (reply_words rep)) = Some p" "p (snd (reply_words rep)) = Inr (rep, [])"
      using tok_reply_words [of rep] by auto
    have "p_bind p (\<lambda>rep. p_return (FReply rep)) (snd (reply_words rep)) = Inr (FReply rep, [])"
      using p(3) by (simp add: p_bind_def p_return_def)
    with FReply p(1,2) ws show ?thesis by (simp add: decode_def tok_word_Cons)
  qed
qed

lemma encode_line:
  assumes "wf_frame f"
  obtains line where "encode f = Some line" and "decode line = Inr f"
    and "newline \<notin> set line" and "carriage_return \<notin> set line"
proof (rule that [OF encode_eq [OF assms] decode_words [OF assms]])
  note ok = frame_words_ok [OF assms]
  show "newline \<notin> set (fst (frame_words f) @ spaced (snd (frame_words f)))"
    "carriage_return \<notin> set (fst (frame_words f) @ spaced (snd (frame_words f)))"
    using word_no_newline [OF conjunct1 [OF ok]] spaced_no_newline [OF conjunct2 [OF ok]] by simp_all
qed

lemma write_frames_lines:
  assumes "list_all wf_frame fs"
  shows "\<exists>ls. write_frames fs = Some (concat (map (\<lambda>l. l @ [newline]) ls)) \<and> map decode ls = map Inr fs
     \<and> (\<forall>l \<in> set ls. newline \<notin> set l \<and> carriage_return \<notin> set l)"
  using assms
proof (induction fs)
  case (Cons f fs)
  then obtain ls where "write_frames fs = Some (concat (map (\<lambda>l. l @ [newline]) ls))" "map decode ls = map Inr fs"
    "\<forall>l \<in> set ls. newline \<notin> set l \<and> carriage_return \<notin> set l" by auto
  moreover from Cons.prems obtain line where "encode f = Some line" "decode line = Inr f"
    "newline \<notin> set line" "carriage_return \<notin> set line" by (auto elim: encode_line)
  ultimately show ?case by (intro exI [of _ "line # ls"]) simp
qed simp

text \<open>
  C28: whatever frames a node sends, the node at the other end of the connection reads the same
  frames in the same order, and a frame the connection cut off it does not read: for every
  message and every reply whose numbers fit 64 bits and whose keys and values are words.
\<close>

theorem frames_come_through:
  assumes "list_all wf_frame fs" and "newline \<notin> set torn"
  shows "\<exists>s. write_frames fs = Some s \<and> read_frames (s @ torn) = fs"
proof -
  from write_frames_lines [OF assms(1)] obtain ls where
    w: "write_frames fs = Some (concat (map (\<lambda>l. l @ [newline]) ls))" and d: "map decode ls = map Inr fs"
    and nl: "\<forall>l \<in> set ls. newline \<notin> set l \<and> carriage_return \<notin> set l" by blast
  have "read_lines (concat (map (\<lambda>l. l @ [newline]) ls) @ torn) = ls"
    using nl assms(2) by (simp add: read_lines_def split_lines_concat map_idI)
  moreover have "concat (map (\<lambda>l. case decode l of Inr f \<Rightarrow> [f] | Inl _ \<Rightarrow> []) ls) = fs"
    using d by (induction ls arbitrary: fs) (auto simp: Cons_eq_map_conv)
  ultimately show ?thesis using w by (simp add: read_frames_def)
qed

definition sample_frames :: "frame list" where
  "sample_frames = [
     FMessage (Prepare 3 12 (ERequest 7 1 2 1 (Put ''k'' ''v'')) 11),
     FMessage (NewChunk 1 12 0 \<lparr>sc_pairs = [(''k'', ''v'')], sc_clients = [\<lparr>rec_client_id = 7, rec_session = 1,
       rec_request_number = 2, rec_replies = [Some [], None], rec_op_number = 12\<rparr>]\<rparr> True),
     FMessage (RecoveryResponse 3 99 0 (Some \<lparr>rs_segment = \<lparr>seg_base = BaseCheckpoint 5,
       seg_entries = [ERegister 7]\<rparr>, rs_commit_number = 5\<rparr>)),
     FReply (Executed 3 7 1 2 (Some ''v''))]"

theorem frames_come_through_witness:
  "\<exists>s. write_frames sample_frames = Some s \<and> read_frames (s @ ''PREPARE 3 13 REQ'') = sample_frames"
proof (rule frames_come_through)
  show "list_all wf_frame sample_frames"
    by (simp add: sample_frames_def wf_chunk_def wf_record_def wf_segment_def fits_def is_word_def is_ws_def)
  show "newline \<notin> set ''PREPARE 3 13 REQ''" by (simp add: newline_def)
qed

lemma match_command_words:
  "match_command u ws = Inr (Some (CSet k v)) \<Longrightarrow> k \<in> set ws \<and> v \<in> set ws"
  "match_command u ws = Inr (Some (CGet k)) \<Longrightarrow> k \<in> set ws"
  by (auto simp: match_command_def split: if_splits)



end
