(* ===== verification/KV_Journal.thy ===== *)
theory KV_Journal
  imports KV_Roundtrip
begin

text \<open>
  \<open>src/examples/kvstore/journal.rs\<close>: a replica's writes as the records of a write-ahead log,
  one each, and the state they replay to.  The log is \<open>writeahead\<close>'s, which is not part of
  the repository: what it holds is an argument, the records in the order they were written,
  each with the number of the file it is in, as its stream yields them.  The codec of an entry
  is an argument too.
\<close>

section \<open>Records\<close>

record ('op, 'e) entry_codec =
  ec_write :: "string \<Rightarrow> 'op log_entry \<Rightarrow> string option"
  ec_decode :: "string \<Rightarrow> 'e + 'op log_entry"

record header =
  jh_view_number :: nat
  jh_last_normal_view :: nat
  jh_commit_number :: nat
  jh_log_start :: OpNumber
  jh_entries_from :: OpNumber
  jh_op_number :: OpNumber
  jh_recovering :: bool

datatype 'op journal_record = JEntry OpNumber "'op log_entry" | JHeader header

text \<open>The errors, by what they say; \<open>JPanic\<close> is the panic of a subtraction that underflows.\<close>

datatype 'e journal_error =
    TruncatedRecord | BadJournalNumber string | BadRecord string | BadText 'e | ContinuesAfterCounters
  | NoCounters | LacksOp OpNumber | TrimFailed string | JPanic

definition r_bind :: "'e + 'a \<Rightarrow> ('a \<Rightarrow> 'e + 'b) \<Rightarrow> 'e + 'b" where
  "r_bind x f = (case x of Inl e \<Rightarrow> Inl e | Inr a \<Rightarrow> f a)"

definition journal_number :: "string option \<Rightarrow> 'e journal_error + nat" where
  "journal_number wo = (case wo of
     None \<Rightarrow> Inl TruncatedRecord
   | Some w \<Rightarrow> (case parse_number w of None \<Rightarrow> Inl (BadJournalNumber w) | Some n \<Rightarrow> Inr n))"

definition decode_header :: "string list \<Rightarrow> 'e journal_error + header" where
  "decode_header ws =
     r_bind (journal_number (nth_chk ws 0)) (\<lambda>v.
     r_bind (journal_number (nth_chk ws 1)) (\<lambda>lnv.
     r_bind (journal_number (nth_chk ws 2)) (\<lambda>k.
     r_bind (journal_number (nth_chk ws 3)) (\<lambda>start.
     r_bind (journal_number (nth_chk ws 4)) (\<lambda>from.
     r_bind (journal_number (nth_chk ws 5)) (\<lambda>n.
     r_bind (journal_number (nth_chk ws 6)) (\<lambda>rec.
       Inr \<lparr>jh_view_number = v, jh_last_normal_view = lnv, jh_commit_number = k, jh_log_start = start,
         jh_entries_from = from, jh_op_number = n, jh_recovering = (rec \<noteq> 0)\<rparr>)))))))"

definition decode_line :: "('op, 'e) entry_codec \<Rightarrow> string \<Rightarrow> 'e journal_error + 'op journal_record" where
  "decode_line codec line =
     (let (kind, rest) = (case split_once CHR '' '' line of Some kr \<Rightarrow> kr | None \<Rightarrow> (line, []));
          ws = split_whitespace rest
      in if kind = ''E'' then
           r_bind (journal_number (nth_chk ws 0)) (\<lambda>n.
             case split_once CHR '' '' rest of
               None \<Rightarrow> Inl TruncatedRecord
             | Some (_, text) \<Rightarrow> (case ec_decode codec text of Inl e \<Rightarrow> Inl (BadText e) | Inr e \<Rightarrow> Inr (JEntry n e)))
         else if kind = ''H'' then r_bind (decode_header ws) (\<lambda>h. Inr (JHeader h))
         else Inl (BadRecord kind))"

fun push_records :: "('op, 'e) entry_codec \<Rightarrow> string \<Rightarrow> OpNumber \<Rightarrow> 'op log_entry list \<Rightarrow> string option" where
  "push_records codec out n [] = Some out"
| "push_records codec out n (e # es) = do {
     out \<leftarrow> push_number (out @ ''E '') n;
     out \<leftarrow> ec_write codec (out @ '' '') e;
     push_records codec (out @ [newline]) (n + 1) es }"

text \<open>The record that \<open>submit\<close> hands to the log.\<close>

definition submit_record :: "('op, 'e) entry_codec \<Rightarrow> 'op log_write \<Rightarrow> string option" where
  "submit_record codec w = do {
     out \<leftarrow> push_records codec [] (lw_entries_from w) (lw_entries w);
     push_numbers (out @ ''H'') [lw_view_number w, lw_last_normal_view w, lw_commit_number w, lw_log_start w,
       lw_entries_from w, lw_op_number w, if lw_recovering w then 1 else 0] }"

section \<open>Opening a journal\<close>

type_synonym 'op journal_entries = "(OpNumber \<times> 'op log_entry \<times> nat) list"
type_synonym journal_log = "(nat \<times> string) list"

record journal =
  jr_runs :: "(OpNumber \<times> nat) list"
  jr_last_file :: nat
  jr_trimmed_before :: nat
  jr_trimming :: bool

definition journal_new :: journal where
  "journal_new = \<lparr>jr_runs = [], jr_last_file = 0, jr_trimmed_before = 0, jr_trimming = False\<rparr>"

text \<open>\<open>split_off\<close> of a map: what it keeps, and what it returns.\<close>

definition bt_below :: "nat \<Rightarrow> (nat \<times> 'a) list \<Rightarrow> (nat \<times> 'a) list" where
  "bt_below k m = filter (\<lambda>(n, _). n < k) m"

definition bt_from :: "nat \<Rightarrow> (nat \<times> 'a) list \<Rightarrow> (nat \<times> 'a) list" where
  "bt_from k m = filter (\<lambda>(n, _). k \<le> n) m"

fun read_record ::
  "('op, 'e) entry_codec \<Rightarrow> string list \<Rightarrow> (OpNumber \<times> 'op log_entry) list \<Rightarrow> header option
   \<Rightarrow> 'e journal_error + (OpNumber \<times> 'op log_entry) list \<times> header" where
  "read_record codec [] ws counters = (case counters of None \<Rightarrow> Inl NoCounters | Some h \<Rightarrow> Inr (ws, h))"
| "read_record codec (line # ls) ws counters =
     (if counters \<noteq> None then Inl ContinuesAfterCounters
      else r_bind (decode_line codec line) (\<lambda>rec. case rec of
        JEntry n e \<Rightarrow> read_record codec ls (ws @ [(n, e)]) counters
      | JHeader h \<Rightarrow> read_record codec ls ws (Some h)))"

fun insert_all :: "(OpNumber \<times> 'op log_entry) list \<Rightarrow> nat \<Rightarrow> 'op journal_entries \<Rightarrow> 'op journal_entries" where
  "insert_all [] file m = m"
| "insert_all ((n, e) # ws) file m = insert_all ws file (bt_insert n (e, file) m)"

definition replay_entries ::
  "(OpNumber \<times> 'op log_entry) list \<Rightarrow> header \<Rightarrow> nat \<Rightarrow> 'op journal_entries \<Rightarrow> 'op journal_entries" where
  "replay_entries ws h file m = insert_all ws file (bt_below (jh_entries_from h) (bt_from (jh_log_start h + 1) m))"

fun replay ::
  "('op, 'e) entry_codec \<Rightarrow> journal_log \<Rightarrow> 'op journal_entries \<Rightarrow> (header \<times> nat) option
   \<Rightarrow> 'e journal_error + 'op journal_entries \<times> (header \<times> nat) option" where
  "replay codec [] m ho = Inr (m, ho)"
| "replay codec ((file, text) # recs) m ho =
     r_bind (read_record codec (str_lines text) [] None) (\<lambda>(ws, h).
       replay codec recs (replay_entries ws h file m) (Some (h, file)))"

definition last_run :: "(OpNumber \<times> nat) list \<Rightarrow> nat option" where
  "last_run runs = (if runs = [] then None else Some (snd (last runs)))"

fun collect ::
  "OpNumber list \<Rightarrow> 'op journal_entries \<Rightarrow> 'op log_entry list \<Rightarrow> (OpNumber \<times> nat) list
   \<Rightarrow> 'e journal_error + 'op log_entry list \<times> (OpNumber \<times> nat) list" where
  "collect [] m log runs = Inr (log, runs)"
| "collect (n # ns) m log runs = (case map_of m n of
     None \<Rightarrow> Inl (LacksOp n)
   | Some (e, file) \<Rightarrow>
       collect ns (bt_remove n m) (log @ [e]) (if last_run runs \<noteq> Some file then bt_insert n file runs else runs))"

definition journal_open ::
  "('op, 'e) entry_codec \<Rightarrow> journal_log \<Rightarrow> 'e journal_error + journal \<times> 'op persistent_state option" where
  "journal_open codec recs =
     r_bind (replay codec recs [] None) (\<lambda>(m, ho). case ho of
       None \<Rightarrow> Inr (journal_new, None)
     | Some (h, last_file) \<Rightarrow>
         if jh_op_number h < jh_log_start h then Inl JPanic
         else r_bind (collect [jh_log_start h + 1..<jh_op_number h + 1] m [] []) (\<lambda>(log, runs).
           Inr (journal_new\<lparr>jr_runs := runs, jr_last_file := last_file\<rparr>,
             Some \<lparr>ps_view_number = jh_view_number h, ps_last_normal_view = jh_last_normal_view h,
               ps_commit_number = jh_commit_number h, ps_log_start = jh_log_start h, ps_log = log,
               ps_recovering = jh_recovering h\<rparr>)))"

section \<open>After a write has landed\<close>

text \<open>
  The log's answer to a trim that is out, if it has come: an error, or the files it deleted.
\<close>

definition trim_out :: "journal \<Rightarrow> (string + nat) option \<Rightarrow> journal \<times> ('e journal_error + bool)" where
  "trim_out j answer =
     (if \<not> jr_trimming j then (j, Inr False)
      else case answer of
        None \<Rightarrow> (j, Inr True)
      | Some (Inl err) \<Rightarrow> (j\<lparr>jr_trimming := False\<rparr>, Inl (TrimFailed err))
      | Some (Inr _) \<Rightarrow> (j\<lparr>jr_trimming := False\<rparr>, Inr False))"

definition covering_run :: "nat \<Rightarrow> (OpNumber \<times> nat) list \<Rightarrow> nat option" where
  "covering_run n runs = last_run (filter (\<lambda>(k, _). k \<le> n) runs)"

definition runs_after :: "(OpNumber \<times> nat) list \<Rightarrow> nat \<Rightarrow> 'op log_write \<Rightarrow> (OpNumber \<times> nat) list" where
  "runs_after runs last_file w =
     (let runs = bt_below (lw_entries_from w) runs;
          runs = (if lw_entries w \<noteq> [] then bt_insert (lw_entries_from w) last_file runs else runs);
          first_retained = lw_log_start w + 1;
          covering = covering_run first_retained runs;
          runs = bt_from first_retained runs
      in case covering of
           None \<Rightarrow> runs
         | Some file \<Rightarrow>
             if first_retained \<le> lw_op_number w \<and> map_of runs first_retained = None
             then bt_insert first_retained file runs else runs)"

definition oldest_file :: "(OpNumber \<times> nat) list \<Rightarrow> nat \<Rightarrow> nat" where
  "oldest_file runs last_file = (case runs of [] \<Rightarrow> last_file | (_, file) # _ \<Rightarrow> min file last_file)"

text \<open>
  \<open>finish\<close>, with the files of the records the log wrote and the answers of the two polls of
  the trim.  A trim it asks the log for has \<open>jr_trimmed_before\<close> as its argument.
\<close>

definition journal_finish ::
  "journal \<Rightarrow> 'op log_write \<Rightarrow> nat list \<Rightarrow> (string + nat) option \<Rightarrow> (string + nat) option
   \<Rightarrow> journal \<times> ('e journal_error + unit)" where
  "journal_finish j w ids answer1 answer2 =
     (let j = j\<lparr>jr_last_file := (if ids = [] then jr_last_file j else last ids)\<rparr>;
          j = j\<lparr>jr_runs := runs_after (jr_runs j) (jr_last_file j) w\<rparr>;
          oldest = oldest_file (jr_runs j) (jr_last_file j)
      in case trim_out j answer1 of
           (j, Inl err) \<Rightarrow> (j, Inl err)
         | (j, Inr out) \<Rightarrow>
             if jr_trimmed_before j < oldest \<and> \<not> out then
               (case trim_out (j\<lparr>jr_trimming := True\<rparr>) answer2 of
                  (j, Inl err) \<Rightarrow> (j, Inl err)
                | (j, Inr _) \<Rightarrow> (j\<lparr>jr_trimmed_before := oldest\<rparr>, Inr ()))
             else (j, Inr ()))"

definition kv_codec :: "(kv_op, kv_error) entry_codec" where
  "kv_codec = \<lparr>ec_write = write_entry, ec_decode = decode_entry\<rparr>"

end
