(* ===== verification/KV_Replay.thy ===== *)
theory KV_Replay
  imports KV_Journal
begin

text \<open>
  A journal replays to the state that the writes appended to it make, whatever was trimmed from
  it in between.
\<close>

section \<open>A record comes back\<close>

lemma r_bind_simps [simp]: "r_bind (Inr a) f = f a" "r_bind (Inl e) f = Inl e"
  by (simp_all add: r_bind_def)

lemma r_bind_Inr: "r_bind x f = Inr y \<longleftrightarrow> (\<exists>a. x = Inr a \<and> f a = Inr y)"
  by (cases x) simp_all

lemma journal_number_decimal [simp]: "fits n \<Longrightarrow> journal_number (Some (decimal n)) = Inr n"
  by (simp add: journal_number_def)

text \<open>What the journal asks of the codec of an entry: it appends one line of text, which reads back.\<close>

locale line_codec =
  fixes codec :: "('op, 'e) entry_codec" and ok :: "'op log_entry \<Rightarrow> bool"
  assumes appends_line: "ok e \<Longrightarrow> \<exists>t. (\<forall>out. ec_write codec out e = Some (out @ t)) \<and> ec_decode codec t = Inr e
      \<and> newline \<notin> set t \<and> carriage_return \<notin> set t"
begin

lemma entry_line:
  assumes "ok e" and "fits n"
  shows "\<exists>l. (\<forall>out. Option.bind (push_number (out @ ''E '') n) (\<lambda>out. ec_write codec (out @ '' '') e) = Some (out @ l))
    \<and> decode_line codec l = Inr (JEntry n e) \<and> newline \<notin> set l \<and> carriage_return \<notin> set l"
proof -
  from appends_line [OF assms(1)] obtain t where t: "\<And>out. ec_write codec out e = Some (out @ t)"
    "ec_decode codec t = Inr e" "newline \<notin> set t" "carriage_return \<notin> set t" by blast
  have d: "CHR '' '' \<notin> set (decimal n)" using is_word_decimal [of n] by (auto simp: is_word_def list_all_iff)
  have "newline \<noteq> CHR ''E''" "carriage_return \<noteq> CHR ''E''" by (simp_all add: newline_def carriage_return_def)
  with t(3,4) word_no_newline [OF is_word_decimal, of n] newline_neq
  have "newline \<notin> set (''E '' @ decimal n @ '' '' @ t)" "carriage_return \<notin> set (''E '' @ decimal n @ '' '' @ t)"
    by simp_all
  moreover have "decode_line codec (''E '' @ decimal n @ '' '' @ t) = Inr (JEntry n e)"
    using assms(2) d t(2) by (simp add: decode_line_def nth_chk_def)
  ultimately show ?thesis
    using assms(2) t(1) by (intro exI [of _ "''E '' @ decimal n @ '' '' @ t"]) (simp add: push_number_eq)
qed

lemma record_lines:
  assumes "list_all ok es" and "fits (n + length es)"
  shows "\<exists>ls. (\<forall>out. push_records codec out n es = Some (out @ concat (map (\<lambda>l. l @ [newline]) ls)))
    \<and> map (decode_line codec) ls = map (\<lambda>(i, e). Inr (JEntry i e)) (enumerate n es)
    \<and> (\<forall>l \<in> set ls. newline \<notin> set l \<and> carriage_return \<notin> set l)"
  using assms
proof (induction es arbitrary: n)
  case (Cons e es)
  from Cons.IH [of "Suc n"] Cons.prems obtain ls where
    ls: "\<And>out. push_records codec out (Suc n) es = Some (out @ concat (map (\<lambda>l. l @ [newline]) ls))"
    "map (decode_line codec) ls = map (\<lambda>(i, e). Inr (JEntry i e)) (enumerate (Suc n) es)"
    "\<forall>l \<in> set ls. newline \<notin> set l \<and> carriage_return \<notin> set l" by auto
  have "fits n" using Cons.prems by (simp add: fits_def)
  with Cons.prems obtain l where
    l: "\<And>out. Option.bind (push_number (out @ ''E '') n) (\<lambda>out. ec_write codec (out @ '' '') e) = Some (out @ l)"
    "decode_line codec l = Inr (JEntry n e)" "newline \<notin> set l" "carriage_return \<notin> set l"
    using entry_line [of e n] by auto
  have "push_records codec out n (e # es) = Some (out @ concat (map (\<lambda>l. l @ [newline]) (l # ls)))" for out
  proof -
    from l(1) [of out] obtain out1 where "push_number (out @ ''E '') n = Some out1"
      and "ec_write codec (out1 @ '' '') e = Some (out @ l)" by (auto simp: bind_eq_Some_conv)
    then show ?thesis by (simp add: ls(1))
  qed
  with ls l show ?case by (intro exI [of _ "l # ls"]) simp
qed simp

lemma read_record_lines:
  assumes "map (decode_line codec) ls = map (\<lambda>(i, e). Inr (JEntry i e)) es" and "decode_line codec l = Inr (JHeader h)"
  shows "read_record codec (ls @ [l]) ws None = Inr (ws @ es, h)"
  using assms(1)
proof (induction ls arbitrary: es ws)
  case Nil
  then show ?case using assms(2) by simp
next
  case (Cons a ls)
  then obtain i e es' where "es = (i, e) # es'" "decode_line codec a = Inr (JEntry i e)"
    and "map (decode_line codec) ls = map (\<lambda>(i, e). Inr (JEntry i e)) es'" by (cases es) auto
  then show ?case using Cons.IH [of es' "ws @ [(i, e)]"] by simp
qed

end

definition header_of :: "'op log_write \<Rightarrow> header" where
  "header_of w = \<lparr>jh_view_number = lw_view_number w, jh_last_normal_view = lw_last_normal_view w,
     jh_commit_number = lw_commit_number w, jh_log_start = lw_log_start w, jh_entries_from = lw_entries_from w,
     jh_op_number = lw_op_number w, jh_recovering = lw_recovering w\<rparr>"

definition write_fits :: "('op log_entry \<Rightarrow> bool) \<Rightarrow> 'op log_write \<Rightarrow> bool" where
  "write_fits ok w \<longleftrightarrow> list_all ok (lw_entries w) \<and> fits (lw_entries_from w + length (lw_entries w))
     \<and> list_all fits [lw_view_number w, lw_last_normal_view w, lw_commit_number w, lw_log_start w,
         lw_entries_from w, lw_op_number w]"

lemma decode_header_line:
  assumes "list_all fits [a, b, c, d, e, f, g]"
  shows "decode_line codec (''H'' @ spaced (map decimal [a, b, c, d, e, f, g])) =
     Inr (JHeader \<lparr>jh_view_number = a, jh_last_normal_view = b, jh_commit_number = c, jh_log_start = d,
       jh_entries_from = e, jh_op_number = f, jh_recovering = (g \<noteq> 0)\<rparr>)"
  using assms split_whitespace_spaced [of "decimal a" "map decimal [b, c, d, e, f, g]"]
  by (simp add: decode_line_def decode_header_def nth_chk_def nth_Cons')

context line_codec
begin

lemma submit_record_reads:
  assumes "write_fits ok w"
  obtains t where "submit_record codec w = Some t"
    and "read_record codec (str_lines t) [] None = Inr (enumerate (lw_entries_from w) (lw_entries w), header_of w)"
proof -
  let ?ns = "[lw_view_number w, lw_last_normal_view w, lw_commit_number w, lw_log_start w, lw_entries_from w,
    lw_op_number w, if lw_recovering w then 1 else 0]"
  let ?h = "''H'' @ spaced (map decimal ?ns)"
  have ns: "list_all fits ?ns" using assms by (simp add: write_fits_def fits_def)
  from assms obtain ls where
    ls: "\<And>out. push_records codec out (lw_entries_from w) (lw_entries w) = Some (out @ concat (map (\<lambda>l. l @ [newline]) ls))"
    "map (decode_line codec) ls = map (\<lambda>(i, e). Inr (JEntry i e)) (enumerate (lw_entries_from w) (lw_entries w))"
    "\<forall>l \<in> set ls. newline \<notin> set l \<and> carriage_return \<notin> set l"
    using record_lines [of "lw_entries w" "lw_entries_from w"] by (auto simp: write_fits_def)
  have h: "newline \<notin> set ?h" using spaced_no_newline [of "map decimal ?ns"] by (simp add: newline_def)
  have "submit_record codec w = Some (concat (map (\<lambda>l. l @ [newline]) ls) @ ?h)"
    using ls(1) [of "[]"] push_numbers_eq [OF ns] by (simp add: submit_record_def del: push_numbers.simps)
  moreover have "str_lines (concat (map (\<lambda>l. l @ [newline]) ls) @ ?h) = ls @ [?h]"
    using split_lines_concat [of ls ?h] ls(3) h by (simp add: str_lines_def map_idI del: spaced_simps)
  moreover have "decode_line codec ?h = Inr (JHeader (header_of w))"
    using decode_header_line [OF ns] by (cases "lw_recovering w") (simp_all add: header_of_def del: spaced_simps)
  ultimately show ?thesis using read_record_lines [OF ls(2)] that by fastforce
qed

end

interpretation kv: line_codec kv_codec wf_entry
proof
  fix e assume e: "wf_entry e"
  let ?t = "tl (spaced (entry_words e))"
  have t: "spaced (entry_words e) = '' '' @ ?t" by (cases e) simp_all
  have "write_entry out e = Some (out @ ?t)" for out
    using e by (cases e) (simp_all add: push_number_eq push_numbers_eq write_op_eq [simplified] del: push_numbers.simps)
  moreover obtain w ws where ws: "entry_words e = w # ws" by (cases e) auto
  with entry_words_ok [OF e] have word: "is_word w" "list_all is_word ws" by simp_all
  have "split_whitespace ?t = entry_words e" using word by (simp add: ws split_whitespace_spaced)
  with e have "decode_entry ?t = Inr e"
    using tok_entry_words [OF e, of "[]"] by (simp add: decode_entry_def p_return_def tok_done_def)
  moreover have "newline \<notin> set ?t" "carriage_return \<notin> set ?t"
    using word word_no_newline [of w] spaced_no_newline [of ws] by (simp_all add: ws)
  ultimately show "\<exists>t. (\<forall>out. ec_write kv_codec out e = Some (out @ t)) \<and> ec_decode kv_codec t = Inr e
      \<and> newline \<notin> set t \<and> carriage_return \<notin> set t"
    unfolding kv_codec_def by (intro exI [of _ ?t]) simp
qed

section \<open>What a replay holds\<close>

lemma map_of_filter_keys: "map_of (filter (\<lambda>(n, _). P n) m) k = (if P k then map_of m k else None)"
  by (induction m) auto

lemma map_of_insert_all:
  "map_of (insert_all ws file m) k = (case map_of (rev ws) k of Some e \<Rightarrow> Some (e, file) | None \<Rightarrow> map_of m k)"
  by (induction ws arbitrary: m) (auto simp: map_add_def split: option.splits)

lemma map_of_replay_entries:
  "map_of (replay_entries ws h file m) k = (case map_of (rev ws) k of Some e \<Rightarrow> Some (e, file)
     | None \<Rightarrow> if jh_log_start h < k \<and> k < jh_entries_from h then map_of m k else None)"
  by (simp add: replay_entries_def map_of_insert_all bt_below_def bt_from_def map_of_filter_keys
      less_eq_Suc_le del: filter_filter split: option.split)

lemma replay_append:
  "replay codec (xs @ ys) m ho = r_bind (replay codec xs m ho) (\<lambda>(m, ho). replay codec ys m ho)"
proof (induction xs arbitrary: m ho)
  case (Cons x xs)
  show ?case
    by (cases x; cases "read_record codec (str_lines (snd x)) [] None") (auto simp: Cons.IH)
qed simp

lemma replay_last: "replay codec xs m ho = Inr (m', ho') \<Longrightarrow> xs \<noteq> [] \<Longrightarrow> \<exists>h. ho' = Some (h, fst (last xs))"
proof (induction xs rule: rev_induct)
  case (snoc x xs)
  then show ?case by (cases x) (auto simp: replay_append r_bind_Inr)
qed simp

lemma replay_files:
  "replay codec xs m ho = Inr (m', ho') \<Longrightarrow> map_of m' k = Some (e, f) \<Longrightarrow>
   f \<in> fst ` set xs \<or> map_of m k = Some (e, f)"
proof (induction xs arbitrary: m ho)
  case (Cons x xs)
  then obtain ws h where "replay codec xs (replay_entries ws h (fst x) m) (Some (h, fst x)) = Inr (m', ho')"
    by (cases x) (auto simp: r_bind_Inr)
  with Cons.IH Cons.prems(2) show ?case
    by (fastforce simp: map_of_replay_entries split: option.splits if_splits)
qed simp

text \<open>Two replays that differ only in entries of files before \<open>k\<close>, which one of them lacks.\<close>

definition lacks_old :: "nat \<Rightarrow> 'op journal_entries \<Rightarrow> 'op journal_entries \<Rightarrow> bool" where
  "lacks_old k m m' \<longleftrightarrow> (\<forall>n. map_of m' n = map_of m n \<or> map_of m' n = None \<and> (\<exists>e f. map_of m n = Some (e, f) \<and> f < k))"

lemma replay_lacks_old:
  assumes "replay codec xs m ho = Inr (m1, ho1)" and "lacks_old k m m'" and "xs \<noteq> []"
  shows "\<exists>m1'. replay codec xs m' ho' = Inr (m1', ho1) \<and> lacks_old k m1 m1'"
  using assms
proof (induction xs arbitrary: m m' ho ho')
  case (Cons x xs)
  obtain f t where x: "x = (f, t)" by (cases x)
  from Cons.prems(1) obtain ws h where r: "read_record codec (str_lines t) [] None = Inr (ws, h)"
    and rest: "replay codec xs (replay_entries ws h f m) (Some (h, f)) = Inr (m1, ho1)" by (auto simp: x r_bind_Inr)
  have l: "lacks_old k (replay_entries ws h f m) (replay_entries ws h f m')"
    using Cons.prems(2) by (auto simp: lacks_old_def map_of_replay_entries split: option.split)
  show ?case
  proof (cases "xs = []")
    case True
    with rest r l show ?thesis by (auto simp: x)
  next
    case False
    from Cons.IH [OF rest l False] r show ?thesis by (auto simp: x)
  qed
qed simp

lemma sorted_filter_split:
  assumes "sorted (map fst xs)"
  shows "xs = filter (\<lambda>(f, _). f < (k :: nat)) xs @ filter (\<lambda>(f, _). k \<le> f) xs"
  using assms
proof (induction xs)
  case (Cons x xs)
  show ?case
  proof (cases "fst x < k")
    case False
    with Cons.prems have "filter (\<lambda>(f, _). f < k) (x # xs) = []" by (auto simp: filter_empty_conv)
    moreover from False Cons.prems have "filter (\<lambda>(f, _). k \<le> f) (x # xs) = x # xs" by (auto simp: filter_id_conv)
    ultimately show ?thesis by simp
  qed (use Cons in \<open>auto simp: split_beta\<close>)
qed simp

text \<open>The files before \<open>k\<close> hold nothing that a replay needs if no entry it keeps is in them.\<close>

lemma replay_trimmed:
  assumes "replay codec wal [] None = Inr (m, Some (h, f))" and "sorted (map fst wal)" and "k \<le> f"
  shows "\<exists>m'. replay codec (filter (\<lambda>(f, _). k \<le> f) wal) [] None = Inr (m', Some (h, f)) \<and> lacks_old k m m'"
proof -
  define xs ys where "xs = filter (\<lambda>(f, _). f < k) wal" and "ys = filter (\<lambda>(f, _). k \<le> f) wal"
  have wal: "wal = xs @ ys" unfolding xs_def ys_def using assms(2) by (rule sorted_filter_split)
  from assms(1) obtain m0 ho0 where r0: "replay codec xs [] None = Inr (m0, ho0)"
    and r1: "replay codec ys m0 ho0 = Inr (m, Some (h, f))" by (auto simp: wal replay_append r_bind_Inr)
  have "ys \<noteq> []"
  proof
    assume "ys = []"
    with r1 r0 have "replay codec xs [] None = Inr (m, Some (h, f))" by simp
    moreover from this have "xs \<noteq> []" by auto
    ultimately have "f = fst (last xs)" "last xs \<in> set xs" using replay_last by fastforce+
    with assms(3) show False by (auto simp: xs_def)
  qed
  have old: "f < k" if "map_of m0 n = Some (e, f)" for n e f
    using replay_files [OF r0 that] by (auto simp: xs_def)
  have "lacks_old k m0 []"
    unfolding lacks_old_def
  proof
    fix n
    show "map_of [] n = map_of m0 n \<or> map_of [] n = None \<and> (\<exists>e f. map_of m0 n = Some (e, f) \<and> f < k)"
      using old [of n] by (cases "map_of m0 n") auto
  qed
  from replay_lacks_old [OF r1 this \<open>ys \<noteq> []\<close>] show ?thesis by (simp add: ys_def)
qed

section \<open>Which file holds an entry\<close>

lemma bt_wf_snoc: "bt_wf m \<Longrightarrow> (\<And>x. x \<in> set m \<Longrightarrow> fst x < k) \<Longrightarrow> bt_insert k v m = m @ [(k, v)]"
proof (induction m)
  case (Cons x m)
  then have "fst x < k" "bt_insert k v m = m @ [(k, v)]" by (auto simp: bt_wf_def)
  then show ?case by (cases x) auto
qed simp

lemma bt_insert_front: "\<forall>x \<in> set m. k < fst x \<Longrightarrow> bt_insert k v m = (k, v) # m"
  by (cases m) auto

definition runs_ok :: "(OpNumber \<times> nat) list \<Rightarrow> nat \<Rightarrow> bool" where
  "runs_ok runs f \<longleftrightarrow> bt_wf runs \<and> sorted (map snd runs) \<and> (\<forall>x \<in> set runs. snd x \<le> f)"

lemma runs_mono:
  assumes "runs_ok runs f" and "x \<in> set runs" and "y \<in> set runs" and "fst x < fst y"
  shows "snd x \<le> snd y"
proof -
  from assms(1) have "sorted_wrt (\<lambda>x y. fst x < fst y) runs" "sorted_wrt (\<lambda>x y. snd x \<le> snd y) runs"
    by (simp_all add: runs_ok_def bt_wf_def sorted_wrt_map)
  then have "\<forall>x \<in> set runs. \<forall>y \<in> set runs. fst x < fst y \<longrightarrow> snd x \<le> snd y"
    by (induction runs) auto
  with assms(2-4) show ?thesis by blast
qed

lemma runs_ok_filter: "runs_ok runs f \<Longrightarrow> runs_ok (filter P runs) f"
  by (auto simp: runs_ok_def bt_wf_filter sorted_filter)

lemma runs_ok_mono: "runs_ok runs f \<Longrightarrow> f \<le> f' \<Longrightarrow> runs_ok runs f'"
  by (fastforce simp: runs_ok_def)

lemma last_run_in: "last_run runs = Some f \<Longrightarrow> \<exists>x \<in> set runs. snd x = f"
  using last_in_set [of runs] by (auto simp: last_run_def split: if_splits)

lemma covering_run_in: "covering_run n runs = Some f \<Longrightarrow> \<exists>x \<in> set runs. fst x \<le> n \<and> snd x = f"
  unfolding covering_run_def by (drule last_run_in) force

lemma covering_run_le: "runs_ok runs lf \<Longrightarrow> covering_run n runs = Some f \<Longrightarrow> oldest_file runs lf \<le> f"
proof -
  assume ok: "runs_ok runs lf" and "covering_run n runs = Some f"
  then obtain x where "x \<in> set runs" "snd x = f" using covering_run_in by blast
  with ok show "oldest_file runs lf \<le> f" by (cases runs) (auto simp: oldest_file_def runs_ok_def min_le_iff_disj)
qed

text \<open>The runs before a write's entries, and the run the entries make.\<close>

lemma written_runs:
  fixes w :: "'op log_write"
  assumes ok: "runs_ok runs lf" and f: "lf \<le> f" and pos: "lw_entries w \<noteq> [] \<or> n < lw_entries_from w"
    and runs': "runs' = (let runs = bt_below (lw_entries_from w) runs in
      if lw_entries w \<noteq> [] then bt_insert (lw_entries_from w) f runs else runs)"
  shows "runs_ok runs' f" and "covering_run n runs' = (if lw_entries_from w \<le> n then Some f else covering_run n runs)"
proof -
  let ?b = "bt_below (lw_entries_from w) runs"
  have b: "runs_ok ?b f" using ok f by (auto simp: bt_below_def intro: runs_ok_filter runs_ok_mono)
  have below: "fst x < lw_entries_from w" if "x \<in> set ?b" for x using that by (auto simp: bt_below_def)
  have snoc: "bt_insert (lw_entries_from w) f ?b = ?b @ [(lw_entries_from w, f)]"
    using b below by (intro bt_wf_snoc) (auto simp: runs_ok_def)
  show "runs_ok runs' f"
    using b below by (auto simp: runs' Let_def snoc runs_ok_def bt_wf_def sorted_wrt_append sorted_append)
  have old: "covering_run n ?b = covering_run n runs" if "n < lw_entries_from w"
    using that by (auto simp: covering_run_def bt_below_def intro!: arg_cong [of _ _ last_run] filter_cong)
  show "covering_run n runs' = (if lw_entries_from w \<le> n then Some f else covering_run n runs)"
  proof (cases "lw_entries w = []")
    case True
    with pos old show ?thesis by (simp add: runs' Let_def)
  next
    case False
    show ?thesis
    proof (cases "lw_entries_from w \<le> n")
      case True
      with \<open>lw_entries w \<noteq> []\<close> show ?thesis by (simp add: runs' Let_def snoc covering_run_def last_run_def)
    next
      case False
      with \<open>lw_entries w \<noteq> []\<close> have "covering_run n runs' = covering_run n ?b"
        by (simp add: runs' Let_def snoc covering_run_def)
      with False old show ?thesis by simp
    qed
  qed
qed

lemma last_filter_later:
  assumes "bt_wf runs" and "\<exists>x \<in> set runs. a \<le> fst x \<and> fst x \<le> n"
  shows "last_run (filter (\<lambda>(k, _). k \<le> n) (filter (\<lambda>(k, _). a \<le> k) runs)) = last_run (filter (\<lambda>(k, _). k \<le> n) runs)"
  using assms
proof (induction runs rule: rev_induct)
  case (snoc y runs)
  have "bt_wf runs" and less: "\<forall>x \<in> set runs. fst x < fst y" using snoc.prems by (auto simp: bt_wf_def sorted_wrt_append)
  show ?case
  proof (cases "fst y \<le> n")
    case True
    moreover have "a \<le> fst y" using snoc.prems(2) less by force
    ultimately show ?thesis by (simp add: last_run_def split_beta)
  next
    case False
    then have "\<exists>x \<in> set runs. a \<le> fst x \<and> fst x \<le> n" using snoc.prems(2) by auto
    from snoc.IH [OF \<open>bt_wf runs\<close> this] False show ?thesis by (simp add: split_beta)
  qed
qed simp

lemma compacted_runs:
  assumes ok: "runs_ok runs f" and a: "a \<le> n" and cov: "covering_run a runs = Some g"
    and runs': "runs' = (let runs1 = bt_from a runs in
      if map_of runs1 a = None then bt_insert a g runs1 else runs1)"
  shows "runs_ok runs' f \<and> covering_run n runs' = covering_run n runs"
proof -
  let ?r = "bt_from a runs"
  have r: "runs_ok ?r f" using ok by (simp add: bt_from_def runs_ok_filter)
  have wf: "bt_wf runs" using ok by (simp add: runs_ok_def)
  obtain x where x: "x \<in> set runs" "fst x \<le> a" "snd x = g" using covering_run_in [OF cov] by blast
  show ?thesis
  proof (cases "map_of ?r a")
    case None
    then have above: "a < fst y" if "y \<in> set ?r" for y
      using that weak_map_of_SomeI [of a "snd y" ?r] by (cases y) (auto simp: bt_from_def order_le_less)
    then have front: "bt_insert a g ?r = (a, g) # ?r" by (intro bt_insert_front) blast
    have g: "g \<le> snd y" if "y \<in> set ?r" for y
      using runs_mono [OF ok x(1), of y] above [OF that] that x by (auto simp: bt_from_def)
    have "g \<le> f" using ok x by (auto simp: runs_ok_def)
    then have "runs_ok ((a, g) # ?r) f" using r above g by (auto simp: runs_ok_def bt_wf_def)
    moreover have "covering_run n ((a, g) # ?r) = covering_run n runs"
    proof (cases "\<exists>y \<in> set runs. a \<le> fst y \<and> fst y \<le> n")
      case True
      then have "filter (\<lambda>(k, _). k \<le> n) ?r \<noteq> []" by (auto simp: bt_from_def filter_empty_conv)
      then have "covering_run n ((a, g) # ?r) = covering_run n ?r"
        using a by (simp add: covering_run_def last_run_def)
      also have "\<dots> = covering_run n runs"
        unfolding covering_run_def bt_from_def by (rule last_filter_later [OF wf True])
      finally show ?thesis .
    next
      case False
      then have "filter (\<lambda>(k, _). k \<le> n) ?r = []" by (auto simp: bt_from_def filter_empty_conv)
      moreover have "filter (\<lambda>(k, _). k \<le> n) runs = filter (\<lambda>(k, _). k \<le> a) runs"
        using False a by (intro filter_cong) auto
      ultimately show ?thesis using a cov by (simp add: covering_run_def last_run_def)
    qed
    ultimately show ?thesis using None front by (simp add: runs' Let_def)
  next
    case (Some v)
    then have "(a, v) \<in> set runs" by (auto simp: bt_from_def dest: map_of_SomeD)
    with a have "\<exists>y \<in> set runs. a \<le> fst y \<and> fst y \<le> n" by force
    from last_filter_later [OF wf this] Some r show ?thesis
      by (simp add: runs' Let_def covering_run_def bt_from_def del: filter_filter)
  qed
qed

end
