(* ===== verification/KV_Durable.thy ===== *)
theory KV_Durable
  imports KV_Replay
begin

text \<open>
  The life of a journal: writes land in it, one at a time and each in a file no older than the
  one before; the log deletes files the journal asked it to, at any time after; the owner opens
  it again.  Whenever it is opened, it gives back the state that the writes made.
\<close>

section \<open>What a journal holds\<close>

definition log_held ::
  "'op journal_entries \<Rightarrow> 'op persistent_state \<Rightarrow> (OpNumber \<times> nat) list \<Rightarrow> nat \<Rightarrow> bool" where
  "log_held m p runs k \<longleftrightarrow> (\<forall>i < length (ps_log p). \<exists>f. map_of m (ps_log_start p + 1 + i) = Some (ps_log p ! i, f)
     \<and> k \<le> f \<and> covering_run (ps_log_start p + 1 + i) runs = Some f)"

lemma log_heldD:
  assumes "log_held m p runs k" and "ps_log_start p < n" and "n \<le> ps_log_start p + length (ps_log p)"
  obtains f where "map_of m n = Some (ps_log p ! (n - ps_log_start p - 1), f)" and "k \<le> f"
    and "covering_run n runs = Some f"
proof -
  from assms(2,3) have "n = ps_log_start p + 1 + (n - ps_log_start p - 1)"
    and "n - ps_log_start p - 1 < length (ps_log p)" by simp_all
  with assms(1) that show ?thesis unfolding log_held_def by metis
qed

lemma map_of_enumerate:
  "map_of (rev (enumerate a es)) n = (if a \<le> n \<and> n < a + length es then Some (es ! (n - a)) else None)"
proof (induction es rule: rev_induct)
  case (snoc e es)
  show ?case
  proof (cases "n = a + length es")
    case False
    with snoc show ?thesis by (auto simp: enumerate_append_eq nth_append)
  qed (simp add: enumerate_append_eq)
qed simp

text \<open>What a write the library makes looks like from the state it applies to.\<close>

definition write_ok :: "'op persistent_state \<Rightarrow> 'op log_write \<Rightarrow> bool" where
  "write_ok p w \<longleftrightarrow> ps_log_start p \<le> lw_log_start w \<and> lw_op_number w + 1 = lw_entries_from w + length (lw_entries w)"

lemma ps_apply_cases:
  assumes "ps_apply p w = Some q" and "write_ok p w"
  obtains keep where "ps_log_start q = lw_log_start w" and "lw_entries_from w = lw_log_start w + 1 + keep"
    and "ps_log q = take keep (drop (lw_log_start w - ps_log_start p) (ps_log p)) @ lw_entries w"
    and "keep \<le> length (ps_log p) - (lw_log_start w - ps_log_start p)"
    and "ps_view_number q = lw_view_number w" and "ps_last_normal_view q = lw_last_normal_view w"
    and "ps_commit_number q = lw_commit_number w" and "ps_recovering q = lw_recovering w"
proof -
  let ?d = "lw_log_start w - ps_log_start p"
  have le: "ps_log_start p \<le> lw_log_start w" using assms(2) by (simp add: write_ok_def)
  have "drop (min ?d (length (ps_log p))) (ps_log p) = drop ?d (ps_log p)" by (simp add: min_def)
  with assms(1) le show ?thesis
    by (intro that [of "lw_entries_from w - lw_log_start w - 1"])
      (auto simp: ps_apply_def Let_def split: if_splits)
qed

lemma held_after_write:
  fixes w :: "'op log_write"
  assumes held: "log_held m p runs k" and ok: "runs_ok runs lf" and f: "lf \<le> f" "k \<le> f"
    and ap: "ps_apply p w = Some q" and wok: "write_ok p w"
    and m': "m' = replay_entries (enumerate (lw_entries_from w) (lw_entries w)) (header_of w) f m"
  shows "log_held m' q (runs_after runs f w) k \<and> runs_ok (runs_after runs f w) f"
proof -
  from ap wok obtain keep where q: "ps_log_start q = lw_log_start w" "lw_entries_from w = lw_log_start w + 1 + keep"
    "ps_log q = take keep (drop (lw_log_start w - ps_log_start p) (ps_log p)) @ lw_entries w"
    "keep \<le> length (ps_log p) - (lw_log_start w - ps_log_start p)"
    by (rule ps_apply_cases)
  let ?d = "lw_log_start w - ps_log_start p" and ?a = "lw_log_start w + 1" and ?from = "lw_entries_from w"
  have le: "ps_log_start p \<le> lw_log_start w" using wok by (simp add: write_ok_def)
  define runs1 where "runs1 = (let runs = bt_below ?from runs in
    if lw_entries w \<noteq> [] then bt_insert ?from f runs else runs)"
  have entry: "\<exists>g. map_of m' (?a + i) = Some (ps_log q ! i, g) \<and> k \<le> g \<and> covering_run (?a + i) runs1 = Some g"
    if i: "i < length (ps_log q)" for i
  proof (cases "i < keep")
    case True
    then have n: "ps_log_start p < ?a + i" "?a + i \<le> ps_log_start p + length (ps_log p)" "?a + i < ?from"
      using le q(2,4) by simp_all
    from held n(1,2) obtain g where g: "map_of m (?a + i) = Some (ps_log p ! (?a + i - ps_log_start p - 1), g)"
      "k \<le> g" "covering_run (?a + i) runs = Some g" by (rule log_heldD)
    have idx: "?a + i - ps_log_start p - 1 = ?d + i" using le by simp
    have "ps_log q ! i = ps_log p ! (?a + i - ps_log_start p - 1)"
      unfolding idx using True q(3,4) by (simp add: nth_append)
    moreover have "map_of m' (?a + i) = map_of m (?a + i)"
      using n(3) by (simp add: m' map_of_replay_entries map_of_enumerate header_of_def)
    moreover have "covering_run (?a + i) runs1 = covering_run (?a + i) runs"
      using written_runs(2) [OF ok f(1) _ runs1_def, of "?a + i"] n(3) by simp
    ultimately show ?thesis using g by simp
  next
    case False
    then have n: "?from \<le> ?a + i" "?a + i - ?from = i - keep" using q(2) by simp_all
    have len: "length (take keep (drop ?d (ps_log p))) = keep" using q(4) by simp
    have ik: "i - keep < length (lw_entries w)" using i False len by (simp add: q(3))
    then have "i < keep + length (lw_entries w)" using False by linarith
    then have "map_of m' (?a + i) = Some (lw_entries w ! (i - keep), f)"
      using n q(2) by (simp add: m' map_of_replay_entries map_of_enumerate)
    moreover have "ps_log q ! i = lw_entries w ! (i - keep)" using False len by (simp add: q(3) nth_append)
    moreover have "covering_run (?a + i) runs1 = Some f"
      using written_runs(2) [OF ok f(1) disjI1 runs1_def, of "?a + i"] n(1) ik by fastforce
    ultimately show ?thesis using f(2) by simp
  qed
  have ok1: "runs_ok runs1 f"
  proof (cases "lw_entries w = []")
    case True
    then show ?thesis
      using ok f by (auto simp: runs1_def Let_def bt_below_def intro: runs_ok_filter runs_ok_mono)
  next
    case False
    then show ?thesis using written_runs(1) [OF ok f(1) _ runs1_def, of 0] by simp
  qed
  have after: "runs_after runs f w = (case covering_run ?a runs1 of None \<Rightarrow> bt_from ?a runs1
     | Some g \<Rightarrow> if ?a \<le> lw_op_number w \<and> map_of (bt_from ?a runs1) ?a = None
         then bt_insert ?a g (bt_from ?a runs1) else bt_from ?a runs1)"
    unfolding runs_after_def runs1_def Let_def by (rule refl)
  show ?thesis
  proof (cases "ps_log q = []")
    case True
    then have "lw_op_number w < ?a" using wok q(2,3,4) by (auto simp: write_ok_def)
    then have "runs_after runs f w = bt_from ?a runs1" by (auto simp: after split: option.split)
    with True ok1 show ?thesis by (simp add: log_held_def bt_from_def runs_ok_filter)
  next
    case False
    then obtain g where cov: "covering_run ?a runs1 = Some g" using entry [of 0] by auto
    have "?a \<le> lw_op_number w" using False wok q by (cases keep) (auto simp: write_ok_def Suc_le_eq)
    then have eq: "runs_after runs f w = (let runs2 = bt_from ?a runs1 in
        if map_of runs2 ?a = None then bt_insert ?a g runs2 else runs2)"
      unfolding after cov Let_def by simp
    have "covering_run (?a + i) (runs_after runs f w) = covering_run (?a + i) runs1" for i
      using compacted_runs [OF ok1 _ cov eq, of "?a + i"] by simp
    with entry have "log_held m' q (runs_after runs f w) k" unfolding log_held_def q(1) by simp
    with compacted_runs [OF ok1 order_refl cov eq] show ?thesis by simp
  qed
qed

section \<open>Opening it again\<close>

lemma sorted_le_last: "sorted xs \<Longrightarrow> x \<in> set xs \<Longrightarrow> x \<le> (last xs :: nat)"
  by (induction xs rule: rev_induct) (auto simp: sorted_append)

lemma covering_run_mono:
  assumes "runs_ok runs lf" and "covering_run n runs = Some f" and "covering_run n' runs = Some f'" and "n \<le> n'"
  shows "f \<le> f'"
proof -
  let ?F = "filter (\<lambda>(k, _). k \<le> n') runs"
  have "sorted (map snd ?F)" using assms(1) by (simp add: runs_ok_def sorted_filter)
  moreover obtain x where "x \<in> set runs" "fst x \<le> n" "snd x = f" using covering_run_in [OF assms(2)] by blast
  then have "f \<in> set (map snd ?F)" using assms(4) by force
  moreover have "f' = last (map snd ?F)" "?F \<noteq> []"
    using assms(3) by (auto simp: covering_run_def last_run_def last_map split: if_splits)
  ultimately show ?thesis using sorted_le_last by blast
qed

lemma collect_entries:
  fixes es :: "'op log_entry list"
  assumes "\<forall>i < length es. map_of m (a + i) = Some (es ! i, t (a + i))"
    and "\<forall>i j. i \<le> j \<and> j < length es \<longrightarrow> t (a + i) \<le> t (a + j)" and "\<forall>i < length es. t (a + i) \<le> lf"
    and "runs_ok runs lf" and "\<forall>x \<in> set runs. fst x < a" and "\<forall>x \<in> set runs. \<forall>i < length es. snd x \<le> t (a + i)"
  shows "\<exists>runs'. collect [a..<a + length es] m log runs = (Inr (log @ es, runs')
       :: 'e journal_error + 'op log_entry list \<times> (OpNumber \<times> nat) list) \<and> runs_ok runs' lf
     \<and> (\<forall>n < a. covering_run n runs' = covering_run n runs)
     \<and> (\<forall>i < length es. covering_run (a + i) runs' = Some (t (a + i)))"
  using assms
proof (induction es arbitrary: a m log runs)
  case (Cons e es)
  let ?r = "if last_run runs \<noteq> Some (t a) then bt_insert a (t a) runs else runs"
  have e: "map_of m a = Some (e, t a)" using Cons.prems(1) [rule_format, of 0] by simp
  have snoc: "bt_insert a (t a) runs = runs @ [(a, t a)]"
    using Cons.prems(4,5) by (intro bt_wf_snoc) (auto simp: runs_ok_def)
  have ta: "t a \<le> lf" "\<forall>x \<in> set runs. snd x \<le> t a" using Cons.prems(3,6) by force+
  have r: "runs_ok ?r lf" "\<forall>x \<in> set ?r. fst x < Suc a" "last_run ?r = Some (t a)"
    using Cons.prems(4,5) ta by (auto simp: snoc runs_ok_def bt_wf_def sorted_append sorted_wrt_append last_run_def)
  have t: "t a \<le> t (Suc a + i)" if "i < length es" for i
    using Cons.prems(2) [rule_format, of 0 "Suc i"] that by simp
  have le: "\<forall>x \<in> set ?r. \<forall>i < length es. snd x \<le> t (Suc a + i)"
    using ta(2) t by (auto simp: snoc intro: order_trans)
  have cov: "covering_run n ?r = covering_run n runs" if "n < a" for n
    using that by (simp add: covering_run_def snoc)
  have "filter (\<lambda>(k, _). k \<le> a) ?r = ?r"
    by (intro filter_True ballI) (use r(2) in \<open>simp add: split_beta less_Suc_eq_le\<close>)
  with r(3) have cov0: "covering_run a ?r = Some (t a)" by (simp add: covering_run_def)
  have m: "\<forall>i < length es. map_of (bt_remove a m) (Suc a + i) = Some (es ! i, t (Suc a + i))"
  proof (intro allI impI)
    fix i assume "i < length es"
    then show "map_of (bt_remove a m) (Suc a + i) = Some (es ! i, t (Suc a + i))"
      using Cons.prems(1) [rule_format, of "Suc i"] by simp
  qed
  have mono: "\<forall>i j. i \<le> j \<and> j < length es \<longrightarrow> t (Suc a + i) \<le> t (Suc a + j)"
  proof (intro allI impI)
    fix i j assume "i \<le> j \<and> j < length es"
    then show "t (Suc a + i) \<le> t (Suc a + j)" using Cons.prems(2) [rule_format, of "Suc i" "Suc j"] by simp
  qed
  have lf: "\<forall>i < length es. t (Suc a + i) \<le> lf"
  proof (intro allI impI)
    fix i assume "i < length es"
    then show "t (Suc a + i) \<le> lf" using Cons.prems(3) [rule_format, of "Suc i"] by simp
  qed
  from Cons.IH [OF m mono lf r(1,2) le, of "log @ [e]"] obtain runs' where
    IH: "collect [Suc a..<Suc a + length es] (bt_remove a m) (log @ [e]) ?r = (Inr ((log @ [e]) @ es, runs')
       :: 'e journal_error + 'op log_entry list \<times> (OpNumber \<times> nat) list)"
    "runs_ok runs' lf" "\<forall>n < Suc a. covering_run n runs' = covering_run n ?r"
    "\<forall>i < length es. covering_run (Suc a + i) runs' = Some (t (Suc a + i))" by blast
  have range: "[a..<a + length (e # es)] = a # [Suc a..<Suc a + length es]"
    by (subst upt_conv_Cons) (simp_all only: length_Cons add_Suc_right add_Suc less_add_Suc1)
  have "collect [a..<a + length (e # es)] m log runs = (Inr (log @ e # es, runs')
       :: 'e journal_error + 'op log_entry list \<times> (OpNumber \<times> nat) list)"
    unfolding range by (simp only: collect.simps e option.case prod.case IH(1) append_assoc append.simps)
  moreover have "\<forall>n < a. covering_run n runs' = covering_run n runs" using IH(3) cov by simp
  moreover have "covering_run (a + i) runs' = Some (t (a + i))" if "i < length (e # es)" for i
    using that IH(3,4) cov0 by (cases i) simp_all
  ultimately show ?case using IH(2) by blast
qed simp

lemma collect_held:
  fixes p :: "'op persistent_state"
  assumes held: "log_held m p runs k" and ok: "runs_ok runs lf"
  shows "\<exists>runs'. collect [ps_log_start p + 1..<ps_log_start p + length (ps_log p) + 1] m [] []
      = (Inr (ps_log p, runs') :: 'e journal_error + 'op log_entry list \<times> (OpNumber \<times> nat) list)
    \<and> runs_ok runs' lf \<and> log_held m p runs' k"
proof -
  let ?a = "ps_log_start p + 1" and ?n = "length (ps_log p)"
  define t where "t = (\<lambda>n. the (covering_run n runs))"
  have e: "map_of m (?a + i) = Some (ps_log p ! i, t (?a + i))" "k \<le> t (?a + i)" "covering_run (?a + i) runs = Some (t (?a + i))"
    if "i < ?n" for i using held that by (force simp: log_held_def t_def)+
  have mono: "t (?a + i) \<le> t (?a + j)" if "i \<le> j" "j < ?n" for i j
    using covering_run_mono [OF ok e(3) e(3), of i j] that by simp
  have lf: "t (?a + i) \<le> lf" if "i < ?n" for i
    using covering_run_in [OF e(3) [OF that]] ok by (auto simp: runs_ok_def)
  have "runs_ok [] lf" by (simp add: runs_ok_def)
  from collect_entries [of "ps_log p" m ?a t lf "[]" "[]"] this e(1) mono lf obtain runs' where
    r: "collect [?a..<?a + ?n] m [] [] = (Inr (ps_log p, runs') :: 'e journal_error + 'op log_entry list \<times> (OpNumber \<times> nat) list)"
    "runs_ok runs' lf" "\<forall>i < ?n. covering_run (?a + i) runs' = Some (t (?a + i))" by auto
  have "log_held m p runs' k" unfolding log_held_def using e(1,2) r(3) by blast
  moreover have "?a + ?n = ps_log_start p + ?n + 1" by simp
  ultimately show ?thesis using r(1,2) by metis
qed

section \<open>The life of a journal\<close>

definition state_of :: "'op persistent_state option \<Rightarrow> 'op persistent_state" where
  "state_of p = (case p of None \<Rightarrow> ps_empty | Some q \<Rightarrow> q)"

definition trim_log :: "nat \<Rightarrow> journal_log \<Rightarrow> journal_log" where
  "trim_log k wal = filter (\<lambda>(f, _). k \<le> f) wal"

inductive journaled ::
  "('op, 'e) entry_codec \<Rightarrow> ('op log_entry \<Rightarrow> bool) \<Rightarrow> journal_log \<Rightarrow> journal \<Rightarrow> 'op persistent_state option \<Rightarrow> bool"
  for codec ok where
  start: "journaled codec ok [] journal_new None"
| landed: "journaled codec ok wal j p \<Longrightarrow> write_fits ok w \<Longrightarrow> write_ok (state_of p) w \<Longrightarrow>
    ps_apply (state_of p) w = Some q \<Longrightarrow> submit_record codec w = Some t \<Longrightarrow> jr_last_file j \<le> f \<Longrightarrow>
    journal_finish j w [f] answer1 answer2 = (j', Inr () :: 'e journal_error + unit) \<Longrightarrow>
    journaled codec ok (wal @ [(f, t)]) j' (Some q)"
| trimmed: "journaled codec ok wal j p \<Longrightarrow> k \<le> jr_trimmed_before j \<Longrightarrow> journaled codec ok (trim_log k wal) j p"
| reopened: "journaled codec ok wal j p \<Longrightarrow> journal_open codec wal = Inr (j', p') \<Longrightarrow> journaled codec ok wal j' p'"

definition header_for :: "header \<Rightarrow> 'op persistent_state \<Rightarrow> bool" where
  "header_for h q \<longleftrightarrow> jh_view_number h = ps_view_number q \<and> jh_last_normal_view h = ps_last_normal_view q
     \<and> jh_commit_number h = ps_commit_number q \<and> jh_log_start h = ps_log_start q
     \<and> jh_op_number h = ps_log_start q + length (ps_log q) \<and> jh_recovering h = ps_recovering q"

definition journal_inv :: "('op, 'e) entry_codec \<Rightarrow> journal_log \<Rightarrow> journal \<Rightarrow> 'op persistent_state option \<Rightarrow> bool" where
  "journal_inv codec wal j p \<longleftrightarrow> sorted (map fst wal) \<and> (\<forall>x \<in> set wal. fst x \<le> jr_last_file j)
     \<and> runs_ok (jr_runs j) (jr_last_file j) \<and> jr_trimmed_before j \<le> jr_last_file j
     \<and> (\<exists>m ho. replay codec wal [] None = Inr (m, ho) \<and> log_held m (state_of p) (jr_runs j) (jr_trimmed_before j)
       \<and> (case p of None \<Rightarrow> ho = None \<and> wal = [] | Some q \<Rightarrow> \<exists>h. ho = Some (h, jr_last_file j) \<and> header_for h q))"

lemma journal_finish_cases:
  assumes "journal_finish j w [f] answer1 answer2 = (j', Inr () :: 'e journal_error + unit)"
  shows "jr_last_file j' = f \<and> jr_runs j' = runs_after (jr_runs j) f w
     \<and> (jr_trimmed_before j' = jr_trimmed_before j \<or> jr_trimmed_before j' = oldest_file (jr_runs j') f)"
  using assms
  by (auto simp: journal_finish_def Let_def trim_out_def split: prod.splits sum.splits option.splits if_splits)

lemma log_held_oldest:
  assumes "log_held m p runs k" and "runs_ok runs f"
  shows "log_held m p runs (oldest_file runs f)"
  using assms covering_run_le [OF assms(2)] by (fastforce simp: log_held_def)

lemma header_for_write:
  assumes "ps_apply p w = Some q" and "write_ok p w"
  shows "header_for (header_of w) q"
proof -
  have "keep \<le> length (ps_log p) - d \<Longrightarrow> length (take keep (drop d (ps_log p))) = keep" for keep d by simp
  with ps_apply_cases [OF assms] assms(2) show ?thesis
    by (fastforce simp: header_for_def header_of_def write_ok_def)
qed

lemma journal_inv_new: "journal_inv codec [] journal_new None"
  by (simp add: journal_inv_def journal_new_def runs_ok_def bt_wf_def log_held_def state_of_def ps_empty_def)

lemma journal_inv_trimmed:
  assumes inv: "journal_inv codec wal j p" and k: "k \<le> jr_trimmed_before j"
  shows "journal_inv codec (trim_log k wal) j p"
proof (cases p)
  case None
  with inv show ?thesis by (auto simp: journal_inv_def trim_log_def)
next
  case (Some q)
  with inv obtain m h where r: "replay codec wal [] None = Inr (m, Some (h, jr_last_file j))" "header_for h q"
    and held: "log_held m q (jr_runs j) (jr_trimmed_before j)" and wal: "sorted (map fst wal)"
    and le: "jr_trimmed_before j \<le> jr_last_file j"
    by (auto simp: journal_inv_def state_of_def)
  from k le have "k \<le> jr_last_file j" by simp
  from replay_trimmed [OF r(1) wal this] obtain m' where
    m': "replay codec (trim_log k wal) [] None = Inr (m', Some (h, jr_last_file j))" and lacks: "lacks_old k m m'"
    by (auto simp: trim_log_def)
  have kept: "map_of m' n = Some (e, f)" if "map_of m n = Some (e, f)" "jr_trimmed_before j \<le> f" for n e f
  proof -
    have "map_of m' n = map_of m n \<or> (\<exists>e f. map_of m n = Some (e, f) \<and> f < k)"
      using lacks by (auto simp: lacks_old_def)
    with that k show ?thesis by auto
  qed
  then have "log_held m' q (jr_runs j) (jr_trimmed_before j)" using held by (fastforce simp: log_held_def)
  with m' r(2) inv Some show ?thesis
    by (auto simp: journal_inv_def state_of_def trim_log_def sorted_filter)
qed

lemma journal_opens:
  fixes codec :: "('op, 'e) entry_codec"
  assumes "journal_inv codec wal j p"
  obtains j' where "journal_open codec wal = Inr (j', p)" and "journal_inv codec wal j' p"
proof (cases p)
  case None
  with assms have "wal = []" by (auto simp: journal_inv_def)
  then have "journal_open codec wal = Inr (journal_new, None)" by (simp add: journal_open_def)
  with None \<open>wal = []\<close> show ?thesis using that journal_inv_new by blast
next
  case (Some q)
  with assms obtain m h where r: "replay codec wal [] None = Inr (m, Some (h, jr_last_file j))" "header_for h q"
    and held: "log_held m q (jr_runs j) (jr_trimmed_before j)" and ok: "runs_ok (jr_runs j) (jr_last_file j)"
    by (auto simp: journal_inv_def state_of_def)
  from collect_held [OF held ok] obtain runs' where
    c: "collect [ps_log_start q + 1..<ps_log_start q + length (ps_log q) + 1] m [] [] =
        (Inr (ps_log q, runs') :: 'e journal_error + 'op log_entry list \<times> (OpNumber \<times> nat) list)"
    and ok': "runs_ok runs' (jr_last_file j)" and held': "log_held m q runs' (jr_trimmed_before j)" by blast
  let ?j = "journal_new\<lparr>jr_runs := runs', jr_last_file := jr_last_file j\<rparr>"
  have "journal_open codec wal = Inr (?j, Some q)"
    using r(2) c unfolding header_for_def journal_open_def r(1) by (simp del: upt_Suc)
  moreover have "journal_inv codec wal ?j (Some q)"
    using assms Some r ok' held' by (auto simp: journal_inv_def state_of_def journal_new_def log_held_def)
  ultimately show ?thesis using that Some by blast
qed

context line_codec
begin

lemma journal_inv_landed:
  assumes inv: "journal_inv codec wal j p" and fit: "write_fits ok w" and wok: "write_ok (state_of p) w"
    and ap: "ps_apply (state_of p) w = Some q" and sub: "submit_record codec w = Some t" and f: "jr_last_file j \<le> f"
    and fin: "journal_finish j w [f] answer1 answer2 = (j', Inr () :: 'e journal_error + unit)"
  shows "journal_inv codec (wal @ [(f, t)]) j' (Some q)"
proof -
  from inv obtain m ho where r: "replay codec wal [] None = Inr (m, ho)"
    and held: "log_held m (state_of p) (jr_runs j) (jr_trimmed_before j)"
    and ok: "runs_ok (jr_runs j) (jr_last_file j)" and le: "jr_trimmed_before j \<le> jr_last_file j"
    and wal: "sorted (map fst wal)" "\<forall>x \<in> set wal. fst x \<le> jr_last_file j"
    by (auto simp: journal_inv_def)
  let ?m = "replay_entries (enumerate (lw_entries_from w) (lw_entries w)) (header_of w) f m"
  have read: "read_record codec (str_lines t) [] None = Inr (enumerate (lw_entries_from w) (lw_entries w), header_of w)"
    by (rule submit_record_reads [OF fit]) (use sub in simp)
  with r have r': "replay codec (wal @ [(f, t)]) [] None = Inr (?m, Some (header_of w, f))"
    by (simp add: replay_append)
  have kf: "jr_trimmed_before j \<le> f" using le f by simp
  have held': "log_held ?m q (runs_after (jr_runs j) f w) (jr_trimmed_before j)"
    and ok': "runs_ok (runs_after (jr_runs j) f w) f"
    using held_after_write [OF held ok f kf ap wok refl] by simp_all
  have j': "jr_last_file j' = f" "jr_runs j' = runs_after (jr_runs j) f w"
    "jr_trimmed_before j' = jr_trimmed_before j \<or> jr_trimmed_before j' = oldest_file (jr_runs j') f"
    using journal_finish_cases [OF fin] by blast+
  have "log_held ?m q (jr_runs j') (jr_trimmed_before j')"
    using j'(3) held' log_held_oldest [OF held' ok'] by (auto simp: j'(2))
  moreover have "jr_trimmed_before j' \<le> f"
    using j'(3) kf by (auto simp: oldest_file_def split: list.splits)
  moreover have "sorted (map fst (wal @ [(f, t)]))" "\<forall>x \<in> set (wal @ [(f, t)]). fst x \<le> f"
    using wal f by (auto simp: sorted_append intro: order_trans)
  ultimately show ?thesis
    using r' ok' header_for_write [OF ap wok] by (auto simp: journal_inv_def j'(1,2) state_of_def)
qed

lemma journaled_inv: "journaled codec ok wal j p \<Longrightarrow> journal_inv codec wal j p"
proof (induction rule: journaled.induct)
  case (reopened wal j p j' p')
  from reopened.IH obtain j'' where "journal_open codec wal = Inr (j'', p)" "journal_inv codec wal j'' p"
    by (rule journal_opens)
  with reopened.hyps(2) show ?case by simp
qed (auto intro: journal_inv_new journal_inv_landed journal_inv_trimmed)

end

text \<open>
  C27: a journal is durable storage for a replica: whatever writes landed in it, whatever files
  the log deleted on its request, and however often it was opened again, opening it succeeds and
  gives back exactly the state that the writes made.
\<close>

theorem journal_gives_back:
  assumes "journaled kv_codec wf_entry wal j p"
  shows "\<exists>j'. journal_open kv_codec wal = Inr (j', p)"
  using journal_opens [OF kv.journaled_inv [OF assms]] by blast

definition sample_write :: "kv_op log_write" where
  "sample_write = \<lparr>lw_view_number = 1, lw_last_normal_view = 1, lw_recovering = False, lw_commit_number = 0,
     lw_log_start = 0, lw_entries_from = 1, lw_entries = [ERegister 7, ERequest 7 1 1 0 (Put ''k'' ''v'')],
     lw_sync = True, lw_op_number = 2, lw_sequence = 0\<rparr>"

definition sample_state :: "kv_op persistent_state" where
  "sample_state = \<lparr>ps_view_number = 1, ps_last_normal_view = 1, ps_commit_number = 0, ps_log_start = 0,
     ps_log = [ERegister 7, ERequest 7 1 1 0 (Put ''k'' ''v'')], ps_recovering = False\<rparr>"

lemma sample_submitted:
  obtains t where "submit_record kv_codec sample_write = Some t"
  by (rule kv.submit_record_reads [of sample_write])
    (auto simp: write_fits_def sample_write_def fits_def is_word_def is_ws_def)

theorem journal_gives_back_witness:
  "\<exists>t j. submit_record kv_codec sample_write = Some t \<and> journal_open kv_codec [(3, t)] = Inr (j, Some sample_state)"
proof -
  obtain t where t: "submit_record kv_codec sample_write = Some t" by (rule sample_submitted)
  have "journaled kv_codec wf_entry ([] @ [(3, t)])
      \<lparr>jr_runs = [(1, 3)], jr_last_file = 3, jr_trimmed_before = 3, jr_trimming = True\<rparr> (Some sample_state)"
  proof (rule journaled.landed [OF journaled.start _ _ _ t])
    show "write_fits wf_entry sample_write"
      by (simp add: write_fits_def sample_write_def fits_def is_word_def is_ws_def)
    show "write_ok (state_of None) sample_write" by (simp add: write_ok_def sample_write_def state_of_def ps_empty_def)
    show "ps_apply (state_of None) sample_write = Some sample_state"
      by (simp add: ps_apply_def sample_write_def sample_state_def state_of_def ps_empty_def)
    show "jr_last_file journal_new \<le> 3" by (simp add: journal_new_def)
    show "journal_finish journal_new sample_write [3] None None =
        (\<lparr>jr_runs = [(1, 3)], jr_last_file = 3, jr_trimmed_before = 3, jr_trimming = True\<rparr>, Inr ())"
      by (simp add: journal_finish_def journal_new_def sample_write_def runs_after_def bt_below_def bt_from_def
          covering_run_def last_run_def oldest_file_def trim_out_def Let_def)
  qed
  from journal_gives_back [OF this] t show ?thesis by auto
qed

end
