(* ===== verification/Spec2Isabelle.thy ===== *)
theory Spec2Isabelle
  imports VSR_Safety VSR_Execution VSR_Protocol VSR_ClientContract Sim_Owner Sim_Network Sim_Checks KV_Durable
begin

text \<open>
  Viewstamped Replication as \<open>src/lib.rs\<close> implements it.
\<close>

text \<open>C38: two quorums of the replicas of a configuration have a replica in common.\<close>

theorem quorums_intersect:
  assumes "config_wf c" and "A \<subseteq> {..<replica_count c}" and "B \<subseteq> {..<replica_count c}"
    and "cfg_quorum c \<le> card A" and "cfg_quorum c \<le> card B"
  shows "A \<inter> B \<noteq> {}"
  by (rule replica_quorums_meet [of c]; rule replica_quorumI) (use assms in auto)

theorem quorums_intersect_witness: "{0, 1} \<inter> {1, 2} \<noteq> ({} :: nat set)"
  by (rule quorums_intersect [of "add_replicas 3 config_new"]) code_simp+

end
